(* ===== verification/Prelude.thy ===== *)
theory Prelude
  imports Main "HOL-Library.Word" "HOL-Library.List_Lexorder" "HOL-Library.Char_ord"
    "HOL-Library.Product_Lexorder"
begin

text \<open>
  Shared vocabulary of the development: the names of Rust's integer types, results as sums,
  Rust's ordered map (\<^verbatim>\<open>BTreeMap\<close>) as a strictly sorted association list, and decimal
  numerals as strings.
  The locale \<open>ordered_map\<close> is the interface the components rely on; it is interpreted on the
  sorted association list that models \<^verbatim>\<open>BTreeMap\<close> everywhere.
\<close>

section \<open>Types\<close>

type_synonym u8 = "8 word"
type_synonym u16 = "16 word"
type_synonym u32 = "32 word"
type_synonym u64 = "64 word"
type_synonym Ipv4Addr = "32 word"

text \<open>A fallible Rust function returns a sum: \<open>Inl\<close> is \<^verbatim>\<open>Err\<close>, \<open>Inr\<close> is \<^verbatim>\<open>Ok\<close>.\<close>

type_synonym ('e, 'a) result = "'e + 'a"

named_theorems bt_simps \<open>lookups in ordered maps after an update\<close>
named_theorems bt_wf_intros \<open>preservation of the order of an ordered map\<close>

section \<open>Saturating arithmetic on unsigned 64-bit integers\<close>

definition u64_saturating_add :: "u64 \<Rightarrow> u64 \<Rightarrow> u64" where
  "u64_saturating_add a b = (if unat a + unat b < 2 ^ 64 then a + b else - 1)"

definition u64_saturating_sub :: "u64 \<Rightarrow> u64 \<Rightarrow> u64" where
  "u64_saturating_sub a b = (if b \<le> a then a - b else 0)"

lemma u64_saturating_add_ge: "a \<le> u64_saturating_add a b"
proof (cases "unat a + unat b < 2 ^ 64")
  case True
  then show ?thesis by (simp add: u64_saturating_add_def word_le_nat_alt unat_word_ariths)
next
  case False
  then show ?thesis by (simp add: u64_saturating_add_def)
qed

lemma u64_saturating_add_mono_strict:
  assumes "b \<noteq> 0" "a \<noteq> - 1"
  shows "a < u64_saturating_add a b"
proof (cases "unat a + unat b < 2 ^ 64")
  case True
  moreover have "0 < unat b" using assms(1) by (simp add: unat_gt_0)
  ultimately show ?thesis
    by (simp add: u64_saturating_add_def word_less_nat_alt unat_word_ariths)
next
  case False
  moreover have "a < - 1" using assms(2) word_order.not_eq_extremum by blast
  ultimately show ?thesis by (simp add: u64_saturating_add_def)
qed

lemma unat_u64_saturating_sub: "unat (u64_saturating_sub a b) = unat a - unat b"
  by (auto simp: u64_saturating_sub_def word_le_nat_alt unat_sub)

section \<open>Ordered maps\<close>

type_synonym ('k, 'v) btree_map = "('k \<times> 'v) list"

fun bt_insert :: "'k::linorder \<Rightarrow> 'v \<Rightarrow> ('k, 'v) btree_map \<Rightarrow> ('k, 'v) btree_map" where
  "bt_insert k v [] = [(k, v)]"
| "bt_insert k v (e # m) =
     (if fst e < k then e # bt_insert k v m
      else if fst e = k then (k, v) # m
      else (k, v) # e # m)"

definition bt_remove :: "'k \<Rightarrow> ('k, 'v) btree_map \<Rightarrow> ('k, 'v) btree_map" where
  "bt_remove k m = filter (\<lambda>e. fst e \<noteq> k) m"

definition bt_values :: "('k, 'v) btree_map \<Rightarrow> 'v list" where
  "bt_values m = map snd m"

definition bt_keys :: "('k, 'v) btree_map \<Rightarrow> 'k list" where
  "bt_keys m = map fst m"

definition bt_wf :: "('k::linorder, 'v) btree_map \<Rightarrow> bool" where
  "bt_wf m = sorted_wrt (<) (map fst m)"

text \<open>\<^verbatim>\<open>map.entry(k).or_default().push(x)\<close>\<close>

definition bt_push :: "'k::linorder \<Rightarrow> 'v \<Rightarrow> ('k, 'v list) btree_map \<Rightarrow> ('k, 'v list) btree_map" where
  "bt_push k x m = bt_insert k ((case map_of m k of None \<Rightarrow> [] | Some xs \<Rightarrow> xs) @ [x]) m"

lemma bt_get_insert [simp, bt_simps]: "map_of (bt_insert k v m) = (map_of m)(k \<mapsto> v)"
  by (induction m) (auto simp: fun_eq_iff)

lemma bt_get_remove [simp, bt_simps]: "map_of (bt_remove k m) = (map_of m)(k := None)"
  by (induction m) (auto simp: bt_remove_def fun_eq_iff)

lemma bt_keys_insert: "fst ` set (bt_insert k v m) = insert k (fst ` set m)"
  by (induction m) auto

lemma bt_wf_Nil [simp]: "bt_wf []"
  by (simp add: bt_wf_def)

lemma bt_wf_Cons [simp]: "bt_wf (e # m) \<longleftrightarrow> (\<forall>x \<in> fst ` set m. fst e < x) \<and> bt_wf m"
  by (auto simp: bt_wf_def)

lemma bt_wf_insert [simp, bt_wf_intros]: "bt_wf m \<Longrightarrow> bt_wf (bt_insert k v m)"
  by (induction m) (auto simp: bt_keys_insert)

lemma bt_wf_remove [simp, bt_wf_intros]: "bt_wf m \<Longrightarrow> bt_wf (bt_remove k m)"
  by (induction m) (auto simp: bt_remove_def)

lemma bt_wf_filter [simp, bt_wf_intros]: "bt_wf m \<Longrightarrow> bt_wf (filter P m)"
  by (induction m) auto

lemma bt_wf_push [simp, bt_wf_intros]: "bt_wf m \<Longrightarrow> bt_wf (bt_push k x m)"
  by (simp add: bt_push_def)

lemma bt_wf_distinct: "bt_wf m \<Longrightarrow> distinct (map fst m)"
  by (induction m) auto

lemma bt_wf_sorted: "bt_wf m \<Longrightarrow> sorted (map fst m)"
  by (simp add: bt_wf_def strict_sorted_imp_sorted)

lemma bt_get_mem: "bt_wf m \<Longrightarrow> map_of m k = Some v \<longleftrightarrow> (k, v) \<in> set m"
  by (simp add: bt_wf_distinct)

lemma bt_get_Some_mem: "map_of m k = Some v \<Longrightarrow> v \<in> set (bt_values m)"
  by (auto simp: bt_values_def dest: map_of_SomeD intro: rev_image_eqI)

lemma bt_values_mem: "bt_wf m \<Longrightarrow> v \<in> set (bt_values m) \<longleftrightarrow> (\<exists>k. map_of m k = Some v)"
  by (force simp: bt_values_def bt_get_mem)

lemma bt_ext:
  assumes "bt_wf m" "bt_wf n" "map_of m = map_of n"
  shows "m = n"
proof -
  have "set m = set n"
    using assms by (auto simp: bt_get_mem [symmetric])
  moreover have "distinct (map fst m)" "distinct (map fst n)"
    using assms by (auto dest: bt_wf_distinct)
  moreover have "map fst m = map fst n"
    using assms calculation by (auto intro!: sorted_distinct_set_unique dest: bt_wf_sorted)
  ultimately show ?thesis
    by (intro map_sorted_distinct_set_unique [of fst])
      (use assms in \<open>auto dest: bt_wf_sorted intro: eq_key_imp_eq_value simp: inj_on_def\<close>)
qed

lemma bt_get_push [simp, bt_simps]:
  "map_of (bt_push k x m) = (map_of m)(k \<mapsto> (case map_of m k of None \<Rightarrow> [] | Some xs \<Rightarrow> xs) @ [x])"
  by (simp add: bt_push_def)

text \<open>Grouping a list with \<^verbatim>\<open>entry().or_default().push()\<close>, in the order of the list.\<close>

definition bt_group :: "('a \<Rightarrow> 'k::linorder) \<Rightarrow> ('a \<Rightarrow> 'v) \<Rightarrow> 'a list \<Rightarrow> ('k, 'v list) btree_map" where
  "bt_group f g xs = foldl (\<lambda>m x. bt_push (f x) (g x) m) [] xs"

lemma bt_wf_foldl_push: "bt_wf m \<Longrightarrow> bt_wf (foldl (\<lambda>m x. bt_push (f x) (g x) m) m xs)"
  by (induction xs arbitrary: m) auto

lemma bt_wf_group [simp, bt_wf_intros]: "bt_wf (bt_group f g xs)"
  by (simp add: bt_group_def bt_wf_foldl_push)

lemma bt_get_group:
  "map_of (bt_group f g xs) k =
     (if k \<in> f ` set xs then Some (map g (filter (\<lambda>x. f x = k) xs)) else None)"
proof (induction xs rule: rev_induct)
  case Nil
  show ?case by (simp add: bt_group_def)
next
  case (snoc x xs)
  have "bt_group f g (xs @ [x]) = bt_push (f x) (g x) (bt_group f g xs)"
    by (simp add: bt_group_def)
  then show ?case using snoc.IH by (auto simp: filter_empty_conv image_iff) metis
qed

text \<open>Mapping a function over the values.\<close>

definition bt_map :: "('v \<Rightarrow> 'w) \<Rightarrow> ('k, 'v) btree_map \<Rightarrow> ('k, 'w) btree_map" where
  "bt_map f m = map (\<lambda>(k, v). (k, f v)) m"

lemma bt_map_Nil [simp]: "bt_map f [] = []"
  by (simp add: bt_map_def)

lemma bt_map_insert: "bt_map f (bt_insert k v m) = bt_insert k (f v) (bt_map f m)"
  by (induction m) (auto simp: bt_map_def)

lemma bt_get_map [simp, bt_simps]: "map_of (bt_map f m) k = map_option f (map_of m k)"
  by (induction m) (auto simp: bt_map_def)

lemma bt_values_map [simp]: "bt_values (bt_map f m) = map f (bt_values m)"
  by (simp add: bt_values_def bt_map_def split_def comp_def)

subsection \<open>The interface of ordered maps\<close>

text \<open>
  What the components use of an ordered map: lookup, insertion, removal and the list of values,
  with the laws \<^verbatim>\<open>BTreeMap\<close> promises.
  Client lemmas about maps that are built entry by entry are proved here once.
\<close>

locale ordered_map =
  fixes empty :: "'m"
    and get :: "'m \<Rightarrow> 'k \<Rightarrow> 'v option"
    and ins :: "'k \<Rightarrow> 'v \<Rightarrow> 'm \<Rightarrow> 'm"
    and del :: "'k \<Rightarrow> 'm \<Rightarrow> 'm"
    and vals :: "'m \<Rightarrow> 'v list"
    and wf :: "'m \<Rightarrow> bool"
  assumes get_empty: "get empty k = None"
    and get_ins: "get (ins k v m) = (get m)(k \<mapsto> v)"
    and get_del: "get (del k m) = (get m)(k := None)"
    and wf_empty: "wf empty"
    and wf_ins: "wf m \<Longrightarrow> wf (ins k v m)"
    and wf_del: "wf m \<Longrightarrow> wf (del k m)"
    and set_vals: "wf m \<Longrightarrow> v \<in> set (vals m) \<longleftrightarrow> (\<exists>k. get m k = Some v)"
    and ext: "wf m \<Longrightarrow> wf n \<Longrightarrow> get m = get n \<Longrightarrow> m = n"
begin

lemma ins_del_vals:
  assumes "wf m"
  shows "set (vals (ins k v m)) \<subseteq> insert v (set (vals m))"
  using assms by (auto simp: set_vals wf_ins get_ins split: if_splits)

lemma del_vals: "wf m \<Longrightarrow> set (vals (del k m)) \<subseteq> set (vals m)"
  by (auto simp: set_vals wf_del get_del split: if_splits)

lemma ins_commute:
  assumes "wf m" "k \<noteq> k'"
  shows "ins k v (ins k' v' m) = ins k' v' (ins k v m)"
  using assms by (intro ext) (auto simp: wf_ins get_ins)

lemma ins_same:
  assumes "wf m"
  shows "ins k v (ins k v' m) = ins k v m"
  using assms by (intro ext) (auto simp: wf_ins get_ins)

lemma ins_present:
  assumes "wf m" "get m k = Some v"
  shows "ins k v m = m"
  using assms by (intro ext) (auto simp: wf_ins get_ins)

lemma del_absent:
  assumes "wf m" "get m k = None"
  shows "del k m = m"
  using assms by (intro ext) (auto simp: wf_del get_del)

lemma wf_fold_ins: "wf m \<Longrightarrow> wf (foldl (\<lambda>m x. ins (f x) (g x) m) m xs)"
  by (induction xs arbitrary: m) (auto simp: wf_ins)

lemma get_fold_ins_notin:
  "k \<notin> f ` set xs \<Longrightarrow> get (foldl (\<lambda>m x. ins (f x) (g x) m) m xs) k = get m k"
  by (induction xs arbitrary: m) (auto simp: get_ins)

lemma get_fold_ins:
  assumes "distinct (map f xs)" "x \<in> set xs"
  shows "get (foldl (\<lambda>m x. ins (f x) (g x) m) m xs) (f x) = Some (g x)"
  using assms
proof (induction xs arbitrary: m)
  case Nil
  then show ?case by simp
next
  case (Cons y ys)
  show ?case
  proof (cases "x = y")
    case True
    with Cons.prems have "f x \<notin> f ` set ys" by auto
    with True show ?thesis by (simp add: get_fold_ins_notin get_ins)
  next
    case False
    with Cons show ?thesis by simp
  qed
qed

lemma get_fold_insD:
  assumes "get (foldl (\<lambda>m x. ins (f x) (g x) m) m xs) k = Some v"
  shows "get m k = Some v \<or> (\<exists>x \<in> set xs. f x = k \<and> g x = v)"
  using assms by (induction xs arbitrary: m) (fastforce simp: get_ins split: if_splits)+

end

interpretation bt: ordered_map "[]" map_of bt_insert bt_remove bt_values bt_wf
  by unfold_locales (simp_all add: bt_values_mem bt_ext)

section \<open>Collecting options\<close>

text \<open>Collecting an iterator whose items may fail: the first failure is the result.\<close>

fun collect_options :: "('a \<Rightarrow> 'b option) \<Rightarrow> 'a list \<Rightarrow> 'b list option" where
  "collect_options f [] = Some []"
| "collect_options f (x # xs) = Option.bind (f x) (\<lambda>y. map_option (\<lambda>ys. y # ys) (collect_options f xs))"

lemma collect_options_total: "(\<forall>x \<in> set xs. f x \<noteq> None) \<Longrightarrow> \<exists>ys. collect_options f xs = Some ys"
  by (induction xs) auto

lemma collect_options_Some: "collect_options f xs = Some ys \<Longrightarrow> list_all2 (\<lambda>x y. f x = Some y) xs ys"
  by (induction xs arbitrary: ys) (auto simp: bind_eq_Some_conv)

end
