(* ===== verification/Text_Format.thy ===== *)
theory Text_Format
  imports Prelude
begin

text \<open>
  What the sources use of Rust's string library: decimal and hexadecimal formatting, the
  \<^verbatim>\<open>FromStr\<close> parsers of the unsigned integers and of \<^verbatim>\<open>Ipv4Addr\<close>, \<^verbatim>\<open>split_once\<close>, \<^verbatim>\<open>split\<close>,
  \<^verbatim>\<open>strip_prefix\<close>, \<^verbatim>\<open>trim\<close> and ASCII case conversion, on byte strings.
  The lemmas are the round trips between printing and parsing.
\<close>

section \<open>Characters\<close>

definition is_ascii_digit :: "char \<Rightarrow> bool" where
  "is_ascii_digit c = (48 \<le> (of_char c :: nat) \<and> (of_char c :: nat) \<le> 57)"

definition is_ascii_lowercase :: "char \<Rightarrow> bool" where
  "is_ascii_lowercase c = (97 \<le> (of_char c :: nat) \<and> (of_char c :: nat) \<le> 122)"

definition is_ascii_uppercase :: "char \<Rightarrow> bool" where
  "is_ascii_uppercase c = (65 \<le> (of_char c :: nat) \<and> (of_char c :: nat) \<le> 90)"

definition is_ascii_alphanumeric :: "char \<Rightarrow> bool" where
  "is_ascii_alphanumeric c = (is_ascii_digit c \<or> is_ascii_lowercase c \<or> is_ascii_uppercase c)"

definition to_ascii_lowercase :: "char \<Rightarrow> char" where
  "to_ascii_lowercase c = (if is_ascii_uppercase c then char_of (of_char c + 32 :: nat) else c)"

definition is_utf8_continuation :: "char \<Rightarrow> bool" where
  "is_utf8_continuation c = (0x80 \<le> (of_char c :: nat) \<and> (of_char c :: nat) < 0xC0)"

section \<open>White space\<close>

definition is_whitespace :: "char \<Rightarrow> bool" where
  "is_whitespace c = ((of_char c :: nat) \<in> {9, 10, 11, 12, 13, 32})"

text \<open>The characters with the Unicode property \<^verbatim>\<open>White_Space\<close>, each as its UTF-8 bytes.\<close>

definition white_space :: "string list" where
  "white_space =
     map (\<lambda>c. [c]) [CHR 0x09, CHR 0x0A, CHR 0x0B, CHR 0x0C, CHR 0x0D, CHR 0x20] @
     [[CHR 0xC2, CHR 0x85], [CHR 0xC2, CHR 0xA0], [CHR 0xE1, CHR 0x9A, CHR 0x80]] @
     map (\<lambda>c. [CHR 0xE2, CHR 0x80, c])
       [CHR 0x80, CHR 0x81, CHR 0x82, CHR 0x83, CHR 0x84, CHR 0x85, CHR 0x86, CHR 0x87, CHR 0x88, CHR 0x89, CHR 0x8A,
        CHR 0xA8, CHR 0xA9, CHR 0xAF] @
     [[CHR 0xE2, CHR 0x81, CHR 0x9F], [CHR 0xE3, CHR 0x80, CHR 0x80]]"

text \<open>The length of the space a string begins with, \<open>0\<close> if it begins with another character.\<close>

definition leading_space :: "string list \<Rightarrow> string \<Rightarrow> nat" where
  "leading_space spaces s = (case List.find (\<lambda>w. w \<noteq> [] \<and> take (length w) s = w) spaces of None \<Rightarrow> 0 | Some w \<Rightarrow> length w)"

lemma leading_space_le: "leading_space spaces s \<le> length s"
  by (auto simp: leading_space_def find_Some_iff split: option.splits) (metis length_take min.cobounded1)

lemma leading_space_Nil [simp]: "leading_space spaces [] = 0"
  using leading_space_le [of spaces "[]"] by simp

lemma leading_space_0: "leading_space spaces s = 0 \<longleftrightarrow> (\<forall>w \<in> set spaces. w \<noteq> [] \<longrightarrow> take (length w) s \<noteq> w)"
  by (auto simp: leading_space_def find_None_iff split: option.splits) (auto simp: find_Some_iff)

function drop_spaces :: "string list \<Rightarrow> string \<Rightarrow> string" where
  "drop_spaces spaces s = (if leading_space spaces s = 0 then s else drop_spaces spaces (drop (leading_space spaces s) s))"
  by pat_completeness auto
termination
  by (relation "measure (\<lambda>(_, s). length s)") (auto intro!: diff_less)

declare drop_spaces.simps [simp del]

definition trim_start :: "string \<Rightarrow> string" where
  "trim_start s = drop_spaces white_space s"

definition trim_end :: "string \<Rightarrow> string" where
  "trim_end s = rev (drop_spaces (map rev white_space) (rev s))"

definition trim :: "string \<Rightarrow> string" where
  "trim s = trim_end (trim_start s)"

text \<open>\<^verbatim>\<open>str::split_whitespace\<close>; \<open>word\<close> is the word read so far, reversed.\<close>

function split_words :: "string \<Rightarrow> string \<Rightarrow> string list" where
  "split_words word s =
     (if s = [] then (if word = [] then [] else [rev word])
      else if leading_space white_space s = 0 then split_words (hd s # word) (tl s)
      else (if word = [] then [] else [rev word]) @ split_words [] (drop (leading_space white_space s) s))"
  by pat_completeness auto
termination
  by (relation "measure (\<lambda>(_, s). length s)") auto

declare split_words.simps [simp del]

definition split_whitespace :: "string \<Rightarrow> string list" where
  "split_whitespace s = split_words [] s"

subsection \<open>Trimming\<close>

lemma drop_spaces_stops: "leading_space spaces (drop_spaces spaces s) = 0"
  by (induction spaces s rule: drop_spaces.induct) (subst drop_spaces.simps, simp)

lemma drop_spaces_id: "leading_space spaces s = 0 \<Longrightarrow> drop_spaces spaces s = s"
  by (subst drop_spaces.simps) simp

lemma drop_spaces_suffix: "\<exists>u. s = u @ drop_spaces spaces s"
proof (induction spaces s rule: drop_spaces.induct)
  case (1 spaces s)
  show ?case
  proof (cases "leading_space spaces s = 0")
    case False
    with 1 obtain u where "drop (leading_space spaces s) s = u @ drop_spaces spaces (drop (leading_space spaces s) s)" by blast
    moreover have "drop_spaces spaces s = drop_spaces spaces (drop (leading_space spaces s) s)"
      using False drop_spaces.simps [of spaces s] by simp
    ultimately have "s = (take (leading_space spaces s) s @ u) @ drop_spaces spaces s" by (metis append_assoc append_take_drop_id)
    then show ?thesis by blast
  qed (simp add: drop_spaces_id)
qed

lemma leading_space_prefix: "leading_space spaces (t @ u) = 0 \<Longrightarrow> leading_space spaces t = 0"
proof -
  have "take (length w) (t @ u) = w" if "take (length w) t = w" for w
    using that by (metis append_Nil2 diff_is_0_eq length_take min.cobounded1 take_0 take_append)
  then show "leading_space spaces (t @ u) = 0 \<Longrightarrow> leading_space spaces t = 0" unfolding leading_space_0 by blast
qed

lemma trim_end_start: "leading_space white_space s = 0 \<Longrightarrow> leading_space white_space (trim_end s) = 0"
proof -
  assume a: "leading_space white_space s = 0"
  obtain u where "rev s = u @ drop_spaces (map rev white_space) (rev s)" using drop_spaces_suffix by blast
  then have "s = trim_end s @ rev u" unfolding trim_end_def by (metis rev_append rev_rev_ident)
  with a show ?thesis using leading_space_prefix by metis
qed

lemma trim_trim [simp]: "trim (trim s) = trim s"
proof -
  have "trim_start (trim s) = trim s"
    unfolding trim_def trim_start_def by (intro drop_spaces_id trim_end_start drop_spaces_stops)
  moreover have "trim_end (trim_end t) = trim_end t" for t
    by (simp add: trim_end_def drop_spaces_id drop_spaces_stops)
  ultimately show ?thesis by (simp add: trim_def)
qed

text \<open>A string that begins and ends with an ASCII character which is no space is not trimmed.\<close>

definition is_plain :: "char \<Rightarrow> bool" where
  "is_plain c = (\<not> is_whitespace c \<and> (of_char c :: nat) < 0x80)"

lemma white_space_ends: "w \<in> set white_space \<Longrightarrow> w \<noteq> [] \<and> \<not> is_plain (hd w) \<and> \<not> is_plain (last w)"
  by (auto simp: white_space_def is_plain_def is_whitespace_def)

lemma leading_space_plain: "is_plain c \<Longrightarrow> leading_space white_space (c # s) = 0"
  unfolding leading_space_0
proof (intro ballI impI notI)
  fix w assume "is_plain c" "w \<in> set white_space" "w \<noteq> []" "take (length w) (c # s) = w"
  then have "hd w = c" by (cases w) auto
  then show False using white_space_ends [OF \<open>w \<in> _\<close>] \<open>is_plain c\<close> by simp
qed

lemma trailing_space_plain: "is_plain c \<Longrightarrow> leading_space (map rev white_space) (c # s) = 0"
  unfolding leading_space_0
proof (intro ballI impI notI)
  fix w assume "is_plain c" "w \<in> set (map rev white_space)" "w \<noteq> []" "take (length w) (c # s) = w"
  then obtain v where v: "v \<in> set white_space" "w = rev v" by auto
  have "hd w = c" using \<open>take (length w) (c # s) = w\<close> \<open>w \<noteq> []\<close> by (cases w) auto
  then have "last v = c" using \<open>w \<noteq> []\<close> by (simp add: v(2) hd_rev)
  then show False using white_space_ends [OF v(1)] \<open>is_plain c\<close> by simp
qed

lemma trim_Nil [simp]: "trim [] = []" "trim_start [] = []" "trim_end [] = []"
  by (simp_all add: trim_def trim_start_def trim_end_def drop_spaces_id)

lemma trim_start_plain [simp]: "is_plain c \<Longrightarrow> trim_start (c # s) = c # s"
  by (simp add: trim_start_def drop_spaces_id leading_space_plain)

lemma trim_end_plain: "is_plain c \<Longrightarrow> trim_end (s @ [c]) = s @ [c]"
  by (simp add: trim_end_def drop_spaces_id trailing_space_plain)

lemma trim_plain [simp]: "\<lbrakk>is_plain c; is_plain (last (c # s))\<rbrakk> \<Longrightarrow> trim (c # s) = c # s"
  using trim_end_plain [of "last (c # s)" "butlast (c # s)"] by (simp add: trim_def del: last.simps butlast.simps)

lemma trim_id: "(\<And>c. c \<in> set s \<Longrightarrow> is_plain c) \<Longrightarrow> trim s = s"
proof (cases s)
  case (Cons c t)
  assume "\<And>c. c \<in> set s \<Longrightarrow> is_plain c"
  then have "is_plain c" "is_plain (last (c # t))" using last_in_set [of s] by (auto simp: Cons simp del: last.simps)
  then show ?thesis unfolding Cons by (rule trim_plain)
qed simp

lemma is_ascii_lowercase_not_uppercase: "is_ascii_lowercase c \<Longrightarrow> \<not> is_ascii_uppercase c"
  by (auto simp: is_ascii_lowercase_def is_ascii_uppercase_def)

lemma to_ascii_lowercase_not_uppercase: "\<not> is_ascii_uppercase (to_ascii_lowercase c)"
  by (auto simp: to_ascii_lowercase_def is_ascii_uppercase_def)

section \<open>Splitting\<close>

text \<open>\<^verbatim>\<open>str::split_once(c)\<close>: the parts before and after the first \<open>c\<close>.\<close>

fun split_once :: "char \<Rightarrow> string \<Rightarrow> (string \<times> string) option" where
  "split_once c [] = None"
| "split_once c (x # xs) =
     (if x = c then Some ([], xs)
      else case split_once c xs of None \<Rightarrow> None | Some (a, b) \<Rightarrow> Some (x # a, b))"

text \<open>\<^verbatim>\<open>str::split(c)\<close>: every part between occurrences of \<open>c\<close>.\<close>

fun split_on :: "char \<Rightarrow> string \<Rightarrow> string list" where
  "split_on c [] = [[]]"
| "split_on c (x # xs) =
     (if x = c then [] # split_on c xs
      else case split_on c xs of [] \<Rightarrow> [[x]] | p # ps \<Rightarrow> (x # p) # ps)"

fun strip_prefix :: "string \<Rightarrow> string \<Rightarrow> string option" where
  "strip_prefix [] s = Some s"
| "strip_prefix (p # ps) [] = None"
| "strip_prefix (p # ps) (x # xs) = (if p = x then strip_prefix ps xs else None)"

definition strip_suffix :: "string \<Rightarrow> string \<Rightarrow> string option" where
  "strip_suffix p s = map_option rev (strip_prefix (rev p) (rev s))"

definition starts_with :: "string \<Rightarrow> string \<Rightarrow> bool" where
  "starts_with s p = (strip_prefix p s \<noteq> None)"

definition ends_with :: "string \<Rightarrow> string \<Rightarrow> bool" where
  "ends_with s p = (strip_suffix p s \<noteq> None)"

fun join :: "string \<Rightarrow> string list \<Rightarrow> string" where
  "join sep [] = []"
| "join sep [x] = x"
| "join sep (x # y # zs) = x @ sep @ join sep (y # zs)"

lemma split_once_append: "c \<notin> set a \<Longrightarrow> split_once c (a @ c # b) = Some (a, b)"
  by (induction a) auto

lemma split_once_SomeD: "split_once c s = Some (a, b) \<Longrightarrow> s = a @ c # b \<and> c \<notin> set a"
  by (induction s arbitrary: a b) (auto split: if_splits option.splits)

lemma split_once_None: "split_once c s = None \<longleftrightarrow> c \<notin> set s"
  by (induction s) (auto split: option.splits)

lemma split_on_nonempty [simp]: "split_on c s \<noteq> []"
  by (induction s) (auto split: list.splits)

lemma split_on_single: "c \<notin> set s \<Longrightarrow> split_on c s = [s]"
  by (induction s) auto

lemma split_on_append: "c \<notin> set a \<Longrightarrow> split_on c (a @ c # b) = a # split_on c b"
  by (induction a) auto

lemma strip_prefix_append [simp]: "strip_prefix p (p @ s) = Some s"
  by (induction p) auto

lemma strip_prefix_Some: "strip_prefix p s = Some r \<longleftrightarrow> s = p @ r"
  by (induction p s rule: strip_prefix.induct) auto

lemma strip_suffix_Some: "strip_suffix p s = Some r \<longleftrightarrow> s = r @ p"
  by (auto simp: strip_suffix_def strip_prefix_Some) (metis rev_append rev_rev_ident)+

lemma ends_with_iff: "ends_with s p \<longleftrightarrow> (\<exists>r. s = r @ p)"
  by (simp add: ends_with_def strip_suffix_Some [symmetric] not_None_eq)

lemma starts_with_iff: "starts_with s p \<longleftrightarrow> (\<exists>r. s = p @ r)"
  by (simp add: starts_with_def strip_prefix_Some [symmetric] not_None_eq)

section \<open>Decimal numerals\<close>

definition digit_char :: "nat \<Rightarrow> char" where
  "digit_char d = char_of (48 + d)"

definition digit_val :: "char \<Rightarrow> nat" where
  "digit_val c = of_char c - 48"

fun show_nat :: "nat \<Rightarrow> string" where
  "show_nat n = (if n < 10 then [digit_char n] else show_nat (n div 10) @ [digit_char (n mod 10)])"

declare show_nat.simps [simp del]

datatype ParseIntError = IntEmpty | InvalidDigit | PosOverflow

fun parse_digits :: "nat \<Rightarrow> nat \<Rightarrow> string \<Rightarrow> (ParseIntError, nat) result" where
  "parse_digits mx acc [] = Inr acc"
| "parse_digits mx acc (c # cs) =
     (if \<not> is_ascii_digit c then Inl InvalidDigit
      else if mx < 10 * acc + digit_val c then Inl PosOverflow
      else parse_digits mx (10 * acc + digit_val c) cs)"

text \<open>\<^verbatim>\<open><unsigned>::from_str\<close> for a type with the largest value \<open>mx\<close>; a leading plus is accepted.\<close>

definition parse_uint :: "nat \<Rightarrow> string \<Rightarrow> (ParseIntError, nat) result" where
  "parse_uint mx s =
     (case s of
        [] \<Rightarrow> Inl IntEmpty
      | c # cs \<Rightarrow>
          (if c = CHR ''+'' then (if cs = [] then Inl InvalidDigit else parse_digits mx 0 cs)
           else parse_digits mx 0 s))"

definition show_ParseIntError :: "ParseIntError \<Rightarrow> string" where
  "show_ParseIntError e =
     (case e of
        IntEmpty \<Rightarrow> ''cannot parse integer from empty string''
      | InvalidDigit \<Rightarrow> ''invalid digit found in string''
      | PosOverflow \<Rightarrow> ''number too large to fit in target type'')"

lemma of_char_digit_char [simp]: "d < 10 \<Longrightarrow> of_char (digit_char d) = (48 + d :: nat)"
  by (simp add: digit_char_def)

lemma digit_val_digit_char [simp]: "d < 10 \<Longrightarrow> digit_val (digit_char d) = d"
  by (simp add: digit_val_def)

lemma is_ascii_digit_digit_char [simp]: "d < 10 \<Longrightarrow> is_ascii_digit (digit_char d)"
  by (simp add: is_ascii_digit_def)

lemma digit_char_literals [simp]:
  "digit_char 0 = CHR ''0''" "digit_char 1 = CHR ''1''" "digit_char (Suc 0) = CHR ''1''"
  "digit_char 2 = CHR ''2''" "digit_char 3 = CHR ''3''" "digit_char 4 = CHR ''4''"
  "digit_char 5 = CHR ''5''" "digit_char 6 = CHR ''6''" "digit_char 7 = CHR ''7''"
  "digit_char 8 = CHR ''8''" "digit_char 9 = CHR ''9''"
  by code_simp+

lemma show_nat_nonempty [simp]: "show_nat n \<noteq> []"
  by (subst show_nat.simps) simp

lemma show_nat_digits: "c \<in> set (show_nat n) \<Longrightarrow> is_ascii_digit c"
proof (induction n rule: show_nat.induct)
  case (1 n)
  show ?case
  proof (cases "n < 10")
    case True
    with "1.prems" show ?thesis by (simp add: show_nat.simps [of n])
  next
    case False
    with "1.prems" have "c \<in> set (show_nat (n div 10)) \<or> c = digit_char (n mod 10)"
      by (simp add: show_nat.simps [of n] disj_commute)
    with "1.IH" False show ?thesis by auto
  qed
qed

lemma not_digit_show_nat: "\<not> is_ascii_digit c \<Longrightarrow> c \<notin> set (show_nat n)"
  using show_nat_digits by blast

lemma parse_digits_append:
  "parse_digits mx acc (s @ t) =
     (case parse_digits mx acc s of Inl e \<Rightarrow> Inl e | Inr v \<Rightarrow> parse_digits mx v t)"
  by (induction mx acc s rule: parse_digits.induct) auto

lemma parse_digits_show_nat: "n \<le> mx \<Longrightarrow> parse_digits mx 0 (show_nat n) = Inr n"
proof (induction n rule: show_nat.induct)
  case (1 n)
  show ?case
  proof (cases "n < 10")
    case True
    with "1.prems" show ?thesis by (simp add: show_nat.simps [of n])
  next
    case False
    have "n div 10 \<le> mx" using "1.prems" by linarith
    with "1.IH" False have "parse_digits mx 0 (show_nat (n div 10)) = Inr (n div 10)" by simp
    moreover have "10 * (n div 10) + n mod 10 = n" by simp
    ultimately show ?thesis
      using "1.prems" False by (simp add: show_nat.simps [of n] parse_digits_append)
  qed
qed

lemma parse_uint_show_nat: "n \<le> mx \<Longrightarrow> parse_uint mx (show_nat n) = Inr n"
proof -
  assume le: "n \<le> mx"
  obtain c cs where s: "show_nat n = c # cs" by (cases "show_nat n") auto
  have "\<not> is_ascii_digit (CHR ''+'')" by (simp add: is_ascii_digit_def)
  with s show_nat_digits [of c n] have "c \<noteq> CHR ''+''" by auto
  with s parse_digits_show_nat [OF le] show ?thesis by (simp add: parse_uint_def)
qed

lemma show_nat_inj: "show_nat m = show_nat n \<Longrightarrow> m = n"
  by (metis max.cobounded1 max.cobounded2 parse_digits_show_nat sum.inject(2))

lemma parse_digits_bound: "parse_digits mx acc s = Inr v \<Longrightarrow> acc \<le> mx \<Longrightarrow> v \<le> mx"
  by (induction mx acc s rule: parse_digits.induct) (auto split: if_splits)

lemma parse_uint_bound: "parse_uint mx s = Inr v \<Longrightarrow> v \<le> mx"
  by (auto simp: parse_uint_def split: list.splits if_splits dest: parse_digits_bound)

section \<open>IPv4 addresses\<close>

text \<open>\<^verbatim>\<open>Ipv4Addr::octets\<close>, \<^verbatim>\<open>Display\<close> and \<^verbatim>\<open>FromStr\<close>: four decimal octets of at most three digits,
  without leading zeros, separated by dots.\<close>

definition octets :: "Ipv4Addr \<Rightarrow> nat \<times> nat \<times> nat \<times> nat" where
  "octets a = (unat a div 2 ^ 24 mod 256, unat a div 2 ^ 16 mod 256, unat a div 2 ^ 8 mod 256, unat a mod 256)"

definition ipv4_of_octets :: "nat \<Rightarrow> nat \<Rightarrow> nat \<Rightarrow> nat \<Rightarrow> Ipv4Addr" where
  "ipv4_of_octets a b c d = of_nat (a * 2 ^ 24 + b * 2 ^ 16 + c * 2 ^ 8 + d)"

definition show_ipv4 :: "Ipv4Addr \<Rightarrow> string" where
  "show_ipv4 addr =
     (case octets addr of (a, b, c, d) \<Rightarrow>
        show_nat a @ ''.'' @ show_nat b @ ''.'' @ show_nat c @ ''.'' @ show_nat d)"

definition parse_octet :: "string \<Rightarrow> nat option" where
  "parse_octet s =
     (if s = [] \<or> 3 < length s \<or> (1 < length s \<and> hd s = CHR ''0'') then None
      else case parse_digits 255 0 s of Inl _ \<Rightarrow> None | Inr v \<Rightarrow> Some v)"

definition parse_ipv4 :: "string \<Rightarrow> Ipv4Addr option" where
  "parse_ipv4 s =
     (case map parse_octet (split_on (CHR ''.'') s) of
        [Some a, Some b, Some c, Some d] \<Rightarrow> Some (ipv4_of_octets a b c d)
      | _ \<Rightarrow> None)"

lemma show_nat_small: "n < 10 \<Longrightarrow> show_nat n = [digit_char n]"
  by (simp add: show_nat.simps [of n])

lemma show_nat_step: "10 \<le> n \<Longrightarrow> show_nat n = show_nat (n div 10) @ [digit_char (n mod 10)]"
  by (simp add: show_nat.simps [of n])

lemma hd_show_nat: "0 < n \<Longrightarrow> hd (show_nat n) \<noteq> CHR ''0''"
proof (induction n rule: show_nat.induct)
  case (1 n)
  show ?case
  proof (cases "n < 10")
    case True
    have "of_char (digit_char n) \<noteq> (of_char (CHR ''0'') :: nat)" using True "1.prems" by simp
    then have "digit_char n \<noteq> CHR ''0''" by metis
    then show ?thesis using True by (simp add: show_nat_small)
  next
    case False
    then show ?thesis using "1.IH" by (simp add: show_nat_step)
  qed
qed

lemma length_show_nat_le: "n < 10 ^ Suc k \<Longrightarrow> length (show_nat n) \<le> Suc k"
proof (induction k arbitrary: n)
  case (Suc k)
  show ?case
  proof (cases "n < 10")
    case False
    then have "n div 10 < 10 ^ Suc k" using Suc.prems by auto
    with Suc.IH [of "n div 10"] False show ?thesis by (simp add: show_nat_step)
  qed (simp add: show_nat_small)
qed (simp add: show_nat_small)

lemma parse_octet_show: "n < 256 \<Longrightarrow> parse_octet (show_nat n) = Some n"
proof -
  assume n: "n < 256"
  have "length (show_nat n) \<le> 3" using n length_show_nat_le [of n 2] by simp
  moreover have "\<not> (1 < length (show_nat n) \<and> hd (show_nat n) = CHR ''0'')"
    using hd_show_nat [of n] by (cases "n = 0") (auto simp: show_nat_small)
  moreover have "parse_digits 255 0 (show_nat n) = Inr n" using n by (simp add: parse_digits_show_nat)
  ultimately show ?thesis by (auto simp: parse_octet_def)
qed

lemma octet_sum: "n < 2 ^ 32 \<Longrightarrow>
   (n div 2 ^ 24 mod 256) * 2 ^ 24 + (n div 2 ^ 16 mod 256) * 2 ^ 16 + (n div 2 ^ 8 mod 256) * 2 ^ 8 + n mod 256 = (n :: nat)"
proof -
  assume "n < 2 ^ 32"
  then have top: "n div 16777216 mod 256 = n div 16777216" by simp
  moreover have "n div 65536 = 256 * (n div 16777216) + n div 65536 mod 256"
    using div_mult_mod_eq [of "n div 65536" 256] by (simp add: div_mult2_eq [symmetric])
  moreover have "n div 256 = 256 * (n div 65536) + n div 256 mod 256"
    using div_mult_mod_eq [of "n div 256" 256] by (simp add: div_mult2_eq [symmetric])
  moreover have "n = 256 * (n div 256) + n mod 256" by simp
  ultimately have "n div 16777216 mod 256 * 16777216 + n div 65536 mod 256 * 65536 +
      n div 256 mod 256 * 256 + n mod 256 = n" by linarith
  then show ?thesis using top by simp
qed

lemma ipv4_of_octets_octets: "octets addr = (a, b, c, d) \<Longrightarrow> ipv4_of_octets a b c d = addr"
proof -
  assume "octets addr = (a, b, c, d)"
  moreover have "unat addr < 2 ^ 32" using unsigned_less [of addr] by simp
  ultimately have "a * 2 ^ 24 + b * 2 ^ 16 + c * 2 ^ 8 + d = unat addr"
    using octet_sum [of "unat addr"] by (auto simp: octets_def)
  then show ?thesis by (simp add: ipv4_of_octets_def)
qed

lemma unat_ipv4_of_octets:
  assumes "a < 256" "b < 256" "c < 256" "d < 256"
  shows "unat (ipv4_of_octets a b c d) = a * 2 ^ 24 + b * 2 ^ 16 + c * 2 ^ 8 + d"
proof -
  have "a * 2 ^ 24 + b * 2 ^ 16 + c * 2 ^ 8 + d < 2 ^ 32" using assms by simp
  then show ?thesis unfolding ipv4_of_octets_def unat_of_nat by simp
qed

lemma octets_ipv4_of_octets:
  assumes "a < 256" "b < 256" "c < 256" "d < 256"
  shows "octets (ipv4_of_octets a b c d) = (a, b, c, d)"
proof -
  let ?n = "a * 16777216 + b * 65536 + c * 256 + d"
  have div: "?n div 16777216 = a" "?n div 65536 = a * 256 + b" "?n div 256 = (a * 256 + b) * 256 + c"
    using assms by (intro div_nat_eqI; simp)+
  have mod: "?n mod 256 = d"
    using assms(4) mod_mult_self3 [of "(a * 256 + b) * 256 + c" 256 d] by (simp add: algebra_simps)
  have pair: "(k * 256 + x) mod 256 = x" if "x < 256" for k x :: nat
    using that mod_mult_self3 [of k 256 x] by simp
  show ?thesis
    unfolding octets_def unat_ipv4_of_octets [OF assms]
    using div mod pair [OF assms(2), of a] pair [OF assms(3), of "a * 256 + b"] assms(1) by simp
qed

lemma not_digit_dot: "CHR ''.'' \<notin> set (show_nat n)" and not_digit_slash: "CHR ''/'' \<notin> set (show_nat n)"
  and not_digit_colon: "CHR '':'' \<notin> set (show_nat n)"
  by (rule not_digit_show_nat, simp add: is_ascii_digit_def)+

lemma show_ipv4_chars: "c \<in> set (show_ipv4 a) \<Longrightarrow> is_ascii_digit c \<or> c = CHR ''.''"
  by (auto simp: show_ipv4_def split: prod.splits dest: show_nat_digits)

lemma parse_show_ipv4: "parse_ipv4 (show_ipv4 addr) = Some addr"
proof -
  obtain a b c d where o: "octets addr = (a, b, c, d)" by (cases "octets addr") auto
  then have "a < 256" "b < 256" "c < 256" "d < 256" by (auto simp: octets_def)
  then show ?thesis
    using o ipv4_of_octets_octets [OF o]
    by (simp add: show_ipv4_def parse_ipv4_def split_on_append split_on_single not_digit_dot parse_octet_show)
qed

lemma show_ipv4_inj: "show_ipv4 a = show_ipv4 b \<longleftrightarrow> a = b"
  by (metis option.inject parse_show_ipv4)

section \<open>Hexadecimal\<close>

definition hex_char :: "nat \<Rightarrow> char" where
  "hex_char d = (if d < 10 then char_of (48 + d) else char_of (87 + d))"

text \<open>\<^verbatim>\<open>format!("{:0<w>x}", n)\<close> for a number that fits in \<open>w\<close> digits.\<close>

fun show_hex :: "nat \<Rightarrow> nat \<Rightarrow> string" where
  "show_hex 0 n = []"
| "show_hex (Suc w) n = show_hex w (n div 16) @ [hex_char (n mod 16)]"

lemma length_show_hex [simp]: "length (show_hex w n) = w"
  by (induction w arbitrary: n) auto

lemma hex_char_inj: "a < 16 \<Longrightarrow> b < 16 \<Longrightarrow> hex_char a = hex_char b \<Longrightarrow> a = b"
proof -
  assume "a < 16" "b < 16" "hex_char a = hex_char b"
  then have "(of_char (hex_char a) :: nat) = of_char (hex_char b)" by simp
  then show ?thesis using \<open>a < 16\<close> \<open>b < 16\<close> by (auto simp: hex_char_def split: if_splits)
qed

lemma show_hex_inj: "m < 16 ^ w \<Longrightarrow> n < 16 ^ w \<Longrightarrow> show_hex w m = show_hex w n \<Longrightarrow> m = n"
proof (induction w arbitrary: m n)
  case (Suc w)
  then have "m div 16 < 16 ^ w" "n div 16 < 16 ^ w" by auto
  with Suc have "m div 16 = n div 16" by simp
  moreover have "m mod 16 = n mod 16" using Suc.prems by (auto intro: hex_char_inj)
  ultimately show ?case by (metis div_mult_mod_eq)
qed simp

section \<open>Evaluation on literals\<close>

lemmas text_eval = is_ascii_digit_def is_ascii_lowercase_def is_ascii_uppercase_def
  is_ascii_alphanumeric_def digit_val_def parse_octet_def parse_uint_def parse_ipv4_def
  ipv4_of_octets_def

end
