(* ===== verification/Cidr.thy ===== *)
theory Cidr
  imports Text_Format
begin

unbundle bit_operations_syntax

text \<open>
  The IPv4 address blocks of \<^verbatim>\<open>crates/jiji-network/src/cidr.rs\<close> and the planner's error type of
  \<^verbatim>\<open>error.rs\<close>.  Addresses are 32-bit words, counts and offsets 64-bit words, as in the source.
  The lemmas read the mask tests as statements on address intervals: a block is an aligned
  interval, \<open>overlaps\<close> is intersection, the subnets of a block tile it.
\<close>

section \<open>Errors\<close>

datatype NetworkPlanError =
    InvalidCidr (cidr_value: string) (cidr_reason: string)
  | OverlappingAddressSpaces (management: string) (container: string)
  | ContainerRangeTooSmall string nat
  | ManagementRangeTooSmall string u64 u64
  | BucketExhausted string u64 nat
  | DuplicateServiceServer string string
  | UnknownServiceServer string string
  | UnmatchedHostFilter string
  | UnmatchedServiceFilter string

section \<open>Blocks\<close>

text \<open>The prefix is a \<^verbatim>\<open>u8\<close> that \<open>cidr_new\<close> keeps at 32 or below; it is a natural number here.\<close>

datatype Ipv4Cidr = Ipv4Cidr (network: Ipv4Addr) (prefix: nat)

definition prefix_mask :: "nat \<Rightarrow> u32" where
  "prefix_mask p = (if p = 0 then 0 else push_bit (32 - p) (- 1))"

definition show_cidr :: "Ipv4Cidr \<Rightarrow> string" where
  "show_cidr c = show_ipv4 (network c) @ ''/'' @ show_nat (prefix c)"

definition cidr_new :: "Ipv4Addr \<Rightarrow> nat \<Rightarrow> (NetworkPlanError, Ipv4Cidr) result" where
  "cidr_new net p =
     (if p > 32 then
        Inl (InvalidCidr (show_ipv4 net @ ''/'' @ show_nat p) ''IPv4 prefixes must be between 0 and 32'')
      else if net AND prefix_mask p \<noteq> net then
        Inl (InvalidCidr (show_ipv4 net @ ''/'' @ show_nat p)
              ''host bits must be zero; specify the network address'')
      else Inr (Ipv4Cidr net p))"

definition address_count :: "Ipv4Cidr \<Rightarrow> u64" where
  "address_count c = push_bit (32 - prefix c) 1"

definition address :: "Ipv4Cidr \<Rightarrow> u64 \<Rightarrow> Ipv4Addr option" where
  "address c offset =
     (if offset \<ge> address_count c then None else Some (network c + ucast offset))"

definition contains :: "Ipv4Cidr \<Rightarrow> Ipv4Addr \<Rightarrow> bool" where
  "contains c a = (a AND prefix_mask (prefix c) = network c)"

definition overlaps :: "Ipv4Cidr \<Rightarrow> Ipv4Cidr \<Rightarrow> bool" where
  "overlaps c d = (contains c (network d) \<or> contains d (network c))"

definition subnet_count :: "Ipv4Cidr \<Rightarrow> nat \<Rightarrow> u64 option" where
  "subnet_count c new_prefix =
     (if new_prefix < prefix c \<or> new_prefix > 32 then None
      else Some (push_bit (new_prefix - prefix c) 1))"

definition subnet :: "Ipv4Cidr \<Rightarrow> nat \<Rightarrow> u64 \<Rightarrow> Ipv4Cidr option" where
  "subnet c new_prefix index =
     (case subnet_count c new_prefix of
        None \<Rightarrow> None
      | Some count \<Rightarrow>
          (if index \<ge> count then None
           else case address c (index * push_bit (32 - new_prefix) 1) of
                  None \<Rightarrow> None
                | Some a \<Rightarrow>
                    (case cidr_new a new_prefix of Inl _ \<Rightarrow> None | Inr d \<Rightarrow> Some d)))"

definition parse_cidr :: "string \<Rightarrow> (NetworkPlanError, Ipv4Cidr) result" where
  "parse_cidr value =
     (case split_once (CHR ''/'') value of
        None \<Rightarrow> Inl (InvalidCidr value ''expected IPv4 CIDR notation such as 10.0.0.0/16'')
      | Some (addr, pfx) \<Rightarrow>
          (case parse_ipv4 addr of
             None \<Rightarrow> Inl (InvalidCidr value ''invalid IPv4 address syntax'')
           | Some a \<Rightarrow>
               (case parse_uint 255 pfx of
                  Inl e \<Rightarrow> Inl (InvalidCidr value (show_ParseIntError e))
                | Inr p \<Rightarrow> cidr_new a p)))"

text \<open>The derived \<^verbatim>\<open>Ord\<close>: the network first, then the prefix.\<close>

instantiation Ipv4Cidr :: linorder
begin

definition less_eq_Ipv4Cidr :: "Ipv4Cidr \<Rightarrow> Ipv4Cidr \<Rightarrow> bool" where
  "less_eq_Ipv4Cidr c d = (network c < network d \<or> (network c = network d \<and> prefix c \<le> prefix d))"

definition less_Ipv4Cidr :: "Ipv4Cidr \<Rightarrow> Ipv4Cidr \<Rightarrow> bool" where
  "less_Ipv4Cidr c d = (network c < network d \<or> (network c = network d \<and> prefix c < prefix d))"

instance
  by standard (auto simp: less_eq_Ipv4Cidr_def less_Ipv4Cidr_def intro: Ipv4Cidr.expand)

end

section \<open>Masks as intervals\<close>

definition cidr_wf :: "Ipv4Cidr \<Rightarrow> bool" where
  "cidr_wf c = (prefix c \<le> 32 \<and> network c AND prefix_mask (prefix c) = network c)"

abbreviation host_bits :: "Ipv4Cidr \<Rightarrow> nat" where
  "host_bits c \<equiv> 32 - prefix c"

lemma unat_u32_less: "unat (a :: u32) < 2 ^ 32"
  using unsigned_less [of a] by simp

lemma and_prefix_mask: "p \<le> 32 \<Longrightarrow> a AND prefix_mask p = push_bit (32 - p) (drop_bit (32 - p) a)"
  for a :: u32
  by (rule bit_eqI) (auto simp: prefix_mask_def bit_simps)

lemma unat_and_prefix_mask:
  "p \<le> 32 \<Longrightarrow> unat (a AND prefix_mask p) = unat a div 2 ^ (32 - p) * 2 ^ (32 - p)" for a :: u32
proof -
  assume p: "p \<le> 32"
  let ?n = "32 - p"
  have "unat (push_bit ?n (drop_bit ?n a)) = take_bit 32 (push_bit ?n (unat (drop_bit ?n a)))"
    by (simp add: unsigned_push_bit_eq)
  also have "unat (drop_bit ?n a) = unat a div 2 ^ ?n"
    using unat_u32_less [of a]
    by (subst unsigned_drop_bit_eq) (simp add: drop_bit_eq_div take_bit_eq_mod)
  also have "take_bit 32 (push_bit ?n (unat a div 2 ^ ?n)) = unat a div 2 ^ ?n * 2 ^ ?n"
    using le_less_trans [OF div_times_less_eq_dividend unat_u32_less, of a "2 ^ ?n"]
    by (simp add: push_bit_eq_mult take_bit_eq_mod)
  finally show ?thesis by (simp add: and_prefix_mask p)
qed

lemma cidr_wf_iff: "cidr_wf c \<longleftrightarrow> prefix c \<le> 32 \<and> 2 ^ host_bits c dvd unat (network c)"
  by (auto simp: cidr_wf_def unat_and_prefix_mask word_unat_eq_iff) (metis dvd_triv_right)

lemma contains_iff:
  assumes "cidr_wf c"
  shows "contains c a \<longleftrightarrow>
    unat (network c) \<le> unat a \<and> unat a < unat (network c) + 2 ^ host_bits c"
proof -
  let ?s = "2 ^ host_bits c :: nat"
  obtain k where k: "unat (network c) = ?s * k" using assms by (auto simp: cidr_wf_iff)
  have "contains c a \<longleftrightarrow> unat a div ?s * ?s = ?s * k"
    using assms k by (simp add: contains_def word_unat_eq_iff unat_and_prefix_mask cidr_wf_def)
  also have "\<dots> \<longleftrightarrow> unat a div ?s = k" by (auto simp: mult.commute)
  also have "\<dots> \<longleftrightarrow> ?s * k \<le> unat a \<and> unat a < ?s * k + ?s"
    by (metis add.commute div_nat_eqI dividend_less_times_div mult_Suc_right times_div_less_eq_dividend
        zero_less_numeral zero_less_power)
  finally show ?thesis by (simp add: k)
qed

lemma network_fits: "cidr_wf c \<Longrightarrow> unat (network c) + 2 ^ host_bits c \<le> 2 ^ 32"
proof -
  assume wf: "cidr_wf c"
  then obtain k where k: "unat (network c) = 2 ^ host_bits c * k" by (auto simp: cidr_wf_iff)
  have pow: "(2 :: nat) ^ 32 = 2 ^ host_bits c * 2 ^ prefix c"
    using wf by (simp add: cidr_wf_def flip: power_add)
  have "k < 2 ^ prefix c"
    using unat_u32_less [of "network c"] unfolding k pow by (simp only: mult_less_cancel1)
  then have "2 ^ host_bits c * (k + 1) \<le> 2 ^ host_bits c * (2 :: nat) ^ prefix c"
    by (intro mult_le_mono2) simp
  then show ?thesis unfolding k pow by simp
qed

lemma unat_push_bit_1: "k < 64 \<Longrightarrow> unat (push_bit k 1 :: u64) = 2 ^ k"
  using power_strict_increasing [of k 64 "2 :: nat"]
  by (subst unsigned_push_bit_eq) (simp add: push_bit_eq_mult take_bit_eq_mod)

lemma unat_address_count: "unat (address_count c) = 2 ^ host_bits c"
  unfolding address_count_def by (subst unat_push_bit_1) simp_all

lemma unat_ucast_u64: "unat (ucast (x :: u64) :: u32) = unat x mod 2 ^ 32"
  by (simp add: unsigned_ucast_eq take_bit_eq_mod)

lemma address_SomeD:
  assumes "cidr_wf c" "address c i = Some a"
  shows "unat i < 2 ^ host_bits c" "unat a = unat (network c) + unat i"
proof -
  from assms(2) have i: "i < address_count c" and a: "a = network c + ucast i"
    by (auto simp: address_def split: if_splits)
  then show lt: "unat i < 2 ^ host_bits c" by (simp add: word_less_nat_alt unat_address_count)
  have le: "(2 :: nat) ^ host_bits c \<le> 2 ^ 32" by (intro power_increasing) auto
  have "unat (ucast i :: u32) = unat i" using lt le by (simp add: unat_ucast_u64)
  moreover have "unat (network c) + unat i < 2 ^ 32" using network_fits [OF assms(1)] lt by linarith
  ultimately show "unat a = unat (network c) + unat i" by (simp add: a unat_word_ariths)
qed

lemma address_total: "unat i < 2 ^ host_bits c \<Longrightarrow> \<exists>a. address c i = Some a"
  by (auto simp: address_def word_le_nat_alt unat_address_count)

lemma address_contained: "cidr_wf c \<Longrightarrow> address c i = Some a \<Longrightarrow> contains c a"
  using address_SomeD [of c i a] by (simp add: contains_iff)

lemma address_inj: "cidr_wf c \<Longrightarrow> address c i = Some a \<Longrightarrow> address c j = Some a \<Longrightarrow> i = j"
  using address_SomeD [of c i a] address_SomeD [of c j a] by (simp add: word_unat_eq_iff)

lemma address_surj:
  assumes "cidr_wf c" "contains c a"
  obtains i where "address c i = Some a"
proof -
  let ?i = "of_nat (unat a - unat (network c)) :: u64"
  have bounds: "unat (network c) \<le> unat a" "unat a < unat (network c) + 2 ^ host_bits c"
    using assms by (auto simp: contains_iff)
  have "unat ?i = unat a - unat (network c)"
    using unat_u32_less [of a] by (simp add: unat_of_nat)
  with bounds have "unat ?i < 2 ^ host_bits c" by linarith
  then obtain b where b: "address c ?i = Some b" using address_total by blast
  have "unat b = unat a" using address_SomeD(2) [OF assms(1) b] bounds \<open>unat ?i = _\<close> by simp
  then have "b = a" by (simp add: word_unat_eq_iff)
  with b show ?thesis using that by blast
qed

section \<open>Construction, overlap and subnets\<close>

lemma cidr_new_Inr: "cidr_new net p = Inr c \<longleftrightarrow> c = Ipv4Cidr net p \<and> cidr_wf c"
  by (cases c) (auto simp: cidr_new_def cidr_wf_def)

lemma cidr_new_wf: "cidr_new net p = Inr c \<Longrightarrow> cidr_wf c"
  using cidr_new_Inr by blast

lemma parse_cidr_wf: "parse_cidr s = Inr c \<Longrightarrow> cidr_wf c"
  by (auto simp: parse_cidr_def split: option.splits sum.splits prod.splits dest: cidr_new_wf)

lemma parse_show_cidr: "cidr_wf c \<Longrightarrow> parse_cidr (show_cidr c) = Inr c"
proof -
  assume wf: "cidr_wf c"
  have "CHR ''/'' \<notin> set (show_ipv4 (network c))"
    using show_ipv4_chars [of "CHR ''/''" "network c"] by (auto simp: is_ascii_digit_def)
  moreover have "parse_uint 255 (show_nat (prefix c)) = Inr (prefix c)"
    using wf by (intro parse_uint_show_nat) (simp add: cidr_wf_def)
  ultimately show ?thesis
    using wf by (simp add: show_cidr_def parse_cidr_def split_once_append parse_show_ipv4 cidr_new_Inr)
qed

lemma contains_network: "cidr_wf c \<Longrightarrow> contains c (network c)"
  by (simp add: contains_iff)

lemma aligned_nested:
  fixes x y m n :: nat
  assumes "2 ^ m dvd x" "2 ^ n dvd y" "m \<le> n" "x < y + 2 ^ n" "y < x + 2 ^ m"
  shows "y \<le> x \<and> x + 2 ^ m \<le> y + 2 ^ n"
proof -
  have "(2 :: nat) ^ m dvd 2 ^ n" using assms(3) by (rule le_imp_power_dvd)
  then have dy: "2 ^ m dvd y" and d: "2 ^ m dvd y + 2 ^ n"
    using assms(2) by (auto intro: dvd_trans dvd_add)
  have step: "a < b \<Longrightarrow> 2 ^ m dvd a \<Longrightarrow> 2 ^ m dvd b \<Longrightarrow> a + 2 ^ m \<le> b" for a b :: nat
    by (metis dvd_add_right_iff le_add_diff_inverse dvd_imp_le less_imp_le_nat nat_add_left_cancel_le zero_less_diff)
  have "y \<le> x" using step [of x y] assms(1,5) dy by (meson leD not_le_imp_less)
  then show ?thesis using step [of x "y + 2 ^ n"] assms(1,4) d by blast
qed

lemma overlaps_iff:
  assumes "cidr_wf c" "cidr_wf d"
  shows "overlaps c d \<longleftrightarrow> (\<exists>a. contains c a \<and> contains d a)"
proof
  assume "overlaps c d"
  then show "\<exists>a. contains c a \<and> contains d a"
    using assms contains_network by (auto simp: overlaps_def)
next
  assume "\<exists>a. contains c a \<and> contains d a"
  then obtain a where a: "contains c a" "contains d a" by blast
  note iv = a [unfolded contains_iff [OF assms(1)] contains_iff [OF assms(2)]]
  note al = assms [unfolded cidr_wf_iff]
  show "overlaps c d"
  proof (cases "host_bits c \<le> host_bits d")
    case True
    then have "unat (network d) \<le> unat (network c)"
      using aligned_nested [of "host_bits c" "unat (network c)" "host_bits d" "unat (network d)"] al iv
      by linarith
    then show ?thesis using iv by (auto simp: overlaps_def contains_iff assms)
  next
    case False
    then have "unat (network c) \<le> unat (network d)"
      using aligned_nested [of "host_bits d" "unat (network d)" "host_bits c" "unat (network c)"] al iv
      by linarith
    then show ?thesis using iv by (auto simp: overlaps_def contains_iff assms)
  qed
qed

lemma subnet_SomeD:
  assumes "cidr_wf c" "subnet c p i = Some s"
  shows "cidr_wf s" "prefix s = p" "prefix c \<le> p" "p \<le> 32" "unat i < 2 ^ (p - prefix c)"
    "unat (network s) = unat (network c) + unat i * 2 ^ (32 - p)"
proof -
  from assms(2) obtain a where pc: "prefix c \<le> p" "p \<le> 32" and i: "i < push_bit (p - prefix c) 1"
    and a: "address c (i * push_bit (32 - p) 1) = Some a" and s: "cidr_new a p = Inr s"
    by (auto simp: subnet_def subnet_count_def not_le split: option.splits sum.splits if_splits)
  show "cidr_wf s" "prefix s = p" "prefix c \<le> p" "p \<le> 32" using s pc by (auto simp: cidr_new_Inr)
  show iu: "unat i < 2 ^ (p - prefix c)"
    using i pc unat_push_bit_1 [of "p - prefix c"] by (simp only: word_less_nat_alt)
  have "unat i * 2 ^ (32 - p) < 2 ^ (p - prefix c) * 2 ^ (32 - p)" using iu by simp
  also have "\<dots> = 2 ^ host_bits c" using pc by (simp flip: power_add)
  also have "\<dots> \<le> (2 :: nat) ^ 32" by (intro power_increasing) auto
  finally have "unat i * 2 ^ (32 - p) < 2 ^ 32" .
  then have "unat (i * push_bit (32 - p) 1) = unat i * 2 ^ (32 - p)"
    using unat_push_bit_1 [of "32 - p"] by (simp only: unat_word_ariths) simp
  then show "unat (network s) = unat (network c) + unat i * 2 ^ (32 - p)"
    using address_SomeD(2) [OF assms(1) a] s by (simp add: cidr_new_Inr)
qed

lemma contains_subnet:
  assumes "cidr_wf c" "subnet c p i = Some s"
  shows "contains s a \<longleftrightarrow>
    unat (network c) + unat i * 2 ^ (32 - p) \<le> unat a \<and>
    unat a < unat (network c) + (unat i + 1) * 2 ^ (32 - p)"
  using subnet_SomeD [OF assms] by (simp add: contains_iff algebra_simps)

lemma subnet_contained:
  assumes "cidr_wf c" "subnet c p i = Some s" "contains s a"
  shows "contains c a"
proof -
  note sub = subnet_SomeD [OF assms(1,2)]
  have "(unat i + 1) * 2 ^ (32 - p) \<le> 2 ^ (p - prefix c) * (2 :: nat) ^ (32 - p)"
    using sub(5) by (intro mult_le_mono1) simp
  also have "\<dots> = 2 ^ host_bits c" using sub(3,4) by (simp flip: power_add)
  finally have "(unat i + 1) * 2 ^ (32 - p) \<le> (2 :: nat) ^ host_bits c" .
  with assms(3) show ?thesis
    unfolding contains_subnet [OF assms(1,2)] contains_iff [OF assms(1)] by linarith
qed

lemma subnet_total:
  assumes "cidr_wf c" "subnet_count c p = Some n" "i < n"
  shows "\<exists>s. subnet c p i = Some s"
proof -
  have pc: "prefix c \<le> p" "p \<le> 32" and n: "n = push_bit (p - prefix c) 1"
    using assms(2) by (auto simp: subnet_count_def split: if_splits)
  have iu: "unat i < 2 ^ (p - prefix c)"
    using assms(3) pc unat_push_bit_1 [of "p - prefix c"] unfolding n by (simp only: word_less_nat_alt)
  then have "unat i * 2 ^ (32 - p) < 2 ^ (p - prefix c) * 2 ^ (32 - p)" by simp
  also have hb: "\<dots> = 2 ^ host_bits c" using pc by (simp flip: power_add)
  finally have lt: "unat i * 2 ^ (32 - p) < 2 ^ host_bits c" .
  also have "\<dots> \<le> (2 :: nat) ^ 32" by (intro power_increasing) auto
  finally have "unat (i * push_bit (32 - p) 1) = unat i * 2 ^ (32 - p)"
    using unat_push_bit_1 [of "32 - p"] by (simp only: unat_word_ariths) simp
  then obtain a where a: "address c (i * push_bit (32 - p) 1) = Some a"
    and ua: "unat a = unat (network c) + unat i * 2 ^ (32 - p)"
    using lt address_total [of "i * push_bit (32 - p) 1" c] address_SomeD(2) [OF assms(1)] by metis
  have "(2 :: nat) ^ (32 - p) dvd 2 ^ host_bits c" using pc by (intro le_imp_power_dvd) simp
  then have "2 ^ (32 - p) dvd unat a"
    using assms(1) unfolding ua cidr_wf_iff by (meson dvd_add dvd_trans dvd_triv_right)
  then have "cidr_new a p = Inr (Ipv4Cidr a p)" using pc by (simp add: cidr_new_Inr cidr_wf_iff)
  with a assms(2,3) show ?thesis by (simp add: subnet_def)
qed

lemma subnets_disjoint:
  assumes "cidr_wf c" "subnet c p i = Some s" "subnet c p j = Some t" "i \<noteq> j"
  shows "\<not> overlaps s t"
proof
  assume "overlaps s t"
  then obtain a where "contains s a" "contains t a"
    using overlaps_iff subnet_SomeD(1) [OF assms(1)] assms(2,3) by blast
  then have "unat i * 2 ^ (32 - p) < (unat j + 1) * 2 ^ (32 - p)"
    "unat j * 2 ^ (32 - p) < (unat i + 1) * (2 :: nat) ^ (32 - p)"
    unfolding contains_subnet [OF assms(1,2)] contains_subnet [OF assms(1,3)] by linarith+
  then have "unat i < unat j + 1" "unat j < unat i + 1" by (simp_all only: mult_less_cancel2)
  then show False using assms(4) by (simp add: word_unat_eq_iff)
qed

lemma subnet_covers:
  assumes "cidr_wf c" "subnet_count c p = Some n" "contains c a"
  obtains i s where "i < n" "subnet c p i = Some s" "contains s a"
proof -
  let ?h = "(2 :: nat) ^ (32 - p)" and ?k = "(unat a - unat (network c)) div 2 ^ (32 - p)"
  have pc: "prefix c \<le> p" "p \<le> 32" and n: "n = push_bit (p - prefix c) 1"
    using assms(2) by (auto simp: subnet_count_def split: if_splits)
  have "unat a - unat (network c) < 2 ^ host_bits c"
    using assms(1,3) by (auto simp: contains_iff)
  also have "\<dots> = 2 ^ (p - prefix c) * ?h" using pc by (simp flip: power_add)
  finally have k: "?k < 2 ^ (p - prefix c)" by (simp add: less_mult_imp_div_less)
  have "(2 :: nat) ^ (p - prefix c) \<le> 2 ^ 32" using pc by (intro power_increasing) auto
  with k have uk: "unat (of_nat ?k :: u64) = ?k" by (simp add: unat_of_nat)
  have un: "unat n = 2 ^ (p - prefix c)" using pc unfolding n by (intro unat_push_bit_1) simp
  have i: "of_nat ?k < n" unfolding word_less_nat_alt uk un by (rule k)
  obtain s where s: "subnet c p (of_nat ?k) = Some s" using subnet_total [OF assms(1,2) i] by blast
  have "?k * ?h \<le> unat a - unat (network c)" "unat a - unat (network c) < (?k + 1) * ?h"
    using dividend_less_div_times [of ?h "unat a - unat (network c)"] by (simp_all add: algebra_simps)
  moreover have "unat (network c) \<le> unat a" using assms(1,3) by (simp add: contains_iff)
  ultimately have "contains s a" unfolding contains_subnet [OF assms(1) s] uk by linarith
  with i s show ?thesis using that by blast
qed

section \<open>Properties\<close>

text \<open>
  C21. Two blocks accepted by \<^verbatim>\<open>Ipv4Cidr::new\<close> overlap, by the code's test on the two network
  addresses, exactly when some address lies in both; and a block contains exactly the addresses
  that \<^verbatim>\<open>address(offset)\<close> enumerates, each for one offset.
\<close>

theorem cidr_overlap_exact:
  assumes "cidr_new n p = Inr c" "cidr_new m q = Inr d"
  shows "(overlaps c d \<longleftrightarrow> (\<exists>a. contains c a \<and> contains d a)) \<and>
    (\<forall>a. contains c a \<longleftrightarrow> (\<exists>!i. address c i = Some a))"
proof (intro conjI allI)
  have wf: "cidr_wf c" "cidr_wf d" using assms cidr_new_wf by blast+
  show "overlaps c d \<longleftrightarrow> (\<exists>a. contains c a \<and> contains d a)" by (rule overlaps_iff [OF wf])
  show "contains c a \<longleftrightarrow> (\<exists>!i. address c i = Some a)" for a
    using address_contained [OF wf(1)] address_surj [OF wf(1)] address_inj [OF wf(1)] by metis
qed

text \<open>The witness: 10.0.0.0/8 and 10.1.0.0/16.\<close>

theorem cidr_overlap_exact_witness:
  "(overlaps (Ipv4Cidr 0x0A000000 8) (Ipv4Cidr 0x0A010000 16) \<longleftrightarrow>
     (\<exists>a. contains (Ipv4Cidr 0x0A000000 8) a \<and> contains (Ipv4Cidr 0x0A010000 16) a)) \<and>
   (\<forall>a. contains (Ipv4Cidr 0x0A000000 8) a \<longleftrightarrow> (\<exists>!i. address (Ipv4Cidr 0x0A000000 8) i = Some a))"
proof -
  have "cidr_new 0x0A000000 8 = Inr (Ipv4Cidr 0x0A000000 8)"
    "cidr_new 0x0A010000 16 = Inr (Ipv4Cidr 0x0A010000 16)" by code_simp+
  then show ?thesis by (rule cidr_overlap_exact)
qed

text \<open>
  The subnets of a block tile it: when \<^verbatim>\<open>subnet_count(p)\<close> is \<open>n\<close>, exactly the indices below
  \<open>n\<close> give a subnet, each a well-formed block of prefix \<open>p\<close>, and every address of the block lies in
  the subnet of exactly one index, while no subnet has an address outside the block.
\<close>

theorem subnets_tile:
  assumes "cidr_new net q = Inr c" "subnet_count c p = Some n"
  shows "(\<forall>i. i < n \<longleftrightarrow> subnet c p i \<noteq> None) \<and>
    (\<forall>i s. subnet c p i = Some s \<longrightarrow> prefix s = p \<and> cidr_new (network s) p = Inr s) \<and>
    (\<forall>a. contains c a \<longleftrightarrow> (\<exists>!i. \<exists>s. subnet c p i = Some s \<and> contains s a)) \<and>
    (\<forall>i s a. subnet c p i = Some s \<and> contains s a \<longrightarrow> contains c a)"
proof -
  have wf: "cidr_wf c" using assms(1) by (rule cidr_new_wf)
  have dom: "i < n \<longleftrightarrow> subnet c p i \<noteq> None" for i
    using subnet_total [OF wf assms(2), of i] assms(2) by (auto simp: subnet_def not_less)
  have blk: "prefix s = p \<and> cidr_new (network s) p = Inr s" if "subnet c p i = Some s" for i s
    using subnet_SomeD(1,2) [OF wf that] by (cases s) (simp add: cidr_new_Inr)
  have sub: "contains c a" if "subnet c p i = Some s" "contains s a" for i s a
    using subnet_contained [OF wf that] .
  have uniq: "i = j" if "subnet c p i = Some s" "contains s a" "subnet c p j = Some t" "contains t a"
    for i j s t a
    using subnets_disjoint [OF wf that(1,3)] overlaps_iff [of s t] subnet_SomeD(1) [OF wf] that by blast
  have "contains c a \<longleftrightarrow> (\<exists>!i. \<exists>s. subnet c p i = Some s \<and> contains s a)" for a
    using subnet_covers [OF wf assms(2), of a] sub uniq by metis
  with dom blk sub show ?thesis by blast
qed

text \<open>The witness: the 32 server subnets of a default container range.\<close>

theorem subnets_tile_witness:
  "(\<forall>i. i < 32 \<longleftrightarrow> subnet (Ipv4Cidr 0x64400000 16) 21 i \<noteq> None) \<and>
   subnet (Ipv4Cidr 0x64400000 16) 21 3 = Some (Ipv4Cidr 0x64401800 21)"
proof -
  have c: "cidr_new 0x64400000 16 = Inr (Ipv4Cidr 0x64400000 16)"
    "subnet_count (Ipv4Cidr 0x64400000 16) 21 = Some 32" by code_simp+
  have "subnet (Ipv4Cidr 0x64400000 16) 21 3 = Some (Ipv4Cidr 0x64401800 21)" by code_simp
  with subnets_tile [OF c] show ?thesis by blast
qed

text \<open>
  Parsing is the inverse of printing: every block that \<^verbatim>\<open>new\<close> or the parser accepts prints to a
  text that parses back to it, so distinct blocks have distinct texts; and whatever the parser
  accepts has a prefix of at most 32 and no host bits.
\<close>

theorem parse_cidr_roundtrip:
  assumes "parse_cidr s = Inr c \<or> cidr_new net p = Inr c"
  shows "parse_cidr (show_cidr c) = Inr c \<and> prefix c \<le> 32 \<and>
    network c AND prefix_mask (prefix c) = network c"
proof -
  have wf: "cidr_wf c" using assms parse_cidr_wf cidr_new_wf by blast
  then show ?thesis by (simp add: parse_show_cidr) (simp add: cidr_wf_def)
qed

theorem parse_cidr_roundtrip_witness:
  "parse_cidr ''198.18.7.0/+024'' = Inr (Ipv4Cidr 0xC6120700 24) \<and>
   parse_cidr (show_cidr (Ipv4Cidr 0xC6120700 24)) = Inr (Ipv4Cidr 0xC6120700 24)"
proof -
  have "cidr_new 0xC6120700 24 = Inr (Ipv4Cidr 0xC6120700 24)" by code_simp
  then have c: "parse_cidr ''198.18.7.0/+024'' = Inr (Ipv4Cidr 0xC6120700 24)"
    by (simp add: parse_cidr_def text_eval)
  then show ?thesis using parse_cidr_roundtrip [of "''198.18.7.0/+024''" "Ipv4Cidr 0xC6120700 24" 0 0] by blast
qed

end
