(* ===== verification/Naming.thy ===== *)
theory Naming
  imports Cidr
begin

text \<open>
  The project-derived names, ports and address ranges of \<^verbatim>\<open>crates/jiji-network/src/naming.rs\<close>.
  SHA-256 belongs to the \<^verbatim>\<open>sha2\<close> package: it is the parameter \<open>sha256\<close>, a function from byte
  strings to lists of bytes.
\<close>

type_synonym digest = "string \<Rightarrow> u8 list"

text \<open>\<^verbatim>\<open>u64::from_be_bytes\<close> of the first eight bytes.\<close>

definition u64_from_be_bytes :: "u8 list \<Rightarrow> u64" where
  "u64_from_be_bytes bs = foldl (\<lambda>acc b. acc * 256 + ucast b) 0 bs"

definition stable_hash :: "digest \<Rightarrow> string \<Rightarrow> u64" where
  "stable_hash sha256 value = u64_from_be_bytes (take 8 (sha256 value))"

definition salted_hash :: "digest \<Rightarrow> string \<Rightarrow> string \<Rightarrow> u64" where
  "salted_hash sha256 salt project = stable_hash sha256 (salt @ '':'' @ project)"

definition DEFAULT_MANAGEMENT_POOL_PREFIX :: "nat \<times> nat" where
  "DEFAULT_MANAGEMENT_POOL_PREFIX = (198, 18)"

definition DEFAULT_CONTAINER_POOL_PREFIX :: "nat \<times> nat" where
  "DEFAULT_CONTAINER_POOL_PREFIX = (100, 64)"

definition project_cidrs :: "digest \<Rightarrow> string \<Rightarrow> string \<times> string" where
  "project_cidrs sha256 project =
     (let slot = unat (salted_hash sha256 ''cidr'' project mod 64);
          (management_first, management_second) = DEFAULT_MANAGEMENT_POOL_PREFIX;
          (container_first, container_base) = DEFAULT_CONTAINER_POOL_PREFIX;
          container_second = container_base + slot in
      (show_nat management_first @ ''.'' @ show_nat management_second @ ''.'' @ show_nat slot @ ''.0/24'',
       show_nat container_first @ ''.'' @ show_nat container_second @ ''.0.0/16''))"

definition wireguard_interface_name :: "digest \<Rightarrow> string \<Rightarrow> string" where
  "wireguard_interface_name sha256 project =
     ''jiji'' @ show_hex 8 (unat (ucast (salted_hash sha256 ''wg'' project) :: u32))"

definition bridge_interface_name :: "digest \<Rightarrow> string \<Rightarrow> string" where
  "bridge_interface_name sha256 project =
     ''jijib'' @ show_hex 7 (unat ((ucast (salted_hash sha256 ''br'' project) :: u32) AND 0x0fffffff))"

text \<open>The loop of \<^verbatim>\<open>project_slug\<close>: one character at a time, with the slug built so far.\<close>

definition slug_push :: "string \<Rightarrow> char \<Rightarrow> string" where
  "slug_push slug ch =
     (let lower = to_ascii_lowercase ch in
      if is_ascii_alphanumeric lower then slug @ [lower]
      else if \<not> ends_with slug ''-'' \<and> slug \<noteq> [] then slug @ ''-''
      else slug)"

definition pop_dashes :: "string \<Rightarrow> string" where
  "pop_dashes slug = rev (dropWhile (\<lambda>c. c = CHR ''-'') (rev slug))"

definition project_slug :: "digest \<Rightarrow> string \<Rightarrow> string" where
  "project_slug sha256 project =
     (let slug = pop_dashes (take 20 (pop_dashes (foldl slug_push [] project)));
          hash = show_hex 8 (unat (ucast (stable_hash sha256 project) :: u32)) in
      if slug = [] then hash else slug @ ''-'' @ hash)"

definition bridge_network_name :: "digest \<Rightarrow> string \<Rightarrow> string" where
  "bridge_network_name sha256 project = ''jiji-'' @ project_slug sha256 project"

definition systemd_unit_slug :: "digest \<Rightarrow> string \<Rightarrow> string" where
  "systemd_unit_slug sha256 project = project_slug sha256 project"

definition wireguard_port :: "digest \<Rightarrow> string \<Rightarrow> u16" where
  "wireguard_port sha256 project = 51820 + ucast (salted_hash sha256 ''port'' project mod 4000)"

definition service_nat_table_name :: "digest \<Rightarrow> string \<Rightarrow> string" where
  "service_nat_table_name sha256 project =
     ''jiji_service_nat_'' @
     map (\<lambda>c. if c = CHR ''-'' then CHR ''_'' else c) (systemd_unit_slug sha256 project)"

definition catalog_replication_port :: "digest \<Rightarrow> string \<Rightarrow> u16" where
  "catalog_replication_port sha256 project =
     58000 + ucast (salted_hash sha256 ''replication-catalog'' project mod 2000)"

section \<open>Slugs\<close>

definition slug_char :: "char \<Rightarrow> bool" where
  "slug_char c = (is_ascii_lowercase c \<or> is_ascii_digit c \<or> c = CHR ''-'')"

lemma lower_alnum: "is_ascii_alphanumeric (to_ascii_lowercase c) \<Longrightarrow> slug_char (to_ascii_lowercase c)"
  using to_ascii_lowercase_not_uppercase by (auto simp: slug_char_def is_ascii_alphanumeric_def)

lemma slug_push_chars: "\<forall>c \<in> set s. slug_char c \<Longrightarrow> \<forall>c \<in> set (slug_push s ch). slug_char c"
  using lower_alnum by (auto simp: slug_push_def Let_def) (simp_all add: slug_char_def)

lemma foldl_slug_chars: "\<forall>c \<in> set s. slug_char c \<Longrightarrow> \<forall>c \<in> set (foldl slug_push s p). slug_char c"
proof (induction p arbitrary: s)
  case (Cons ch p)
  show ?case using Cons.IH [OF slug_push_chars [OF Cons.prems]] by simp
qed simp

lemma alnum_not_dash: "is_ascii_alphanumeric c \<Longrightarrow> c \<noteq> CHR ''-''"
  by (auto simp: text_eval)

lemma slug_push_hd: "s = [] \<or> hd s \<noteq> CHR ''-'' \<Longrightarrow> slug_push s ch = [] \<or> hd (slug_push s ch) \<noteq> CHR ''-''"
  using alnum_not_dash [of "to_ascii_lowercase ch"] by (cases s) (auto simp: slug_push_def Let_def)

lemma foldl_slug_hd:
  "s = [] \<or> hd s \<noteq> CHR ''-'' \<Longrightarrow> foldl slug_push s p = [] \<or> hd (foldl slug_push s p) \<noteq> CHR ''-''"
proof (induction p arbitrary: s)
  case (Cons ch p)
  show ?case using Cons.IH [OF slug_push_hd [OF Cons.prems]] by simp
qed simp

lemma pop_dashes_prefix: "\<exists>r. s = pop_dashes s @ r"
  unfolding pop_dashes_def by (metis rev_append rev_rev_ident takeWhile_dropWhile_id)

lemma set_pop_dashes: "set (pop_dashes s) \<subseteq> set s"
  using set_dropWhileD by (fastforce simp: pop_dashes_def)

lemma length_pop_dashes: "length (pop_dashes s) \<le> length s"
  using length_dropWhile_le [of _ "rev s"] by (simp add: pop_dashes_def)

lemma hd_pop_dashes: "pop_dashes s \<noteq> [] \<Longrightarrow> hd (pop_dashes s) = hd s"
  using pop_dashes_prefix [of s] by (metis hd_append2)

lemma hex_char_slug: "d < 16 \<Longrightarrow> slug_char (hex_char d) \<and> hex_char d \<noteq> CHR ''-''"
proof -
  assume d: "d < 16"
  then have "(of_char (hex_char d) :: nat) = (if d < 10 then 48 + d else 87 + d)"
    by (simp add: hex_char_def)
  moreover have "(of_char (hex_char d) :: nat) \<noteq> of_char (CHR ''-'')"
    using calculation by simp
  ultimately show ?thesis using d
    by (auto simp: slug_char_def is_ascii_digit_def is_ascii_lowercase_def split: if_splits)
qed

lemma show_hex_chars: "c \<in> set (show_hex w n) \<Longrightarrow> slug_char c \<and> c \<noteq> CHR ''-''"
proof (induction w arbitrary: n)
  case (Suc w)
  show ?case
  proof (cases "c \<in> set (show_hex w (n div 16))")
    case False
    then have "c = hex_char (n mod 16)" using Suc.prems by simp
    then show ?thesis using hex_char_slug [of "n mod 16"] by simp
  qed (rule Suc.IH)
qed simp

lemma project_slug_parts:
  obtains (hash) h where "project_slug sha256 p = h" "length h = 8" "\<forall>c \<in> set h. slug_char c \<and> c \<noteq> CHR ''-''"
  | (named) s h where "project_slug sha256 p = s @ ''-'' @ h" "length h = 8" "length s \<le> 20" "s \<noteq> []"
      "\<forall>c \<in> set h. slug_char c \<and> c \<noteq> CHR ''-''" "\<forall>c \<in> set s. slug_char c" "hd s \<noteq> CHR ''-''"
proof -
  let ?f = "foldl slug_push [] p"
  let ?s = "pop_dashes (take 20 (pop_dashes ?f))"
  let ?h = "show_hex 8 (unat (ucast (stable_hash sha256 p) :: u32))"
  have h: "length ?h = 8" by simp
  have h': "\<forall>c \<in> set ?h. slug_char c \<and> c \<noteq> CHR ''-''" by (intro ballI show_hex_chars)
  show thesis
  proof (cases "?s = []")
    case True
    then have "project_slug sha256 p = ?h" unfolding project_slug_def Let_def by (simp only: if_True simp_thms)
    then show ?thesis using h h' by (rule that(1))
  next
    case False
    have len: "length ?s \<le> 20" using length_pop_dashes [of "take 20 (pop_dashes ?f)"] by simp
    have "set ?s \<subseteq> set ?f" 
      by (rule order_trans [OF set_pop_dashes order_trans [OF set_take_subset set_pop_dashes]])
    moreover have "\<forall>c \<in> set ?f. slug_char c" by (rule foldl_slug_chars) simp
    ultimately have ch: "\<forall>c \<in> set ?s. slug_char c" by blast
    have nil: "pop_dashes [] = []" by (simp add: pop_dashes_def)
    then have ne: "take 20 (pop_dashes ?f) \<noteq> []" using False by metis
    then have ne': "pop_dashes ?f \<noteq> []" by (metis take_Nil)
    have "hd ?s = hd (take 20 (pop_dashes ?f))" by (rule hd_pop_dashes [OF False])
    also have "\<dots> = hd (pop_dashes ?f)" using ne' by simp
    also have "\<dots> = hd ?f" by (rule hd_pop_dashes [OF ne'])
    finally have hd: "hd ?s = hd ?f" .
    have "?f \<noteq> []" using ne' nil by metis
    then have nd: "hd ?s \<noteq> CHR ''-''" using foldl_slug_hd [of "[]" p] unfolding hd by blast
    have "project_slug sha256 p = ?s @ ''-'' @ ?h"
      unfolding project_slug_def Let_def using False by (simp only: if_False)
    then show ?thesis by (rule that(2) [OF _ h len False h' ch nd])
  qed
qed

section \<open>Ports and default ranges\<close>

lemma unat_mod_u64: "unat (x mod n) = unat x mod unat n" for x n :: u64
  by (rule unat_mod_distrib)

lemma unat_ucast_u16: "unat x < 2 ^ 16 \<Longrightarrow> unat (ucast (x :: u64) :: u16) = unat x"
  by (simp add: unsigned_ucast_eq take_bit_eq_mod)

lemma port_range:
  assumes "unat n \<le> 4000" "0 < unat n" "base \<le> 60000"
  shows "unat ((of_nat base :: u16) + ucast (x mod n :: u64)) = base + unat (x mod n)"
    and "unat (x mod n) < unat n"
proof -
  show lt: "unat (x mod n) < unat n" using assms by (simp add: unat_mod_u64)
  then have "unat (ucast (x mod n) :: u16) = unat (x mod n)" using assms by (intro unat_ucast_u16) simp
  moreover have "unat (of_nat base :: u16) = base" using assms by (simp add: unat_of_nat)
  ultimately show "unat ((of_nat base :: u16) + ucast (x mod n)) = base + unat (x mod n)"
    using lt assms by (simp add: unat_word_ariths)
qed

abbreviation default_slot :: "digest \<Rightarrow> string \<Rightarrow> nat" where
  "default_slot sha256 project \<equiv> unat (salted_hash sha256 ''cidr'' project mod 64)"

lemma default_slot_less: "default_slot sha256 project < 64"
  using port_range(2) [of 64 0 "salted_hash sha256 ''cidr'' project"] by simp

abbreviation default_management :: "nat \<Rightarrow> Ipv4Cidr" where
  "default_management slot \<equiv> Ipv4Cidr (ipv4_of_octets 198 18 slot 0) 24"

abbreviation default_container :: "nat \<Rightarrow> Ipv4Cidr" where
  "default_container slot \<equiv> Ipv4Cidr (ipv4_of_octets 100 (64 + slot) 0 0) 16"

lemma project_cidrs_show:
  "project_cidrs sha256 project =
     (show_cidr (default_management (default_slot sha256 project)),
      show_cidr (default_container (default_slot sha256 project)))"
  using default_slot_less [of sha256 project]
  by (simp add: project_cidrs_def DEFAULT_MANAGEMENT_POOL_PREFIX_def DEFAULT_CONTAINER_POOL_PREFIX_def
      Let_def show_cidr_def show_ipv4_def octets_ipv4_of_octets)
    (simp add: show_nat_step [of 24] show_nat_step [of 16] show_nat_small digit_char_literals)

lemma default_management_wf: "slot < 64 \<Longrightarrow> cidr_wf (default_management slot)"
  by (simp add: cidr_wf_iff unat_ipv4_of_octets dvd_add)

lemma default_container_wf: "slot < 64 \<Longrightarrow> cidr_wf (default_container slot)"
  by (simp add: cidr_wf_iff unat_ipv4_of_octets dvd_add)

lemma project_cidrs_parse:
  assumes "project_cidrs sha256 project = (m, c)"
  shows "parse_cidr m = Inr (default_management (default_slot sha256 project))"
    "parse_cidr c = Inr (default_container (default_slot sha256 project))"
  using assms default_slot_less [of sha256 project]
  by (auto simp: project_cidrs_show intro!: parse_show_cidr default_management_wf default_container_wf)

lemma default_ranges_disjoint:
  "slot < 64 \<Longrightarrow> slot' < 64 \<Longrightarrow> \<not> overlaps (default_management slot) (default_container slot')"
  using default_management_wf [of slot] default_container_wf [of slot']
  by (simp add: overlaps_def contains_iff unat_ipv4_of_octets)

lemma project_slug_shape: "length (project_slug sha256 project) \<le> 29 \<and> list_all slug_char (project_slug sha256 project) \<and>
   hd (project_slug sha256 project) \<noteq> CHR ''-'' \<and> last (project_slug sha256 project) \<noteq> CHR ''-''"
proof (cases rule: project_slug_parts [of sha256 project])
  case (hash h)
  have "h \<noteq> []" using hash(2) by auto
  then have "hd h \<noteq> CHR ''-''" "last h \<noteq> CHR ''-''"
    using hash(3) hd_in_set last_in_set by blast+
  moreover have "list_all slug_char h" using hash(3) unfolding list_all_iff by blast
  ultimately show ?thesis unfolding hash(1) using hash(2) by simp
next
  case (named s h)
  have h: "h \<noteq> []" using named(2) by auto
  have dash: "slug_char (CHR ''-'')" by (simp add: slug_char_def)
  have "list_all slug_char s" "list_all slug_char h"
    using named(5,6) unfolding list_all_iff by blast+
  with dash have "list_all slug_char (s @ ''-'' @ h)" by simp
  moreover have "last (s @ ''-'' @ h) = last h" using h by simp
  moreover have "last h \<noteq> CHR ''-''" using h named(5) last_in_set by blast
  moreover have "hd (s @ ''-'' @ h) = hd s" using named(4) by simp
  moreover have "length (s @ ''-'' @ h) \<le> 29" using named(2,3) by simp
  ultimately show ?thesis unfolding named(1) using named(7) by argo
qed

section \<open>Properties\<close>

text \<open>
  Every project-derived interface name respects the kernel's limit of 15 characters, the
  WireGuard port lies in 51820..55819 and the replication port in 58000..59999, and a slug has at
  most 29 characters, all of them lower-case letters, digits or hyphens, never with a hyphen at
  either end, for every project name and every hash function.
\<close>

theorem project_names_well_formed:
  "length (wireguard_interface_name sha256 project) \<le> 15 \<and>
   length (bridge_interface_name sha256 project) \<le> 15 \<and>
   51820 \<le> unat (wireguard_port sha256 project) \<and> unat (wireguard_port sha256 project) \<le> 55819 \<and>
   58000 \<le> unat (catalog_replication_port sha256 project) \<and>
   unat (catalog_replication_port sha256 project) \<le> 59999 \<and>
   length (systemd_unit_slug sha256 project) \<le> 29 \<and>
   list_all slug_char (systemd_unit_slug sha256 project) \<and>
   hd (systemd_unit_slug sha256 project) \<noteq> CHR ''-'' \<and> last (systemd_unit_slug sha256 project) \<noteq> CHR ''-''"
proof -
  have wg: "unat (wireguard_port sha256 project) = 51820 + unat (salted_hash sha256 ''port'' project mod 4000)"
    and wg': "unat (salted_hash sha256 ''port'' project mod 4000) < 4000"
    using port_range [of 4000 51820 "salted_hash sha256 ''port'' project"] by (simp_all add: wireguard_port_def)
  have cr: "unat (catalog_replication_port sha256 project) =
        58000 + unat (salted_hash sha256 ''replication-catalog'' project mod 2000)"
    and cr': "unat (salted_hash sha256 ''replication-catalog'' project mod 2000) < 2000"
    using port_range [of 2000 58000 "salted_hash sha256 ''replication-catalog'' project"]
    by (simp_all add: catalog_replication_port_def)
  have len: "length (wireguard_interface_name sha256 project) = 12"
    "length (bridge_interface_name sha256 project) = 12"
    by (simp_all only: wireguard_interface_name_def bridge_interface_name_def length_append length_show_hex) simp_all
  show ?thesis
    unfolding systemd_unit_slug_def wg cr len using wg' cr' project_slug_shape [of sha256 project] by simp
qed

end
