(* ===== verification/Pattern.thy ===== *)
theory Pattern
  imports Text_Format
begin

text \<open>
  The wildcard matcher of \<^verbatim>\<open>crates/jiji-core/src/pattern.rs\<close> that \<^verbatim>\<open>--hosts\<close> and \<^verbatim>\<open>--services\<close>
  filters use, and its meaning: a value matches a pattern when some choice of texts for the stars
  turns the pattern into the value.
\<close>

fun matches :: "string \<Rightarrow> string \<Rightarrow> bool" where
  "matches value [] = (value = [])"
| "matches [] (p # rest) = (p = CHR ''*'' \<and> matches [] rest)"
| "matches (v # vs) (p # rest) =
     (if p = CHR ''*'' then matches (v # vs) rest \<or> matches vs (p # rest)
      else v = p \<and> matches vs rest)"

definition matches_pattern :: "string \<Rightarrow> string \<Rightarrow> bool" where
  "matches_pattern value pattern = matches value pattern"

text \<open>The pattern with its stars replaced, left to right, by the given texts.\<close>

fun fill_stars :: "string \<Rightarrow> string list \<Rightarrow> string" where
  "fill_stars [] ts = []"
| "fill_stars (p # ps) ts =
     (if p = CHR ''*'' then (case ts of [] \<Rightarrow> fill_stars ps [] | t # ts' \<Rightarrow> t @ fill_stars ps ts')
      else p # fill_stars ps ts)"

lemma matches_star: "matches v (CHR ''*'' # ps) \<longleftrightarrow> (\<exists>t w. v = t @ w \<and> matches w ps)"
proof (induction v)
  case (Cons x v)
  then show ?case by (auto simp: Cons_eq_append_conv)
qed simp

lemma matches_other: "p \<noteq> CHR ''*'' \<Longrightarrow> matches v (p # ps) \<longleftrightarrow> (\<exists>w. v = p # w \<and> matches w ps)"
  by (cases v) auto

lemma fill_stars_star: "p = CHR ''*'' \<Longrightarrow>
  (\<exists>ts. length ts = Suc n \<and> v = fill_stars (p # ps) ts) \<longleftrightarrow> (\<exists>t ts. length ts = n \<and> v = t @ fill_stars ps ts)"
proof
  assume "\<exists>t ts. length ts = n \<and> v = t @ fill_stars ps ts" and "p = CHR ''*''"
  then obtain t ts where "length (t # ts) = Suc n \<and> v = fill_stars (p # ps) (t # ts)" by auto
  then show "\<exists>ts. length ts = Suc n \<and> v = fill_stars (p # ps) ts" by blast
qed (auto simp: length_Suc_conv, blast)

lemma matches_fill: "matches v p \<longleftrightarrow> (\<exists>ts. length ts = count_list p (CHR ''*'') \<and> v = fill_stars p ts)"
proof (induction p arbitrary: v)
  case (Cons p ps)
  show ?case
  proof (cases "p = CHR ''*''")
    case True
    have "(\<exists>t w. v = t @ w \<and> matches w ps) \<longleftrightarrow>
      (\<exists>t ts. length ts = count_list ps (CHR ''*'') \<and> v = t @ fill_stars ps ts)"
      using Cons.IH by blast
    with True fill_stars_star [of p "count_list ps (CHR ''*'')" v ps] show ?thesis
      by (simp add: matches_star)
  next
    case False
    with Cons.IH show ?thesis by (auto simp: matches_other)
  qed
qed simp

lemma matches_literal: "CHR ''*'' \<notin> set p \<Longrightarrow> matches v p \<longleftrightarrow> v = p"
proof (induction p arbitrary: v)
  case (Cons p ps)
  then have "p \<noteq> CHR ''*''" by (metis list.set_intros(1))
  with Cons show ?case by (simp add: matches_other)
qed simp

section \<open>Properties\<close>

text \<open>
  C39. The matcher accepts a value exactly when the pattern becomes that value by putting some text,
  possibly empty, in place of each star; a pattern without a star matches itself only.
\<close>

theorem matches_pattern_spec:
  "(matches_pattern value pattern \<longleftrightarrow>
      (\<exists>ts. length ts = count_list pattern (CHR ''*'') \<and> value = fill_stars pattern ts)) \<and>
   (CHR ''*'' \<notin> set pattern \<longrightarrow> (matches_pattern value pattern \<longleftrightarrow> value = pattern))"
proof (intro conjI impI)
  show "matches_pattern value pattern \<longleftrightarrow>
      (\<exists>ts. length ts = count_list pattern (CHR ''*'') \<and> value = fill_stars pattern ts)"
    unfolding matches_pattern_def by (rule matches_fill)
  show "CHR ''*'' \<notin> set pattern \<Longrightarrow> matches_pattern value pattern \<longleftrightarrow> value = pattern"
    unfolding matches_pattern_def by (rule matches_literal)
qed

theorem matches_pattern_spec_witness:
  "matches_pattern ''web-frontend-1'' ''web-*-1'' \<and> \<not> matches_pattern ''web1'' ''web2''"
proof -
  have "fill_stars ''web-*-1'' [''frontend''] = ''web-frontend-1''" by simp
  then have "\<exists>ts. length ts = count_list ''web-*-1'' (CHR ''*'') \<and> ''web-frontend-1'' = fill_stars ''web-*-1'' ts"
    by (intro exI [of _ "[''frontend'']"]) simp
  then have "matches_pattern ''web-frontend-1'' ''web-*-1''"
    using conjunct1 [OF matches_pattern_spec, of "''web-frontend-1''" "''web-*-1''"] by blast
  moreover have "\<not> matches_pattern ''web1'' ''web2''"
    using conjunct2 [OF matches_pattern_spec, of "''web2''" "''web1''"] by simp
  ultimately show ?thesis by blast
qed

end
