(* ===== verification/Schema.thy ===== *)
theory Schema
  imports Text_Format
begin

text \<open>
  The configuration types of \<^verbatim>\<open>crates/jiji-config/src/schema.rs\<close>, with the defaults that
  deserialisation fills in.  Field names carry a prefix per struct, because two structs share
  field names.  A \<^verbatim>\<open>HashMap\<close> is an association list in the order one iteration of the map happens
  to yield, with distinct keys (\<open>config_wf\<close>); a \<^verbatim>\<open>BTreeMap\<close> is a list sorted by key.
  A \<^verbatim>\<open>serde_yaml::Number\<close> and an \<^verbatim>\<open>f64\<close> are kept as the text they print to.
\<close>

datatype ContainerEngine = Docker | Podman

definition show_ContainerEngine :: "ContainerEngine \<Rightarrow> string" where
  "show_ContainerEngine e = (case e of Docker \<Rightarrow> ''docker'' | Podman \<Rightarrow> ''podman'')"

record Registry =
  reg_port :: nat
  reg_server :: "string option"
  reg_username :: "string option"
  reg_password :: "string option"

definition default_registry_port :: nat where
  "default_registry_port = 31270"

definition default_registry :: Registry where
  "default_registry = \<lparr>reg_port = default_registry_port, reg_server = None, reg_username = None, reg_password = None\<rparr>"

definition is_local :: "Registry \<Rightarrow> bool" where
  "is_local r = (reg_server r = None)"

record Builder =
  b_engine :: ContainerEngine
  b_remote :: "string option"
  b_cache :: bool
  b_registry :: Registry

record NamedServer =
  srv_host :: string
  srv_arch :: "string option"
  srv_user :: "string option"
  srv_port :: "nat option"
  srv_key_passphrase :: "string option"
  srv_keys :: "string list option"

datatype LogLevel = LogDebug | LogInfo | LogWarn | LogError | LogFatal

datatype SshConfigFiles = SshEnabled bool | SshSingle string | SshMultiple "string list"

record Ssh =
  ssh_user :: "string option"
  ssh_port :: nat
  ssh_key_passphrase :: "string option"
  ssh_connect_timeout :: nat
  ssh_command_timeout :: nat
  ssh_options :: "(string \<times> string) list"
  ssh_proxy :: "string option"
  ssh_proxy_command :: "string option"
  ssh_keys :: "string list option"
  ssh_keys_only :: bool
  ssh_max_concurrent_starts :: nat
  ssh_pool_idle_timeout :: nat
  ssh_dns_retries :: nat
  ssh_log_level :: LogLevel
  ssh_config :: SshConfigFiles

record Network =
  net_enabled :: bool
  net_management_cidr :: "string option"
  net_container_cidr :: "string option"
  net_dns_forwarders :: "Ipv4Addr list"

definition default_dns_forwarders :: "Ipv4Addr list" where
  "default_dns_forwarders = [ipv4_of_octets 1 1 1 1, ipv4_of_octets 8 8 8 8]"

record SecretsAdapter =
  sa_adapter :: string
  sa_project :: "string option"
  sa_config :: "string option"

datatype ClearValue = ClearString string | ClearNumber string | ClearBool bool

definition show_ClearValue :: "ClearValue \<Rightarrow> string" where
  "show_ClearValue v =
     (case v of ClearString s \<Rightarrow> s | ClearNumber n \<Rightarrow> n
      | ClearBool b \<Rightarrow> (if b then ''true'' else ''false''))"

record Environment =
  env_clear :: "(string \<times> ClearValue) list"
  env_secrets :: "string list"

record BuildConfig =
  bc_context :: string
  bc_dockerfile :: "string option"
  bc_args :: "(string \<times> string) list option"
  bc_target :: "string option"
  bc_secrets :: "string list option"

datatype BuildValue = BuildContext string | BuildDetailed BuildConfig

datatype CommandValue = CommandSingle string | CommandMultiple "string list"

datatype CpusValue = CpusNumber string | CpusText string

datatype MountConfig =
    MountStr string
  | MountDetailed (mount_local: string) (mount_remote: string) (mount_mode: "string option")
      (mount_owner: "string option") (mount_options: "string option")

datatype SslValue = SslEnabled bool | SslCerts string string

record HealthcheckConfig =
  hc_path :: "string option"
  hc_cmd :: "string option"
  hc_cmd_runtime :: "ContainerEngine option"
  hc_interval :: "string option"
  hc_timeout :: "string option"
  hc_deploy_timeout :: "string option"

record ProxyTarget =
  pt_port :: nat
  pt_hosts :: "string list option"
  pt_ssl :: "SslValue option"
  pt_path_prefix :: "string option"
  pt_healthcheck :: "HealthcheckConfig option"
  pt_listen_port :: "nat option"

record ProxyConfig =
  px_port :: "nat option"
  px_hosts :: "string list option"
  px_ssl :: "SslValue option"
  px_path_prefix :: "string option"
  px_healthcheck :: "HealthcheckConfig option"
  px_targets :: "ProxyTarget list option"
  px_listen_port :: "nat option"

datatype RestartPolicy = UnlessStopped | RestartAlways | OnFailure | RestartNo

definition show_RestartPolicy :: "RestartPolicy \<Rightarrow> string" where
  "show_RestartPolicy r =
     (case r of UnlessStopped \<Rightarrow> ''unless-stopped'' | RestartAlways \<Rightarrow> ''always''
      | OnFailure \<Rightarrow> ''on-failure'' | RestartNo \<Rightarrow> ''no'')"

datatype CronOverlap = Forbid

datatype CronMissedRuns = Skip

record CronConfig =
  cron_schedule :: string
  cron_command :: CommandValue
  cron_timezone :: string
  cron_timeout :: string
  cron_overlap :: CronOverlap
  cron_missed_runs :: CronMissedRuns

record Service =
  svc_image :: "string option"
  svc_build :: "BuildValue option"
  svc_servers :: "string list"
  svc_scale :: nat
  svc_ports :: "string list"
  svc_volumes :: "string list"
  svc_files :: "MountConfig list"
  svc_directories :: "MountConfig list"
  svc_environment :: Environment
  svc_command :: "CommandValue option"
  svc_proxy :: "ProxyConfig option"
  svc_retain :: nat
  svc_network_mode :: string
  svc_cpus :: "CpusValue option"
  svc_memory :: "string option"
  svc_gpus :: "string option"
  svc_devices :: "string list"
  svc_privileged :: bool
  svc_cap_add :: "string list"
  svc_stop_first :: bool
  svc_restart :: "RestartPolicy option"
  svc_crons :: "(string \<times> CronConfig) list"

record Config =
  cfg_project :: string
  cfg_builder :: Builder
  cfg_servers :: "(string \<times> NamedServer) list"
  cfg_services :: "(string \<times> Service) list"
  cfg_ssh :: "Ssh option"
  cfg_network :: "Network option"
  cfg_secrets_path :: "string option"
  cfg_secrets :: "SecretsAdapter option"
  cfg_environment :: "Environment option"

definition default_cron_timezone :: string where
  "default_cron_timezone = ''UTC''"

definition default_cron_timeout :: string where
  "default_cron_timeout = ''1h''"

definition default_environment :: Environment where
  "default_environment = \<lparr>env_clear = [], env_secrets = []\<rparr>"

text \<open>A service with every defaulted field at its serde default.\<close>

definition default_service :: Service where
  "default_service =
     \<lparr>svc_image = None, svc_build = None, svc_servers = [], svc_scale = 1, svc_ports = [],
      svc_volumes = [], svc_files = [], svc_directories = [], svc_environment = default_environment,
      svc_command = None, svc_proxy = None, svc_retain = 3, svc_network_mode = ''bridge'',
      svc_cpus = None, svc_memory = None, svc_gpus = None, svc_devices = [], svc_privileged = False,
      svc_cap_add = [], svc_stop_first = False, svc_restart = None, svc_crons = []\<rparr>"

definition default_server :: "string \<Rightarrow> NamedServer" where
  "default_server host =
     \<lparr>srv_host = host, srv_arch = None, srv_user = None, srv_port = None, srv_key_passphrase = None, srv_keys = None\<rparr>"

definition network_mode_dependency :: "Service \<Rightarrow> string option" where
  "network_mode_dependency s = strip_prefix ''service:'' (svc_network_mode s)"

text \<open>
  \<^verbatim>\<open>parse_cron_duration\<close>: seconds as a \<^verbatim>\<open>u64\<close>; the products wrap around, as they do in a release
  build. \<^verbatim>\<open>split_at\<close> panics inside a multi-byte character: the outer \<open>None\<close>.
\<close>

definition parse_cron_duration :: "string \<Rightarrow> u64 option option" where
  "parse_cron_duration value =
     (let v = trim value in
      if length v < 2 then Some None
      else if is_utf8_continuation (last v) then None
      else case parse_uint (2 ^ 64 - 1) (butlast v) of
             Inl _ \<Rightarrow> Some None
           | Inr amount \<Rightarrow>
               Some (if last v = CHR ''s'' then Some (of_nat amount)
                     else if last v = CHR ''m'' then Some (of_nat amount * 60)
                     else if last v = CHR ''h'' then Some (of_nat amount * 3600)
                     else None))"

definition timeout_duration :: "CronConfig \<Rightarrow> u64 option option" where
  "timeout_duration c = parse_cron_duration (cron_timeout c)"

text \<open>What a deserialised configuration satisfies by its types.\<close>

definition config_wf :: "Config \<Rightarrow> bool" where
  "config_wf c \<longleftrightarrow>
     distinct (map fst (cfg_servers c)) \<and> distinct (map fst (cfg_services c)) \<and>
     (\<forall>(n, s) \<in> set (cfg_services c). bt_wf (svc_crons s))"

end
