(* ===== verification/Planner.thy ===== *)
theory Planner
  imports Naming Pattern Schema
begin

text \<open>
  The network planner of \<^verbatim>\<open>crates/jiji-network/src/planner.rs\<close>: from a configuration to the complete
  WireGuard mesh of a project.
  A call of \<^verbatim>\<open>expect\<close> that fails, or the index \<^verbatim>\<open>config.servers[&name]\<close> on a missing key, panics:
  \<open>plan\<close> returns an option whose \<open>None\<close> is that panic, and the lemmas show that it never happens.
  Slots are natural numbers; every slot stays below the number of subnets, so no \<^verbatim>\<open>u64\<close>
  operation on them overflows.
\<close>

section \<open>Plans\<close>

record WireGuardPeerPlan =
  wp_server :: string
  wp_endpoint :: string
  wp_management_address :: Ipv4Addr
  wp_allowed_ips :: "Ipv4Cidr list"

record RoutePlan =
  rp_destination :: Ipv4Cidr
  rp_interface :: string

record FirewallPlan =
  fp_local_container_subnet :: Ipv4Cidr
  fp_remote_container_subnets :: "Ipv4Cidr list"

record ServerPlan =
  sp_name :: string
  sp_public_host :: string
  sp_management_address :: Ipv4Addr
  sp_container_subnet :: Ipv4Cidr
  sp_bridge_gateway :: Ipv4Addr
  sp_dns_address :: Ipv4Addr
  sp_proxy_address :: Ipv4Addr
  sp_wireguard_port :: u16
  sp_wireguard_interface :: string
  sp_bridge_interface :: string
  sp_bridge_name :: string
  sp_peers :: "WireGuardPeerPlan list"
  sp_routes :: "RoutePlan list"
  sp_firewall :: FirewallPlan

record ServiceEndpointPlan =
  ep_identity :: string
  ep_project :: string
  ep_service :: string
  ep_server :: string

record NetworkPlan =
  np_enabled :: bool
  np_project :: string
  np_management_cidr :: Ipv4Cidr
  np_container_cidr :: Ipv4Cidr
  np_servers :: "(string, ServerPlan) btree_map"
  np_endpoints :: "(string, ServiceEndpointPlan) btree_map"
  np_mesh_generation :: string

definition CONTAINER_SERVER_PREFIX :: nat where
  "CONTAINER_SERVER_PREFIX = 21"

definition SERVER_BUCKET_CAPACITY :: nat where
  "SERVER_BUCKET_CAPACITY = 8"

section \<open>Slots\<close>

text \<open>One bucket: its identities in order, at consecutive slots.\<close>

definition assign_bucket :: "nat \<Rightarrow> nat \<Rightarrow> string list \<Rightarrow> (string, nat) btree_map \<Rightarrow> (string, nat) btree_map" where
  "assign_bucket capacity bucket identities assignments =
     foldl (\<lambda>m (offset, identity). bt_insert identity (bucket * capacity + offset) m)
       assignments (enumerate 0 (sort identities))"

fun assign_buckets ::
  "string \<Rightarrow> nat \<Rightarrow> (nat, string list) btree_map \<Rightarrow> (string, nat) btree_map \<Rightarrow>
   (NetworkPlanError, (string, nat) btree_map) result" where
  "assign_buckets kind capacity [] assignments = Inr assignments"
| "assign_buckets kind capacity ((bucket, identities) # rest) assignments =
     (if length identities > capacity then Inl (BucketExhausted kind (of_nat bucket) capacity)
      else assign_buckets kind capacity rest (assign_bucket capacity bucket identities assignments))"

definition bucket_of :: "digest \<Rightarrow> nat \<Rightarrow> string \<Rightarrow> nat" where
  "bucket_of sha256 bucket_count identity = unat (stable_hash sha256 identity) mod bucket_count"

definition allocate_bucketed ::
  "digest \<Rightarrow> string list \<Rightarrow> nat \<Rightarrow> nat \<Rightarrow> string \<Rightarrow> (NetworkPlanError, (string, nat) btree_map) result" where
  "allocate_bucketed sha256 identities total_slots desired_bucket_capacity kind =
     (if identities = [] then Inr []
      else
        let bucket_capacity = min desired_bucket_capacity total_slots;
            bucket_count = total_slots div bucket_capacity in
        assign_buckets kind bucket_capacity
          (bt_group (bucket_of sha256 bucket_count) (\<lambda>identity. identity) identities) [])"

section \<open>Endpoints\<close>

fun scan_service_servers ::
  "string \<Rightarrow> string \<Rightarrow> (string, ServerPlan) btree_map \<Rightarrow> string set \<Rightarrow>
   (string, (string \<times> string) list) btree_map \<Rightarrow> string list \<Rightarrow>
   (NetworkPlanError, (string, (string \<times> string) list) btree_map) result" where
  "scan_service_servers project service_name servers seen acc [] = Inr acc"
| "scan_service_servers project service_name servers seen acc (server_name # rest) =
     (if server_name \<in> seen then Inl (DuplicateServiceServer service_name server_name)
      else if map_of servers server_name = None then Inl (UnknownServiceServer service_name server_name)
      else scan_service_servers project service_name servers (insert server_name seen)
             (bt_push server_name (project @ '':'' @ service_name @ '':'' @ server_name, service_name) acc) rest)"

fun scan_services ::
  "string \<Rightarrow> (string, ServerPlan) btree_map \<Rightarrow> (string, (string \<times> string) list) btree_map \<Rightarrow>
   (string \<times> Service) list \<Rightarrow> (NetworkPlanError, (string, (string \<times> string) list) btree_map) result" where
  "scan_services project servers acc [] = Inr acc"
| "scan_services project servers acc ((service_name, service) # rest) =
     (case scan_service_servers project service_name servers {} acc (svc_servers service) of
        Inl e \<Rightarrow> Inl e
      | Inr acc' \<Rightarrow> scan_services project servers acc' rest)"

definition insert_endpoints ::
  "string \<Rightarrow> (string, (string \<times> string) list) btree_map \<Rightarrow> (string, ServiceEndpointPlan) btree_map" where
  "insert_endpoints project by_server =
     foldl (\<lambda>m (server_name, identities).
         foldl (\<lambda>m (identity, service).
             bt_insert identity
               \<lparr>ep_identity = identity, ep_project = project, ep_service = service, ep_server = server_name\<rparr> m)
           m identities)
       [] by_server"

definition plan_endpoints ::
  "Config \<Rightarrow> (string, ServerPlan) btree_map \<Rightarrow> (NetworkPlanError, (string, ServiceEndpointPlan) btree_map) result" where
  "plan_endpoints config servers =
     (case scan_services (cfg_project config) servers [] (cfg_services config) of
        Inl e \<Rightarrow> Inl e
      | Inr by_server \<Rightarrow> Inr (insert_endpoints (cfg_project config) by_server))"

section \<open>Peers, routes and the firewall\<close>

definition peer_plan :: "ServerPlan \<Rightarrow> WireGuardPeerPlan option" where
  "peer_plan other =
     (case cidr_new (sp_management_address other) 32 of
        Inl _ \<Rightarrow> None
      | Inr host_route \<Rightarrow>
          Some \<lparr>wp_server = sp_name other,
                wp_endpoint = sp_public_host other @ '':'' @ show_nat (unat (sp_wireguard_port other)),
                wp_management_address = sp_management_address other,
                wp_allowed_ips = [host_route, sp_container_subnet other]\<rparr>)"

fun add_peers :: "ServerPlan list \<Rightarrow> ServerPlan \<Rightarrow> ServerPlan option" where
  "add_peers [] server = Some server"
| "add_peers (other # rest) server =
     (if sp_name other = sp_name server then add_peers rest server
      else case peer_plan other of
             None \<Rightarrow> None
           | Some p \<Rightarrow>
               add_peers rest
                 (server\<lparr>sp_peers := sp_peers server @ [p],
                         sp_routes := sp_routes server @
                           [\<lparr>rp_destination = sp_container_subnet other,
                             rp_interface = sp_wireguard_interface server\<rparr>],
                         sp_firewall := (sp_firewall server)
                           \<lparr>fp_remote_container_subnets :=
                             fp_remote_container_subnets (sp_firewall server) @ [sp_container_subnet other]\<rparr>\<rparr>))"

fun map_values_option :: "('v \<Rightarrow> 'w option) \<Rightarrow> ('k \<times> 'v) list \<Rightarrow> ('k \<times> 'w) list option" where
  "map_values_option f [] = Some []"
| "map_values_option f ((k, v) # m) =
     (case f v of
        None \<Rightarrow> None
      | Some w \<Rightarrow> (case map_values_option f m of None \<Rightarrow> None | Some m' \<Rightarrow> Some ((k, w) # m')))"

definition populate_server_networks ::
  "(string, ServerPlan) btree_map \<Rightarrow> (string, ServerPlan) btree_map option" where
  "populate_server_networks servers = map_values_option (add_peers (bt_values servers)) servers"

section \<open>The mesh generation\<close>

definition u64_to_be_bytes :: "nat \<Rightarrow> string" where
  "u64_to_be_bytes n = map (\<lambda>i. char_of (n div 256 ^ (7 - i) mod 256)) [0..<8]"

definition hash_field :: "string \<Rightarrow> string" where
  "hash_field value = u64_to_be_bytes (length value) @ value"

definition mesh_server_fields :: "ServerPlan \<Rightarrow> string" where
  "mesh_server_fields server =
     hash_field (sp_name server) @
     hash_field (sp_public_host server) @
     hash_field (show_ipv4 (sp_management_address server)) @
     hash_field (show_cidr (sp_container_subnet server)) @
     hash_field (sp_wireguard_interface server) @
     hash_field (sp_bridge_interface server) @
     hash_field (sp_bridge_name server) @
     hash_field (show_nat (unat (sp_wireguard_port server))) @
     concat (map (\<lambda>peer.
         hash_field (wp_server peer) @ hash_field (wp_endpoint peer) @
         concat (map (\<lambda>ip. hash_field (show_cidr ip)) (wp_allowed_ips peer))) (sp_peers server))"

definition finish_generation :: "u8 list \<Rightarrow> string" where
  "finish_generation digest = concat (map (\<lambda>byte. show_hex 2 (unat byte)) digest)"

definition mesh_generation_checksum ::
  "digest \<Rightarrow> bool \<Rightarrow> string \<Rightarrow> Ipv4Cidr \<Rightarrow> Ipv4Cidr \<Rightarrow> (string, ServerPlan) btree_map \<Rightarrow> string" where
  "mesh_generation_checksum sha256 enabled project management_cidr container_cidr servers =
     finish_generation (sha256
       (hash_field (if enabled then ''enabled'' else ''disabled'') @
        hash_field project @
        hash_field (show_cidr management_cidr) @
        hash_field (show_cidr container_cidr) @
        concat (map mesh_server_fields (bt_values servers))))"

section \<open>The plan\<close>

definition base_server ::
  "digest \<Rightarrow> Config \<Rightarrow> Ipv4Cidr \<Rightarrow> Ipv4Cidr \<Rightarrow> string \<Rightarrow> nat \<Rightarrow> ServerPlan option" where
  "base_server sha256 config management_cidr container_cidr identity slot =
     (case strip_prefix (cfg_project config @ '':'') identity of None \<Rightarrow> None | Some name \<Rightarrow>
      (case map_of (cfg_servers config) name of None \<Rightarrow> None | Some named_server \<Rightarrow>
      (case subnet container_cidr CONTAINER_SERVER_PREFIX (of_nat slot) of None \<Rightarrow> None | Some container_subnet \<Rightarrow>
      (case address management_cidr (of_nat slot + 1) of None \<Rightarrow> None | Some management_address \<Rightarrow>
      (case (address container_subnet 1, address container_subnet 2, address container_subnet 3) of
         (Some gateway, Some dns, Some proxy) \<Rightarrow>
           Some \<lparr>sp_name = name, sp_public_host = srv_host named_server,
                 sp_management_address = management_address, sp_container_subnet = container_subnet,
                 sp_bridge_gateway = gateway, sp_dns_address = dns, sp_proxy_address = proxy,
                 sp_wireguard_port = wireguard_port sha256 (cfg_project config),
                 sp_wireguard_interface = wireguard_interface_name sha256 (cfg_project config),
                 sp_bridge_interface = bridge_interface_name sha256 (cfg_project config),
                 sp_bridge_name = bridge_network_name sha256 (cfg_project config),
                 sp_peers = [], sp_routes = [],
                 sp_firewall = \<lparr>fp_local_container_subnet = container_subnet, fp_remote_container_subnets = []\<rparr>\<rparr>
       | _ \<Rightarrow> None)))))"

fun base_servers ::
  "(string \<Rightarrow> nat \<Rightarrow> ServerPlan option) \<Rightarrow> (string \<times> nat) list \<Rightarrow>
   (string, ServerPlan) btree_map \<Rightarrow> (string, ServerPlan) btree_map option" where
  "base_servers mk [] m = Some m"
| "base_servers mk ((identity, slot) # rest) m =
     (case mk identity slot of
        None \<Rightarrow> None
      | Some server \<Rightarrow> base_servers mk rest (bt_insert (sp_name server) server m))"

definition server_identity :: "Config \<Rightarrow> string \<Rightarrow> string" where
  "server_identity config name = cfg_project config @ '':'' @ name"

definition finish_plan ::
  "digest \<Rightarrow> Config \<Rightarrow> bool \<Rightarrow> Ipv4Cidr \<Rightarrow> Ipv4Cidr \<Rightarrow> (string, ServerPlan) btree_map \<Rightarrow>
   (NetworkPlanError, NetworkPlan) result option" where
  "finish_plan sha256 config enabled management_cidr container_cidr base =
     (case plan_endpoints config base of
        Inl e \<Rightarrow> Some (Inl e)
      | Inr endpoints \<Rightarrow>
          (case populate_server_networks base of
             None \<Rightarrow> None
           | Some servers \<Rightarrow>
               Some (Inr \<lparr>np_enabled = enabled, np_project = cfg_project config,
                          np_management_cidr = management_cidr, np_container_cidr = container_cidr,
                          np_servers = servers, np_endpoints = endpoints,
                          np_mesh_generation = mesh_generation_checksum sha256 enabled (cfg_project config)
                            management_cidr container_cidr servers\<rparr>)))"

definition plan_servers ::
  "digest \<Rightarrow> Config \<Rightarrow> bool \<Rightarrow> Ipv4Cidr \<Rightarrow> Ipv4Cidr \<Rightarrow> (NetworkPlanError, NetworkPlan) result option" where
  "plan_servers sha256 config enabled management_cidr container_cidr =
     (if overlaps management_cidr container_cidr then
        Some (Inl (OverlappingAddressSpaces (show_cidr management_cidr) (show_cidr container_cidr)))
      else
        case subnet_count container_cidr CONTAINER_SERVER_PREFIX of
          None \<Rightarrow> Some (Inl (ContainerRangeTooSmall (show_cidr container_cidr) CONTAINER_SERVER_PREFIX))
        | Some server_slots \<Rightarrow>
            (let management_slots = u64_saturating_sub (address_count management_cidr) 2 in
             if management_slots < server_slots then
               Some (Inl (ManagementRangeTooSmall (show_cidr management_cidr) management_slots server_slots))
             else
               case allocate_bucketed sha256 (map (\<lambda>(name, _). server_identity config name) (cfg_servers config))
                      (unat server_slots) SERVER_BUCKET_CAPACITY ''servers'' of
                 Inl e \<Rightarrow> Some (Inl e)
               | Inr assignments \<Rightarrow>
                   (case base_servers (base_server sha256 config management_cidr container_cidr) assignments [] of
                      None \<Rightarrow> None
                    | Some base \<Rightarrow> finish_plan sha256 config enabled management_cidr container_cidr base)))"

definition plan :: "digest \<Rightarrow> Config \<Rightarrow> (NetworkPlanError, NetworkPlan) result option" where
  "plan sha256 config =
     (let (default_management_cidr, default_container_cidr) = project_cidrs sha256 (cfg_project config);
          management_text = (case cfg_network config of
              Some n \<Rightarrow> (case net_management_cidr n of Some t \<Rightarrow> t | None \<Rightarrow> default_management_cidr)
            | None \<Rightarrow> default_management_cidr);
          container_text = (case cfg_network config of
              Some n \<Rightarrow> (case net_container_cidr n of Some t \<Rightarrow> t | None \<Rightarrow> default_container_cidr)
            | None \<Rightarrow> default_container_cidr);
          enabled = (case cfg_network config of Some n \<Rightarrow> net_enabled n | None \<Rightarrow> True) in
      case parse_cidr management_text of
        Inl e \<Rightarrow> Some (Inl e)
      | Inr management_cidr \<Rightarrow>
          (case parse_cidr container_text of
             Inl e \<Rightarrow> Some (Inl e)
           | Inr container_cidr \<Rightarrow> plan_servers sha256 config enabled management_cidr container_cidr))"

section \<open>Selecting hosts and services\<close>

fun select_names ::
  "(string \<Rightarrow> string list) \<Rightarrow> (string \<Rightarrow> NetworkPlanError) \<Rightarrow> string list \<Rightarrow> string list \<Rightarrow>
   (NetworkPlanError, string list) result" where
  "select_names found err [] selected = Inr selected"
| "select_names found err (flt # rest) selected =
     (if found flt = [] then Inl (err flt)
      else select_names found err rest (selected @ found flt))"

definition select_hosts :: "NetworkPlan \<Rightarrow> string list \<Rightarrow> (NetworkPlanError, ServerPlan list) result" where
  "select_hosts p filters =
     (if filters = [] then Inr (bt_values (np_servers p))
      else
        case select_names
               (\<lambda>f. map fst [(name, server) \<leftarrow> np_servers p.
                     matches_pattern name f \<or> matches_pattern (sp_public_host server) f])
               UnmatchedHostFilter filters [] of
          Inl e \<Rightarrow> Inl e
        | Inr selected \<Rightarrow>
            Inr (List.map_filter (map_of (np_servers p)) (remdups (sort selected))))"

definition select_endpoints :: "NetworkPlan \<Rightarrow> string list \<Rightarrow> (NetworkPlanError, ServiceEndpointPlan list) result" where
  "select_endpoints p filters =
     (if filters = [] then Inr (bt_values (np_endpoints p))
      else
        case select_names
               (\<lambda>f. map fst [(identity, endpoint) \<leftarrow> np_endpoints p. matches_pattern (ep_service endpoint) f])
               UnmatchedServiceFilter filters [] of
          Inl e \<Rightarrow> Inl e
        | Inr selected \<Rightarrow>
            Inr (List.map_filter (map_of (np_endpoints p)) (remdups (sort selected))))"

section \<open>Slots: the allocation in closed form\<close>

definition rank_in :: "'a::linorder set \<Rightarrow> 'a \<Rightarrow> nat" where
  "rank_in A x = card {y \<in> A. y < x}"

lemma rank_nth_sort:
  assumes "distinct xs" "i < length xs"
  shows "rank_in (set xs) (sort xs ! i) = i"
proof -
  let ?s = "sort xs"
  have sw: "sorted_wrt (<) ?s" using assms(1) by (simp add: strict_sorted_iff)
  have len: "i < length ?s" using assms(2) by simp
  have "{y \<in> set xs. y < ?s ! i} = set (take i ?s)"
  proof (intro set_eqI iffI)
    fix y assume "y \<in> {y \<in> set xs. y < ?s ! i}"
    then obtain j where j: "j < length ?s" "y = ?s ! j" "?s ! j < ?s ! i"
      by (metis (mono_tags, lifting) in_set_conv_nth mem_Collect_eq set_sort)
    have "j < i"
    proof (rule ccontr)
      assume "\<not> j < i"
      then have "?s ! i \<le> ?s ! j" using sorted_nth_mono [of ?s i j] j(1) by simp
      with j(3) show False by simp
    qed
    then show "y \<in> set (take i ?s)" using j(1,2) by (auto simp: in_set_conv_nth intro!: exI [of _ j])
  next
    fix y assume "y \<in> set (take i ?s)"
    then obtain j where j: "j < i" "y = ?s ! j" using len by (auto simp: in_set_conv_nth)
    then have "?s ! j < ?s ! i" using sorted_wrt_nth_less [OF sw] len by simp
    then show "y \<in> {y \<in> set xs. y < ?s ! i}"
      using j len by (metis (mono_tags, lifting) less_trans mem_Collect_eq nth_mem set_sort)
  qed
  then have "rank_in (set xs) (?s ! i) = card (set (take i ?s))" by (simp add: rank_in_def)
  also have "\<dots> = length (take i ?s)" by (rule distinct_card) (use assms(1) in simp)
  also have "\<dots> = i" using len by simp
  finally show ?thesis .
qed

lemma rank_less: "finite A \<Longrightarrow> x \<in> A \<Longrightarrow> rank_in A x < card A"
  unfolding rank_in_def by (rule psubset_card_mono) auto

lemma rank_inj: "finite A \<Longrightarrow> x \<in> A \<Longrightarrow> y \<in> A \<Longrightarrow> rank_in A x = rank_in A y \<Longrightarrow> x = y"
proof (rule ccontr)
  have mono: "rank_in A a < rank_in A b" if "finite A" "a \<in> A" "a < b" for a b
    unfolding rank_in_def using that by (intro psubset_card_mono) auto
  assume "finite A" "x \<in> A" "y \<in> A" "rank_in A x = rank_in A y" "x \<noteq> y"
  with mono [of x y] mono [of y x] show False by (cases x y rule: linorder_cases) auto
qed

lemma assign_bucket_fold:
  "assign_bucket capacity bucket ids m =
     foldl (\<lambda>m e. bt_insert (snd e) (bucket * capacity + fst e) m) m (enumerate 0 (sort ids))"
  by (simp add: assign_bucket_def case_prod_beta')

lemma assign_bucket_wf: "bt_wf m \<Longrightarrow> bt_wf (assign_bucket capacity bucket ids m)"
  unfolding assign_bucket_fold by (rule bt.wf_fold_ins)

lemma assign_bucket_get:
  assumes "distinct ids"
  shows "map_of (assign_bucket capacity bucket ids m) x =
    (if x \<in> set ids then Some (bucket * capacity + rank_in (set ids) x) else map_of m x)"
proof (cases "x \<in> set ids")
  case True
  then obtain i where i: "i < length ids" "sort ids ! i = x"
    by (metis in_set_conv_nth length_sort set_sort)
  then have mem: "(i, x) \<in> set (enumerate 0 (sort ids))" by (simp add: in_set_enumerate_eq)
  have dist: "distinct (map snd (enumerate 0 (sort ids)))" using assms by simp
  show ?thesis
    using bt.get_fold_ins [OF dist mem, of "\<lambda>e. bucket * capacity + fst e" m]
      rank_nth_sort [OF assms i(1)] i True
    by (simp add: assign_bucket_fold)
next
  case False
  then have "x \<notin> snd ` set (enumerate 0 (sort ids))"
    by (metis list.set_map map_snd_enumerate set_sort)
  then show ?thesis using False by (simp add: assign_bucket_fold bt.get_fold_ins_notin)
qed

lemma assign_buckets_wf: "assign_buckets kind c bs m = Inr r \<Longrightarrow> bt_wf m \<Longrightarrow> bt_wf r"
  by (induction kind c bs m rule: assign_buckets.induct) (auto split: if_splits intro: assign_bucket_wf)

lemma assign_buckets_Inr: "(\<exists>r. assign_buckets kind c bs m = Inr r) \<longleftrightarrow> (\<forall>e \<in> set bs. length (snd e) \<le> c)"
  by (induction kind c bs m rule: assign_buckets.induct) auto

lemma assign_buckets_Inl:
  "assign_buckets kind c bs m = Inl e \<Longrightarrow> \<exists>b ids. (b, ids) \<in> set bs \<and> c < length ids \<and> e = BucketExhausted kind (of_nat b) c"
  by (induction kind c bs m rule: assign_buckets.induct) (auto split: if_splits)

lemma assign_buckets_get:
  assumes "assign_buckets kind c bs m = Inr r" "distinct (map fst bs)"
    and "\<And>b ids. (b, ids) \<in> set bs \<Longrightarrow> distinct ids \<and> (\<forall>x \<in> set ids. f x = b)"
  shows "map_of r x =
    (case map_of bs (f x) of
       Some ids \<Rightarrow> (if x \<in> set ids then Some (f x * c + rank_in (set ids) x) else map_of m x)
     | None \<Rightarrow> map_of m x)"
  using assms
proof (induction kind c bs m rule: assign_buckets.induct)
  case (2 kind c b ids bs m)
  have ids: "distinct ids" "\<forall>x \<in> set ids. f x = b" using "2.prems"(3) [of b ids] by auto
  have run: "assign_buckets kind c bs (assign_bucket c b ids m) = Inr r" and len: "\<not> c < length ids"
    using "2.prems"(1) by (auto split: if_splits)
  have IH: "map_of r x =
    (case map_of bs (f x) of
       Some ids' \<Rightarrow> (if x \<in> set ids' then Some (f x * c + rank_in (set ids') x)
         else map_of (assign_bucket c b ids m) x)
     | None \<Rightarrow> map_of (assign_bucket c b ids m) x)"
    using "2.IH" [OF len run] "2.prems"(2,3) by auto
  show ?case
  proof (cases "f x = b")
    case True
    then have "map_of bs (f x) = None" using "2.prems"(2) by (auto simp: map_of_eq_None_iff)
    with IH True show ?thesis by (simp add: assign_bucket_get [OF ids(1)])
  next
    case False
    then have "x \<notin> set ids" using ids(2) by auto
    then have "map_of (assign_bucket c b ids m) x = map_of m x" by (simp add: assign_bucket_get [OF ids(1)])
    with IH False show ?thesis by (auto split: option.splits)
  qed
qed simp

abbreviation capacity_for :: "nat \<Rightarrow> nat \<Rightarrow> nat" where
  "capacity_for slots desired \<equiv> min desired slots"

abbreviation bucket_for :: "digest \<Rightarrow> nat \<Rightarrow> nat \<Rightarrow> string \<Rightarrow> nat" where
  "bucket_for sha256 slots desired \<equiv> bucket_of sha256 (slots div capacity_for slots desired)"

text \<open>The slot of an identity: its bucket's first slot plus its rank among the identities there.\<close>

definition slot_in :: "digest \<Rightarrow> nat \<Rightarrow> nat \<Rightarrow> string set \<Rightarrow> string \<Rightarrow> nat" where
  "slot_in sha256 slots desired A x =
     bucket_for sha256 slots desired x * capacity_for slots desired +
     rank_in {y \<in> A. bucket_for sha256 slots desired y = bucket_for sha256 slots desired x} x"

lemma allocate_bucketed_get:
  assumes "allocate_bucketed sha256 ids slots desired kind = Inr m" "distinct ids"
  shows "bt_wf m"
    and "map_of m x = (if x \<in> set ids then Some (slot_in sha256 slots desired (set ids) x) else None)"
    and "card {y \<in> set ids. bucket_for sha256 slots desired y = b} \<le> capacity_for slots desired"
proof -
  let ?c = "capacity_for slots desired" and ?f = "bucket_for sha256 slots desired"
  let ?g = "bt_group ?f (\<lambda>i. i) ids"
  have run: "assign_buckets kind ?c ?g [] = Inr m"
    using assms(1) by (cases "ids = []") (auto simp: allocate_bucketed_def Let_def bt_group_def)
  have grp: "map_of ?g k = (if k \<in> ?f ` set ids then Some (filter (\<lambda>y. ?f y = k) ids) else None)" for k
    by (simp add: bt_get_group)
  have mem: "distinct xs \<and> (\<forall>y \<in> set xs. ?f y = k)" if "(k, xs) \<in> set ?g" for k xs
    using that grp [of k] assms(2) bt_get_mem [OF bt_wf_group, of ?f "\<lambda>i. i" ids k xs]
    by (auto split: if_splits)
  show "bt_wf m" using run by (rule assign_buckets_wf) simp
  have "map_of m x = (case map_of ?g (?f x) of
       Some xs \<Rightarrow> (if x \<in> set xs then Some (?f x * ?c + rank_in (set xs) x) else None) | None \<Rightarrow> None)"
    using assign_buckets_get [OF run bt_wf_distinct [OF bt_wf_group] mem, of x]
    by (auto split: option.splits)
  then show "map_of m x = (if x \<in> set ids then Some (slot_in sha256 slots desired (set ids) x) else None)"
    by (auto simp: grp slot_in_def)
  have len: "\<forall>e \<in> set ?g. length (snd e) \<le> ?c" using run assign_buckets_Inr by blast
  show "card {y \<in> set ids. ?f y = b} \<le> ?c"
  proof (cases "b \<in> ?f ` set ids")
    case True
    then have "(b, filter (\<lambda>y. ?f y = b) ids) \<in> set ?g" using grp map_of_SomeD by metis
    then have "length (filter (\<lambda>y. ?f y = b) ids) \<le> ?c" using len by force
    moreover have "card (set (filter (\<lambda>y. ?f y = b) ids)) \<le> length (filter (\<lambda>y. ?f y = b) ids)"
      by (rule card_length)
    ultimately show ?thesis by simp
  next
    case False
    then have "{y \<in> set ids. ?f y = b} = {}" by auto
    then show ?thesis by (simp only: card.empty)
  qed
qed

lemma slot_bounds:
  assumes "allocate_bucketed sha256 ids slots desired kind = Inr m" "distinct ids"
    and "0 < slots" "0 < desired" "x \<in> set ids"
  shows "slot_in sha256 slots desired (set ids) x < slots"
    and "y \<in> set ids \<Longrightarrow> slot_in sha256 slots desired (set ids) x = slot_in sha256 slots desired (set ids) y \<Longrightarrow> x = y"
proof -
  let ?c = "capacity_for slots desired" and ?f = "bucket_for sha256 slots desired"
  let ?A = "\<lambda>z. {w \<in> set ids. ?f w = ?f z}"
  have c: "0 < ?c" using assms(3,4) by simp
  have rank: "rank_in (?A z) z < ?c" if "z \<in> set ids" for z
    using rank_less [of "?A z" z] allocate_bucketed_get(3) [OF assms(1,2), of "?f z"] that by force
  have "0 < slots div ?c" using assms(3,4) by (simp add: div_greater_zero_iff)
  then have "?f x < slots div ?c" by (simp add: bucket_of_def)
  then have "(?f x + 1) * ?c \<le> slots div ?c * ?c" by (intro mult_le_mono1) simp
  also have "\<dots> \<le> slots" by simp
  finally have "(?f x + 1) * ?c \<le> slots" .
  then have "?f x * ?c + ?c \<le> slots" by (simp only: add_mult_distrib mult_1)
  then show "slot_in sha256 slots desired (set ids) x < slots"
    using rank [OF assms(5)] unfolding slot_in_def by linarith
  assume y: "y \<in> set ids" and eq: "slot_in sha256 slots desired (set ids) x = slot_in sha256 slots desired (set ids) y"
  have div: "slot_in sha256 slots desired (set ids) z div ?c = ?f z \<and>
     slot_in sha256 slots desired (set ids) z mod ?c = rank_in (?A z) z" if "z \<in> set ids" for z
    using rank [OF that] c by (simp add: slot_in_def)
  have f: "?f x = ?f y" using div [OF assms(5)] div [OF y] eq by metis
  have "rank_in (?A x) x = rank_in (?A y) y" using div [OF assms(5)] div [OF y] eq by metis
  with f rank_inj [of "?A x" x y] assms(5) y show "x = y" by simp
qed

section \<open>The servers of a plan\<close>

lemma server_identity_strip: "strip_prefix (cfg_project config @ '':'') (server_identity config name) = Some name"
  by (simp add: server_identity_def strip_prefix_Some)

lemma server_identity_inj: "server_identity config a = server_identity config b \<longleftrightarrow> a = b"
  by (simp add: server_identity_def)

text \<open>What \<open>plan\<close> has established when it starts to place servers.\<close>

definition ranges_ok :: "Ipv4Cidr \<Rightarrow> Ipv4Cidr \<Rightarrow> u64 \<Rightarrow> bool" where
  "ranges_ok management_cidr container_cidr server_slots \<longleftrightarrow>
     cidr_wf management_cidr \<and> cidr_wf container_cidr \<and> \<not> overlaps management_cidr container_cidr \<and>
     subnet_count container_cidr CONTAINER_SERVER_PREFIX = Some server_slots \<and>
     server_slots \<le> u64_saturating_sub (address_count management_cidr) 2"

lemma ranges_ok_slots:
  assumes "ranges_ok mgmt cont n"
  shows "0 < unat n" "unat n + 2 \<le> 2 ^ host_bits mgmt" "unat n \<le> 2 ^ 21"
proof -
  have pc: "prefix cont \<le> 21" and n: "n = push_bit (21 - prefix cont) 1"
    using assms by (auto simp: ranges_ok_def subnet_count_def CONTAINER_SERVER_PREFIX_def split: if_splits)
  have un: "unat n = 2 ^ (21 - prefix cont)" unfolding n by (rule unat_push_bit_1) simp
  then show pos: "0 < unat n" by simp
  show "unat n \<le> 2 ^ 21" unfolding un by (rule power_increasing) auto
  have "unat n \<le> 2 ^ host_bits mgmt - 2"
    using assms unfolding ranges_ok_def word_le_nat_alt unat_u64_saturating_sub unat_address_count by simp
  then show "unat n + 2 \<le> 2 ^ host_bits mgmt" using pos by linarith
qed

lemma unat_u64_small: "k < 2 ^ 32 \<Longrightarrow> unat (of_nat k :: u64) = k" "k < 2 ^ 32 \<Longrightarrow> unat (of_nat k + 1 :: u64) = k + 1"
  by (simp_all add: unat_of_nat unat_word_ariths)

lemma base_server_total:
  assumes "ranges_ok mgmt cont n" "map_of (cfg_servers config) name = Some srv" "slot < unat n"
  obtains sub mg gw dns px server where
    "base_server sha256 config mgmt cont (server_identity config name) slot = Some server"
    "subnet cont 21 (of_nat slot) = Some sub" "address mgmt (of_nat slot + 1) = Some mg"
    "address sub 1 = Some gw" "address sub 2 = Some dns" "address sub 3 = Some px"
    "sp_name server = name" "sp_public_host server = srv_host srv" "sp_management_address server = mg"
    "sp_container_subnet server = sub" "sp_bridge_gateway server = gw" "sp_dns_address server = dns"
    "sp_proxy_address server = px" "sp_peers server = []" "sp_routes server = []"
    "sp_firewall server = \<lparr>fp_local_container_subnet = sub, fp_remote_container_subnets = []\<rparr>"
    "sp_wireguard_interface server = wireguard_interface_name sha256 (cfg_project config)"
    "sp_wireguard_port server = wireguard_port sha256 (cfg_project config)"
proof -
  note rs = ranges_ok_slots [OF assms(1)]
  have small: "slot < 2 ^ 32" using assms(3) rs(3) by simp
  have lt: "(of_nat slot :: u64) < n" using assms(3) by (simp add: word_less_nat_alt unat_u64_small [OF small])
  obtain sub where sub: "subnet cont 21 (of_nat slot) = Some sub"
    using subnet_total [of cont 21 n "of_nat slot"] lt assms(1) by (auto simp: ranges_ok_def CONTAINER_SERVER_PREFIX_def)
  have wf: "cidr_wf cont" using assms(1) by (simp add: ranges_ok_def)
  note sd = subnet_SomeD [OF wf sub]
  have hb: "host_bits sub = 11" using sd(2) by simp
  obtain mg where mg: "address mgmt (of_nat slot + 1) = Some mg"
    using address_total [of "of_nat slot + 1" mgmt] unat_u64_small(2) [OF small] rs(2) assms(3) by fastforce
  obtain gw where gw: "address sub 1 = Some gw" using address_total [of 1 sub] hb by auto
  obtain dns where dns: "address sub 2 = Some dns" using address_total [of 2 sub] hb by auto
  obtain px where px: "address sub 3 = Some px" using address_total [of 3 sub] hb by auto
  show thesis
    by (rule that [OF _ sub mg gw dns px],
        simp add: base_server_def server_identity_strip assms(2) CONTAINER_SERVER_PREFIX_def sub mg gw dns px)
      simp_all
qed

lemma base_servers_fold:
  assumes "\<And>e. e \<in> set as \<Longrightarrow> mk (fst e) (snd e) = Some (g e)"
  shows "base_servers mk as m = Some (foldl (\<lambda>m e. bt_insert (sp_name (g e)) (g e) m) m as)"
  using assms by (induction mk as m rule: base_servers.induct) auto

text \<open>The servers \<open>base_servers\<close> builds: one per configured name, at its own slot.\<close>

definition placed ::
  "digest \<Rightarrow> Config \<Rightarrow> Ipv4Cidr \<Rightarrow> Ipv4Cidr \<Rightarrow> u64 \<Rightarrow> (string, ServerPlan) btree_map \<Rightarrow> (string \<Rightarrow> nat) \<Rightarrow> bool" where
  "placed sha256 config mgmt cont n base slot \<longleftrightarrow>
     ranges_ok mgmt cont n \<and> bt_wf base \<and>
     (\<forall>name. map_of base name =
        (if name \<in> fst ` set (cfg_servers config)
         then base_server sha256 config mgmt cont (server_identity config name) (slot name) else None)) \<and>
     (\<forall>name \<in> fst ` set (cfg_servers config). slot name < unat n) \<and>
     inj_on slot (fst ` set (cfg_servers config)) \<and>
     slot = (\<lambda>name. slot_in sha256 (unat n) SERVER_BUCKET_CAPACITY
       (server_identity config ` fst ` set (cfg_servers config)) (server_identity config name))"

lemma base_servers_placed:
  assumes ok: "ranges_ok mgmt cont n" and dist: "distinct (map fst (cfg_servers config))"
    and alloc: "allocate_bucketed sha256 (map (\<lambda>(name, _). server_identity config name) (cfg_servers config))
      (unat n) SERVER_BUCKET_CAPACITY ''servers'' = Inr as"
  shows "\<exists>base slot. base_servers (base_server sha256 config mgmt cont) as [] = Some base \<and>
    placed sha256 config mgmt cont n base slot"
proof -
  let ?ids = "map (\<lambda>(name, _). server_identity config name) (cfg_servers config)"
  let ?N = "fst ` set (cfg_servers config)" and ?I = "server_identity config"
  let ?mk = "base_server sha256 config mgmt cont"
  have ids: "?ids = map ?I (map fst (cfg_servers config))" by (auto simp: case_prod_beta')
  have set_ids: "set ?ids = ?I ` ?N" by force
  have dids: "distinct ?ids" unfolding ids
    using dist by (subst distinct_map) (simp add: inj_on_def server_identity_inj)
  define slot where "slot name = slot_in sha256 (unat n) SERVER_BUCKET_CAPACITY (set ?ids) (?I name)" for name
  define g where "g e = the (?mk (fst e) (snd e))" for e
  note get = allocate_bucketed_get [OF alloc dids]
  have pos: "0 < unat n" "0 < SERVER_BUCKET_CAPACITY"
    using ranges_ok_slots(1) [OF ok] by (simp_all add: SERVER_BUCKET_CAPACITY_def)
  note bounds = slot_bounds [OF alloc dids pos]
  have lt: "slot name < unat n" if "name \<in> ?N" for name
    unfolding slot_def by (rule bounds(1)) (use that set_ids in blast)
  have as: "(i, k) \<in> set as \<longleftrightarrow> (\<exists>name \<in> ?N. i = ?I name \<and> k = slot name)" for i k
    unfolding bt_get_mem [OF get(1), symmetric] get(2) set_ids slot_def by auto
  have mk: "?mk (?I name) (slot name) = Some (g (?I name, slot name)) \<and> sp_name (g (?I name, slot name)) = name"
    if N: "name \<in> ?N" for name
  proof -
    obtain srv where "map_of (cfg_servers config) name = Some srv"
      using N by (metis map_of_eq_None_iff not_Some_eq)
    from base_server_total [OF ok this lt [OF N], of sha256] show ?thesis
      unfolding g_def by (metis fst_conv option.sel snd_conv)
  qed
  let ?fold = "foldl (\<lambda>m e. bt_insert (sp_name (g e)) (g e) m) [] as"
  have run: "base_servers ?mk as [] = Some ?fold"
    by (rule base_servers_fold) (use as mk in force)
  have mem: "\<exists>a. e = (?I a, slot a) \<and> sp_name (g e) = a" if "e \<in> set as" for e
    using that as [of "fst e" "snd e"] mk by (metis prod.collapse)
  have inj: "inj_on (\<lambda>e. sp_name (g e)) (set as)"
    by (rule inj_onI) (metis mem)
  have dm: "distinct (map (\<lambda>e. sp_name (g e)) as)"
    using inj bt_wf_distinct [OF get(1)] by (simp add: distinct_map)
  have look: "map_of ?fold name = (if name \<in> ?N then ?mk (?I name) (slot name) else None)" for name
  proof (cases "name \<in> ?N")
    case True
    then have "(?I name, slot name) \<in> set as" using as by blast
    from bt.get_fold_ins [OF dm this, of g] show ?thesis using mk [OF True] True by simp
  next
    case False
    then have "name \<notin> (\<lambda>e. sp_name (g e)) ` set as" using as mk by force
    then show ?thesis using False by (simp add: bt.get_fold_ins_notin)
  qed
  have uniq: "a = b" if "a \<in> ?N" "b \<in> ?N" "slot a = slot b" for a b
    using bounds(2) [of "?I a" "?I b"] that set_ids by (auto simp: slot_def server_identity_inj)
  have "slot = (\<lambda>name. slot_in sha256 (unat n) SERVER_BUCKET_CAPACITY (?I ` ?N) (?I name))"
    unfolding slot_def set_ids ..
  then have "placed sha256 config mgmt cont n ?fold slot"
    using ok look lt uniq unfolding placed_def inj_on_def by (simp add: bt.wf_fold_ins)
  with run show ?thesis by blast
qed

section \<open>The mesh of a plan\<close>

definition host_route :: "Ipv4Addr \<Rightarrow> Ipv4Cidr" where
  "host_route a = Ipv4Cidr a 32"

lemma cidr_new_host: "cidr_new a 32 = Inr (host_route a)"
  by (simp add: cidr_new_Inr host_route_def cidr_wf_iff)

definition peer_of :: "ServerPlan \<Rightarrow> WireGuardPeerPlan" where
  "peer_of other =
     \<lparr>wp_server = sp_name other,
      wp_endpoint = sp_public_host other @ '':'' @ show_nat (unat (sp_wireguard_port other)),
      wp_management_address = sp_management_address other,
      wp_allowed_ips = [host_route (sp_management_address other), sp_container_subnet other]\<rparr>"

definition others_of :: "ServerPlan \<Rightarrow> ServerPlan list \<Rightarrow> ServerPlan list" where
  "others_of server all = filter (\<lambda>x. sp_name x \<noteq> sp_name server) all"

definition meshed :: "ServerPlan list \<Rightarrow> ServerPlan \<Rightarrow> ServerPlan" where
  "meshed all server =
     server\<lparr>sp_peers := sp_peers server @ map peer_of (others_of server all),
            sp_routes := sp_routes server @
              map (\<lambda>x. \<lparr>rp_destination = sp_container_subnet x, rp_interface = sp_wireguard_interface server\<rparr>)
                (others_of server all),
            sp_firewall := (sp_firewall server)
              \<lparr>fp_remote_container_subnets := fp_remote_container_subnets (sp_firewall server) @
                 map sp_container_subnet (others_of server all)\<rparr>\<rparr>"

lemma peer_plan_total: "peer_plan other = Some (peer_of other)"
  by (simp add: peer_plan_def cidr_new_host peer_of_def)

lemma add_peers_meshed: "add_peers all server = Some (meshed all server)"
proof (induction all server rule: add_peers.induct)
  case (2 other rest server)
  then show ?case by (cases "sp_name other = sp_name server") (simp_all add: peer_plan_total meshed_def others_of_def)
qed (simp add: meshed_def others_of_def)

lemma map_values_option_Some: "map_values_option (\<lambda>v. Some (h v)) m = Some (map (\<lambda>(k, v). (k, h v)) m)"
  by (induction "\<lambda>v. Some (h v)" m rule: map_values_option.induct) auto

lemma populate_meshed: "populate_server_networks base = Some (map (\<lambda>(k, v). (k, meshed (bt_values base) v)) base)"
proof -
  have "add_peers (bt_values base) = (\<lambda>v. Some (meshed (bt_values base) v))"
    by (rule ext) (rule add_peers_meshed)
  then show ?thesis by (simp add: populate_server_networks_def map_values_option_Some)
qed

lemma map_of_map_values: "map_of (map (\<lambda>(k, v). (k, h v)) m) k = map_option h (map_of m k)"
  by (simp add: map_of_map)

lemma finish_plan_total: "finish_plan sha256 config enabled mgmt cont base \<noteq> None"
  by (simp add: finish_plan_def populate_meshed split: sum.splits)

section \<open>Runs of the planner\<close>

lemma plan_total:
  assumes "distinct (map fst (cfg_servers config))"
  shows "plan sha256 config \<noteq> None"
proof -
  have "plan_servers sha256 config enabled mgmt cont \<noteq> None" if wf: "cidr_wf mgmt" "cidr_wf cont" for enabled mgmt cont
  proof (cases "\<exists>n as. ranges_ok mgmt cont n \<and>
      allocate_bucketed sha256 (map (\<lambda>(name, _). server_identity config name) (cfg_servers config))
        (unat n) SERVER_BUCKET_CAPACITY ''servers'' = Inr as \<and>
      subnet_count cont CONTAINER_SERVER_PREFIX = Some n")
    case True
    then obtain n as where ok: "ranges_ok mgmt cont n" and al: "allocate_bucketed sha256
      (map (\<lambda>(name, _). server_identity config name) (cfg_servers config)) (unat n) SERVER_BUCKET_CAPACITY ''servers'' = Inr as"
      by blast
    obtain base where "base_servers (base_server sha256 config mgmt cont) as [] = Some base"
      using base_servers_placed [OF ok assms al] by blast
    with ok al finish_plan_total show ?thesis by (simp add: plan_servers_def ranges_ok_def Let_def not_less)
  next
    case False
    with wf show ?thesis
      by (auto simp: plan_servers_def ranges_ok_def Let_def not_less split: option.splits sum.splits)
  qed
  then show ?thesis
    by (auto simp: plan_def Let_def dest!: parse_cidr_wf split: sum.splits prod.splits)
qed

lemma plan_servers_InrE:
  assumes "plan_servers sha256 config enabled mgmt cont = Some (Inr p)" "cidr_wf mgmt" "cidr_wf cont"
  obtains n as base where "ranges_ok mgmt cont n"
    "allocate_bucketed sha256 (map (\<lambda>(name, _). server_identity config name) (cfg_servers config))
      (unat n) SERVER_BUCKET_CAPACITY ''servers'' = Inr as"
    "base_servers (base_server sha256 config mgmt cont) as [] = Some base"
    "plan_endpoints config base = Inr (np_endpoints p)"
    "np_management_cidr p = mgmt" "np_container_cidr p = cont" "np_project p = cfg_project config"
    "np_enabled p = enabled"
    "np_servers p = map (\<lambda>(k, v). (k, meshed (bt_values base) v)) base"
    "np_mesh_generation p = mesh_generation_checksum sha256 enabled (cfg_project config) mgmt cont (np_servers p)"
  using assms
  by (auto simp: plan_servers_def ranges_ok_def Let_def not_less finish_plan_def populate_meshed
      split: option.splits sum.splits if_splits)

lemma plan_InrE:
  assumes "plan sha256 config = Some (Inr p)"
  obtains enabled where
    "plan_servers sha256 config enabled (np_management_cidr p) (np_container_cidr p) = Some (Inr p)"
    "cidr_wf (np_management_cidr p)" "cidr_wf (np_container_cidr p)"
proof -
  from assms obtain enabled mgmt cont where run: "plan_servers sha256 config enabled mgmt cont = Some (Inr p)"
    and wf: "cidr_wf mgmt" "cidr_wf cont"
    by (auto simp: plan_def Let_def dest!: parse_cidr_wf split: sum.splits prod.splits)
  moreover have "np_management_cidr p = mgmt" "np_container_cidr p = cont"
    using plan_servers_InrE [OF run wf] by metis+
  ultimately show thesis using that by blast
qed

text \<open>Each server of a plan, before and after the mesh is added.\<close>

definition planned :: "digest \<Rightarrow> Config \<Rightarrow> NetworkPlan \<Rightarrow> (string, ServerPlan) btree_map \<Rightarrow> u64 \<Rightarrow> (string \<Rightarrow> nat) \<Rightarrow> bool" where
  "planned sha256 config p base n slot \<longleftrightarrow>
     placed sha256 config (np_management_cidr p) (np_container_cidr p) n base slot \<and>
     np_servers p = map (\<lambda>(k, v). (k, meshed (bt_values base) v)) base \<and>
     plan_endpoints config base = Inr (np_endpoints p)"

lemma plan_planned:
  assumes "plan sha256 config = Some (Inr p)" "distinct (map fst (cfg_servers config))"
  obtains base n slot where "planned sha256 config p base n slot"
proof -
  obtain enabled where run: "plan_servers sha256 config enabled (np_management_cidr p) (np_container_cidr p) = Some (Inr p)"
    and wf: "cidr_wf (np_management_cidr p)" "cidr_wf (np_container_cidr p)"
    using plan_InrE [OF assms(1)] by metis
  obtain n as base where ok: "ranges_ok (np_management_cidr p) (np_container_cidr p) n"
    and al: "allocate_bucketed sha256 (map (\<lambda>(name, _). server_identity config name) (cfg_servers config))
      (unat n) SERVER_BUCKET_CAPACITY ''servers'' = Inr as"
    and bs: "base_servers (base_server sha256 config (np_management_cidr p) (np_container_cidr p)) as [] = Some base"
    and ep: "plan_endpoints config base = Inr (np_endpoints p)"
    and sv: "np_servers p = map (\<lambda>(k, v). (k, meshed (bt_values base) v)) base"
    by (rule plan_servers_InrE [OF run wf])
  obtain slot where "placed sha256 config (np_management_cidr p) (np_container_cidr p) n base slot"
    using base_servers_placed [OF ok assms(2) al] bs by auto
  with ep sv have "planned sha256 config p base n slot" by (simp add: planned_def)
  then show thesis by (rule that)
qed

lemma planned_server:
  assumes "planned sha256 config p base n slot" "map_of (np_servers p) name = Some s"
  obtains sub b srv where "name \<in> fst ` set (cfg_servers config)" "slot name < unat n"
    "map_of (cfg_servers config) name = Some srv" "sp_name b = name" "map_of base name = Some b"
    "s = meshed (bt_values base) b" "sp_name s = name" "sp_public_host s = srv_host srv"
    "subnet (np_container_cidr p) 21 (of_nat (slot name)) = Some sub" "sp_container_subnet s = sub"
    "address (np_management_cidr p) (of_nat (slot name) + 1) = Some (sp_management_address s)"
    "address sub 1 = Some (sp_bridge_gateway s)" "address sub 2 = Some (sp_dns_address s)"
    "address sub 3 = Some (sp_proxy_address s)" "sp_peers b = []" "sp_routes b = []"
    "sp_firewall b = \<lparr>fp_local_container_subnet = sub, fp_remote_container_subnets = []\<rparr>"
    "sp_wireguard_interface b = wireguard_interface_name sha256 (cfg_project config)"
proof -
  obtain b where b: "map_of base name = Some b" "s = meshed (bt_values base) b"
    using assms by (auto simp: planned_def placed_def map_of_map_values)
  then have N: "name \<in> fst ` set (cfg_servers config)" using assms(1) by (auto simp: planned_def placed_def split: if_splits)
  then obtain srv where srv: "map_of (cfg_servers config) name = Some srv"
    by (metis map_of_eq_None_iff not_Some_eq)
  have lt: "slot name < unat n" and ok: "ranges_ok (np_management_cidr p) (np_container_cidr p) n"
    using assms(1) N by (auto simp: planned_def placed_def)
  have mk: "base_server sha256 config (np_management_cidr p) (np_container_cidr p) (server_identity config name) (slot name) = Some b"
    using b(1) assms(1) N by (simp add: planned_def placed_def)
  show thesis
    by (rule base_server_total [OF ok srv lt, of sha256], rule that [OF N lt srv])
      (use b mk in \<open>simp_all add: meshed_def\<close>)
qed

section \<open>Endpoints: the scan in closed form\<close>

definition service_pairs :: "(string \<times> Service) list \<Rightarrow> (string \<times> string) list" where
  "service_pairs services = concat (map (\<lambda>(name, service). map (\<lambda>server. (server, name)) (svc_servers service)) services)"

definition services_ok :: "(string, ServerPlan) btree_map \<Rightarrow> (string \<times> Service) list \<Rightarrow> bool" where
  "services_ok servers services \<longleftrightarrow>
     (\<forall>(name, service) \<in> set services.
        distinct (svc_servers service) \<and> (\<forall>x \<in> set (svc_servers service). map_of servers x \<noteq> None))"

abbreviation endpoint_identity :: "string \<Rightarrow> string \<Rightarrow> string \<Rightarrow> string" where
  "endpoint_identity project service server \<equiv> project @ '':'' @ service @ '':'' @ server"

abbreviation push_pair ::
  "string \<Rightarrow> (string, (string \<times> string) list) btree_map \<Rightarrow> string \<times> string \<Rightarrow> (string, (string \<times> string) list) btree_map" where
  "push_pair project \<equiv> \<lambda>m x. bt_push (fst x) (endpoint_identity project (snd x) (fst x), snd x) m"

lemma scan_service_servers_eq:
  "scan_service_servers project name servers seen acc xs = Inr r \<longleftrightarrow>
     distinct xs \<and> set xs \<inter> seen = {} \<and> (\<forall>x \<in> set xs. map_of servers x \<noteq> None) \<and>
     r = foldl (push_pair project) acc (map (\<lambda>server. (server, name)) xs)"
  by (induction project name servers seen acc xs rule: scan_service_servers.induct) auto

lemma scan_services_eq:
  "scan_services project servers acc services = Inr r \<longleftrightarrow>
     services_ok servers services \<and> r = foldl (push_pair project) acc (service_pairs services)"
proof (induction project servers acc services rule: scan_services.induct)
  case (2 project servers acc name service rest)
  show ?case
  proof (cases "scan_service_servers project name servers {} acc (svc_servers service)")
    case (Inr acc')
    then have run: "scan_services project servers acc ((name, service) # rest) = scan_services project servers acc' rest"
      by simp
    show ?thesis unfolding run "2.IH" [OF Inr] using Inr [unfolded scan_service_servers_eq]
      by (simp add: services_ok_def service_pairs_def)
  next
    case (Inl e)
    then have "\<nexists>r. scan_service_servers project name servers {} acc (svc_servers service) = Inr r" by simp
    then have "\<not> services_ok servers ((name, service) # rest)"
      by (auto simp: services_ok_def scan_service_servers_eq)
    then show ?thesis using Inl by simp
  qed
qed (auto simp: services_ok_def service_pairs_def)

lemma scan_services_Inl:
  "scan_services project servers acc services = Inl e \<Longrightarrow>
     \<exists>name server. e = DuplicateServiceServer name server \<or> e = UnknownServiceServer name server"
proof (induction project servers acc services rule: scan_services.induct)
  case (2 project servers acc name service rest)
  have "\<exists>server. e' = DuplicateServiceServer name server \<or> e' = UnknownServiceServer name server"
    if "scan_service_servers project name servers seen acc xs = Inl e'" for seen acc xs e'
    using that
    by (induction project name servers seen acc xs rule: scan_service_servers.induct) (auto split: if_splits)
  from this [of "{}" acc "svc_servers service" e] 2 show ?case by (auto split: sum.splits)
qed simp

lemma insert_endpoint_list_get:
  assumes "\<And>i a b. (i, a) \<in> set xs \<Longrightarrow> (i, b) \<in> set xs \<Longrightarrow> a = b"
  shows "map_of (foldl (\<lambda>m (i, s). bt_insert i (mk i s) m) m xs) k =
    (if k \<in> fst ` set xs then Some (mk k (the (map_of xs k))) else map_of m k)"
  using assms
proof (induction xs rule: rev_induct)
  case (snoc x xs)
  obtain i v where x: "x = (i, v)" by (cases x)
  show ?case
  proof (cases "k = i")
    case True
    have "map_of (xs @ [x]) k = Some v"
    proof -
      have "k \<in> fst ` set (xs @ [x])" using x True by simp
      then obtain w where "map_of (xs @ [x]) k = Some w" by (metis map_of_eq_None_iff not_Some_eq)
      then show ?thesis using snoc.prems [of k w v] map_of_SomeD x True by fastforce
    qed
    then show ?thesis using x True by simp
  next
    case False
    have "map_of (foldl (\<lambda>m (i, s). bt_insert i (mk i s) m) m xs) k =
      (if k \<in> fst ` set xs then Some (mk k (the (map_of xs k))) else map_of m k)"
      by (rule snoc.IH) (use snoc.prems in auto)
    moreover have "k \<in> fst ` set xs \<Longrightarrow> map_of (xs @ [x]) k = map_of xs k"
      by (auto simp: map_add_def map_of_eq_None_iff split: option.splits)
    ultimately show ?thesis using x False by simp
  qed
qed simp

abbreviation insert_identities :: "string \<Rightarrow> (string, ServiceEndpointPlan) btree_map \<Rightarrow>
    string \<times> (string \<times> string) list \<Rightarrow> (string, ServiceEndpointPlan) btree_map" where
  "insert_identities project \<equiv> \<lambda>m (server_name, identities).
     foldl (\<lambda>m (identity, service).
         bt_insert identity
           \<lparr>ep_identity = identity, ep_project = project, ep_service = service, ep_server = server_name\<rparr> m)
       m identities"

abbreviation identities_functional :: "string \<times> (string \<times> string) list \<Rightarrow> bool" where
  "identities_functional e \<equiv> (\<forall>i a b. (i, a) \<in> set (snd e) \<longrightarrow> (i, b) \<in> set (snd e) \<longrightarrow> a = b)"

lemma insert_identities_cong:
  assumes "fst e = fst e'" "set (snd e) = set (snd e')" "identities_functional e" "map_of m = map_of m'"
  shows "map_of (insert_identities project m e) = map_of (insert_identities project m' e')"
proof -
  obtain s xs ys where e: "e = (s, xs)" "e' = (s, ys)" using assms(1) by (cases e; cases e') auto
  have fx: "a = b" if "(i, a) \<in> set xs" "(i, b) \<in> set xs" for i a b using assms(3) e that by auto
  have fy: "a = b" if "(i, a) \<in> set ys" "(i, b) \<in> set ys" for i a b using assms(2) e that fx by auto
  have same: "set xs = set ys" using assms(2) e by simp
  have "map_of xs k = map_of ys k" for k
  proof (cases "map_of xs k")
    case None
    then show ?thesis using same by (metis map_of_eq_None_iff)
  next
    case (Some v)
    then have "k \<in> fst ` set ys" using same map_of_SomeD by force
    then obtain w where w: "map_of ys k = Some w" by (metis map_of_eq_None_iff not_Some_eq)
    then show ?thesis using Some same fx map_of_SomeD by metis
  qed
  moreover have "map_of (foldl (\<lambda>m (i, s). bt_insert i (mk i s) m) m xs) k =
      (if k \<in> fst ` set xs then Some (mk k (the (map_of xs k))) else map_of m k)"
    for mk :: "string \<Rightarrow> string \<Rightarrow> ServiceEndpointPlan" and m k
    by (rule insert_endpoint_list_get) (rule fx)
  moreover have "map_of (foldl (\<lambda>m (i, s). bt_insert i (mk i s) m) m ys) k =
      (if k \<in> fst ` set ys then Some (mk k (the (map_of ys k))) else map_of m k)"
    for mk :: "string \<Rightarrow> string \<Rightarrow> ServiceEndpointPlan" and m k
    by (rule insert_endpoint_list_get) (rule fy)
  ultimately show ?thesis using same assms(4) by (simp add: e fun_eq_iff)
qed

lemma insert_endpoints_cong:
  assumes "list_all2 (\<lambda>e e'. fst e = fst e' \<and> set (snd e) = set (snd e') \<and> identities_functional e) bs bs'"
    and "map_of m = map_of m'"
  shows "map_of (foldl (insert_identities project) m bs) = map_of (foldl (insert_identities project) m' bs')"
  using assms
proof (induction arbitrary: m m' rule: list_all2_induct)
  case (Cons e es e' es')
  have "map_of (insert_identities project m e) = map_of (insert_identities project m' e')"
    using Cons.hyps(1) Cons.prems by (intro insert_identities_cong) auto
  from Cons.IH [OF this] show ?case by simp
qed simp

lemma bt_wf_insert_endpoints: "bt_wf m \<Longrightarrow> bt_wf (foldl (insert_identities project) m bs)"
proof (induction bs arbitrary: m)
  case (Cons e bs)
  have "bt_wf m \<Longrightarrow> bt_wf (foldl (\<lambda>m (i, s). bt_insert i (mk i s) m) m xs)" for mk and m and xs :: "(string \<times> string) list"
    by (induction xs arbitrary: m) auto
  then have "bt_wf (insert_identities project m e)" using Cons.prems by (cases e) simp
  from Cons.IH [OF this] show ?case by simp
qed simp

lemma bt_list_all2:
  assumes "bt_wf bs" "bt_wf bs'" "fst ` set bs = fst ` set bs'"
    and "\<And>k xs ys. map_of bs k = Some xs \<Longrightarrow> map_of bs' k = Some ys \<Longrightarrow> P k xs ys"
  shows "list_all2 (\<lambda>e e'. fst e = fst e' \<and> P (fst e) (snd e) (snd e')) bs bs'"
proof -
  have keys: "map fst bs = map fst bs'"
    using assms(1-3) by (intro sorted_distinct_set_unique) (auto dest: bt_wf_sorted bt_wf_distinct)
  then have len: "length bs = length bs'" by (metis length_map)
  show ?thesis
  proof (rule list_all2_all_nthI [OF len])
    fix i assume i: "i < length bs"
    have f: "fst (bs ! i) = fst (bs' ! i)" using keys i len by (metis nth_map)
    have "map_of bs (fst (bs ! i)) = Some (snd (bs ! i))" using i by (simp add: bt_get_mem [OF assms(1)])
    moreover have "map_of bs' (fst (bs ! i)) = Some (snd (bs' ! i))"
      unfolding f using i len by (simp add: bt_get_mem [OF assms(2)])
    ultimately show "fst (bs ! i) = fst (bs' ! i) \<and> P (fst (bs ! i)) (snd (bs ! i)) (snd (bs' ! i))"
      using assms(4) f by blast
  qed
qed

lemma plan_endpoints_eq:
  "plan_endpoints config servers = Inr r \<longleftrightarrow> services_ok servers (cfg_services config) \<and>
     r = insert_endpoints (cfg_project config)
       (bt_group fst (\<lambda>x. (endpoint_identity (cfg_project config) (snd x) (fst x), snd x)) (service_pairs (cfg_services config)))"
proof (cases "scan_services (cfg_project config) servers [] (cfg_services config)")
  case (Inl e)
  have "\<not> services_ok servers (cfg_services config)"
  proof
    assume "services_ok servers (cfg_services config)"
    then have "\<exists>r. scan_services (cfg_project config) servers [] (cfg_services config) = Inr r"
      unfolding scan_services_eq by blast
    then show False using Inl by simp
  qed
  then show ?thesis using Inl by (simp add: plan_endpoints_def)
next
  case (Inr by_server)
  then have ok: "services_ok servers (cfg_services config)"
    and bs: "by_server = bt_group fst (\<lambda>x. (endpoint_identity (cfg_project config) (snd x) (fst x), snd x))
      (service_pairs (cfg_services config))"
    unfolding scan_services_eq bt_group_def by blast+
  show ?thesis unfolding plan_endpoints_def Inr using ok bs by auto
qed

lemma bt_group_keys: "fst ` set (bt_group f g ps) = f ` set ps"
proof (intro set_eqI)
  show "k \<in> fst ` set (bt_group f g ps) \<longleftrightarrow> k \<in> f ` set ps" for k
    using map_of_eq_None_iff [of "bt_group f g ps" k] bt_get_group [of f g ps k]
    by (cases "k \<in> f ` set ps") simp_all
qed

abbreviation pair_identity :: "string \<Rightarrow> string \<times> string \<Rightarrow> string \<times> string" where
  "pair_identity project \<equiv> \<lambda>x. (endpoint_identity project (snd x) (fst x), snd x)"

lemma pair_identity_functional:
  assumes "(i, a) \<in> pair_identity project ` {x \<in> P. fst x = k}" "(i, b) \<in> pair_identity project ` {x \<in> P. fst x = k}"
  shows "a = b"
proof -
  have "i = endpoint_identity project a k" using assms(1) by blast
  moreover have "i = endpoint_identity project b k" using assms(2) by blast
  ultimately show ?thesis by (simp only: same_append_eq append_same_eq)
qed

lemma insert_endpoints_perm:
  assumes "set pairs = set pairs'"
  shows "insert_endpoints project (bt_group fst (pair_identity project) pairs) =
    insert_endpoints project (bt_group fst (pair_identity project) pairs')"
proof -
  let ?G = "bt_group fst (pair_identity project)"
  have lst: "set xs = pair_identity project ` {x \<in> set ps. fst x = k}" if "map_of (?G ps) k = Some xs" for ps k xs
  proof -
    have "xs = map (pair_identity project) (filter (\<lambda>x. fst x = k) ps)"
      using that bt_get_group [of fst "pair_identity project" ps k] by (cases "k \<in> fst ` set ps") simp_all
    then show ?thesis by (simp only: set_map set_filter)
  qed
  have "list_all2 (\<lambda>e e'. fst e = fst e' \<and> (set (snd e) = set (snd e') \<and> identities_functional (fst e, snd e))) (?G pairs) (?G pairs')"
  proof (rule bt_list_all2)
    fix k xs ys assume xs: "map_of (?G pairs) k = Some xs" and ys: "map_of (?G pairs') k = Some ys"
    have "set xs = set ys" unfolding lst [OF xs] lst [OF ys] assms ..
    moreover have "identities_functional (k, xs)"
      unfolding snd_conv lst [OF xs] by (intro allI impI) (rule pair_identity_functional)
    ultimately show "set xs = set ys \<and> identities_functional (k, xs)" by blast
  qed (simp_all only: bt_group_keys assms bt_wf_group)
  then have "list_all2 (\<lambda>e e'. fst e = fst e' \<and> set (snd e) = set (snd e') \<and> identities_functional e) (?G pairs) (?G pairs')"
    by (simp only: prod.collapse)
  from insert_endpoints_cong [OF this refl]
  have "map_of (foldl (insert_identities project) [] (?G pairs)) = map_of (foldl (insert_identities project) [] (?G pairs'))" .
  then show ?thesis
    unfolding insert_endpoints_def by (rule bt_ext [OF bt_wf_insert_endpoints bt_wf_insert_endpoints, rotated 2]) simp_all
qed

section \<open>Addresses and peers of a plan\<close>

lemma planned_management:
  assumes "planned sha256 config p base n slot" "map_of (np_servers p) a = Some s"
  shows "unat (sp_management_address s) = unat (network (np_management_cidr p)) + slot a + 1"
    and "contains (np_management_cidr p) (sp_management_address s)"
    and "slot a + 2 < 2 ^ host_bits (np_management_cidr p)"
proof -
  have ok: "ranges_ok (np_management_cidr p) (np_container_cidr p) n"
    using assms(1) by (simp add: planned_def placed_def)
  then have wf: "cidr_wf (np_management_cidr p)" by (simp add: ranges_ok_def)
  obtain lt: "slot a < unat n" and ad: "address (np_management_cidr p) (of_nat (slot a) + 1) = Some (sp_management_address s)"
    by (rule planned_server [OF assms])
  have small: "slot a < 2 ^ 32" using lt ranges_ok_slots(3) [OF ok] by simp
  show "unat (sp_management_address s) = unat (network (np_management_cidr p)) + slot a + 1"
    using address_SomeD(2) [OF wf ad] unat_u64_small(2) [OF small] by simp
  show "contains (np_management_cidr p) (sp_management_address s)" by (rule address_contained [OF wf ad])
  show "slot a + 2 < 2 ^ host_bits (np_management_cidr p)" using lt ranges_ok_slots(2) [OF ok] by linarith
qed

lemma planned_subnet:
  assumes "planned sha256 config p base n slot" "map_of (np_servers p) a = Some s"
  shows "cidr_wf (sp_container_subnet s)" and "prefix (sp_container_subnet s) = CONTAINER_SERVER_PREFIX"
    and "contains (sp_container_subnet s) x \<Longrightarrow> contains (np_container_cidr p) x"
    and "list_all (contains (sp_container_subnet s)) [sp_bridge_gateway s, sp_dns_address s, sp_proxy_address s]"
    and "distinct [network (sp_container_subnet s), sp_bridge_gateway s, sp_dns_address s, sp_proxy_address s]"
proof -
  have wf: "cidr_wf (np_container_cidr p)"
    using assms(1) by (simp add: planned_def placed_def ranges_ok_def)
  obtain sub: "subnet (np_container_cidr p) 21 (of_nat (slot a)) = Some (sp_container_subnet s)"
    and ad: "address (sp_container_subnet s) 1 = Some (sp_bridge_gateway s)"
      "address (sp_container_subnet s) 2 = Some (sp_dns_address s)"
      "address (sp_container_subnet s) 3 = Some (sp_proxy_address s)"
    by (rule planned_server [OF assms]) blast
  note sd = subnet_SomeD [OF wf sub]
  show w: "cidr_wf (sp_container_subnet s)" by (rule sd(1))
  show "prefix (sp_container_subnet s) = CONTAINER_SERVER_PREFIX" using sd(2) by (simp add: CONTAINER_SERVER_PREFIX_def)
  show "contains (sp_container_subnet s) x \<Longrightarrow> contains (np_container_cidr p) x"
    by (rule subnet_contained [OF wf sub])
  show "list_all (contains (sp_container_subnet s)) [sp_bridge_gateway s, sp_dns_address s, sp_proxy_address s]"
    using ad by (simp add: address_contained [OF w])
  have "unat (sp_bridge_gateway s) = unat (network (sp_container_subnet s)) + 1"
    "unat (sp_dns_address s) = unat (network (sp_container_subnet s)) + 2"
    "unat (sp_proxy_address s) = unat (network (sp_container_subnet s)) + 3"
    using ad [THEN address_SomeD(2) [OF w]] by simp_all
  then show "distinct [network (sp_container_subnet s), sp_bridge_gateway s, sp_dns_address s, sp_proxy_address s]"
    by (auto simp: word_unat_eq_iff)
qed

lemma planned_disjoint:
  assumes pl: "planned sha256 config p base n slot"
    and s: "map_of (np_servers p) a = Some s" and t: "map_of (np_servers p) b = Some t"
  shows "a \<noteq> b \<Longrightarrow> sp_management_address s \<noteq> sp_management_address t"
    and "a \<noteq> b \<Longrightarrow> \<not> overlaps (sp_container_subnet s) (sp_container_subnet t)"
    and "\<not> contains (sp_container_subnet s) (sp_management_address t)"
proof -
  have ok: "ranges_ok (np_management_cidr p) (np_container_cidr p) n" and inj: "inj_on slot (fst ` set (cfg_servers config))"
    using pl unfolding planned_def placed_def by blast+
  then have wf: "cidr_wf (np_management_cidr p)" "cidr_wf (np_container_cidr p)"
    and no: "\<not> overlaps (np_management_cidr p) (np_container_cidr p)" by (simp_all add: ranges_ok_def)
  obtain Na: "a \<in> fst ` set (cfg_servers config)" "slot a < unat n"
    and sa: "subnet (np_container_cidr p) 21 (of_nat (slot a)) = Some (sp_container_subnet s)"
    by (rule planned_server [OF pl s]) blast
  obtain Nb: "b \<in> fst ` set (cfg_servers config)" "slot b < unat n"
    and sb: "subnet (np_container_cidr p) 21 (of_nat (slot b)) = Some (sp_container_subnet t)"
    by (rule planned_server [OF pl t]) blast
  have ne: "slot a \<noteq> slot b" if "a \<noteq> b" using inj Na(1) Nb(1) that by (meson inj_onD)
  show "a \<noteq> b \<Longrightarrow> sp_management_address s \<noteq> sp_management_address t"
    using ne planned_management(1) [OF pl s] planned_management(1) [OF pl t] by auto
  have small: "slot a < 2 ^ 32" "slot b < 2 ^ 32" using Na(2) Nb(2) ranges_ok_slots(3) [OF ok] by simp_all
  have "(of_nat (slot a) :: u64) \<noteq> of_nat (slot b)" if "a \<noteq> b"
    using ne [OF that] unat_u64_small(1) [OF small(1)] unat_u64_small(1) [OF small(2)] by metis
  then show "a \<noteq> b \<Longrightarrow> \<not> overlaps (sp_container_subnet s) (sp_container_subnet t)"
    using subnets_disjoint [OF wf(2) sa sb] by blast
  show "\<not> contains (sp_container_subnet s) (sp_management_address t)"
    using planned_subnet(3) [OF pl s] planned_management(2) [OF pl t] no overlaps_iff [OF wf] by blast
qed

lemma planned_names:
  assumes "planned sha256 config p base n slot"
  shows "map fst (np_servers p) = map fst base" and "map sp_name (bt_values base) = map fst base"
    and "bt_wf (np_servers p)"
proof -
  have wf: "bt_wf base" and sv: "np_servers p = map (\<lambda>(k, v). (k, meshed (bt_values base) v)) base"
    using assms by (simp_all add: planned_def placed_def)
  show keys: "map fst (np_servers p) = map fst base" unfolding sv by (simp add: case_prod_beta' comp_def)
  then show "bt_wf (np_servers p)" using wf by (simp add: bt_wf_def)
  have "sp_name v = k" if "(k, v) \<in> set base" for k v
  proof -
    have "map_of (np_servers p) k = Some (meshed (bt_values base) v)"
      unfolding sv map_of_map_values using that by (simp add: bt_get_mem [OF wf, symmetric])
    from planned_server [OF assms this] have "sp_name (meshed (bt_values base) v) = k" by metis
    then show ?thesis by (simp add: meshed_def)
  qed
  then show "map sp_name (bt_values base) = map fst base" by (auto simp: bt_values_def)
qed

lemma peer_of_meshed: "peer_of (meshed all s) = peer_of s"
  by (simp add: peer_of_def meshed_def)

lemma planned_peers:
  assumes pl: "planned sha256 config p base n slot" and s: "map_of (np_servers p) a = Some s"
  shows "sp_peers s = map peer_of (filter (\<lambda>t. sp_name t \<noteq> a) (bt_values (np_servers p)))"
    and "sp_routes s = map (\<lambda>t. \<lparr>rp_destination = sp_container_subnet t, rp_interface = sp_wireguard_interface s\<rparr>)
      (filter (\<lambda>t. sp_name t \<noteq> a) (bt_values (np_servers p)))"
    and "fp_remote_container_subnets (sp_firewall s) =
      map sp_container_subnet (filter (\<lambda>t. sp_name t \<noteq> a) (bt_values (np_servers p)))"
    and "fp_local_container_subnet (sp_firewall s) = sp_container_subnet s"
proof -
  obtain b where b: "s = meshed (bt_values base) b" "sp_name b = a" "sp_peers b = []" "sp_routes b = []"
    and fw: "sp_firewall b = \<lparr>fp_local_container_subnet = sp_container_subnet s, fp_remote_container_subnets = []\<rparr>"
    by (rule planned_server [OF pl s]) blast
  have fr: "fp_remote_container_subnets (sp_firewall b) = []" using fw by simp
  have "sp_container_subnet s = sp_container_subnet b" by (simp add: b(1) meshed_def)
  with fw have fl: "fp_local_container_subnet (sp_firewall b) = sp_container_subnet b" by simp
  have vals: "bt_values (np_servers p) = map (meshed (bt_values base)) (bt_values base)"
    using pl by (auto simp: planned_def bt_values_def)
  have fm: "filter (\<lambda>t. sp_name t \<noteq> a) (map (meshed all) xs) = map (meshed all) (filter (\<lambda>t. sp_name t \<noteq> a) xs)" for all xs
    by (induction xs) (auto simp: meshed_def)
  show "sp_peers s = map peer_of (filter (\<lambda>t. sp_name t \<noteq> a) (bt_values (np_servers p)))"
    unfolding vals fm map_map comp_def peer_of_meshed unfolding b(1) using b(2-) by (simp add: meshed_def others_of_def)
  show "sp_routes s = map (\<lambda>t. \<lparr>rp_destination = sp_container_subnet t, rp_interface = sp_wireguard_interface s\<rparr>)
      (filter (\<lambda>t. sp_name t \<noteq> a) (bt_values (np_servers p)))"
    unfolding vals fm unfolding b(1) using b(2-) fr by (simp add: meshed_def others_of_def comp_def)
  show "fp_remote_container_subnets (sp_firewall s) =
      map sp_container_subnet (filter (\<lambda>t. sp_name t \<noteq> a) (bt_values (np_servers p)))"
    unfolding vals fm unfolding b(1) using b(2-) fr by (simp add: meshed_def others_of_def comp_def)
  show "fp_local_container_subnet (sp_firewall s) = sp_container_subnet s"
    unfolding b(1) using fl by (simp add: meshed_def)
qed

section \<open>The default ranges\<close>

definition default_ranges :: "Config \<Rightarrow> bool" where
  "default_ranges config \<longleftrightarrow>
     (case cfg_network config of None \<Rightarrow> True | Some n \<Rightarrow> net_management_cidr n = None \<and> net_container_cidr n = None)"

lemma default_ranges_ok:
  assumes "slot < 64"
  shows "ranges_ok (default_management slot) (default_container slot) 32"
proof -
  have "subnet_count (Ipv4Cidr net 16) 21 = Some 32" for net
    by (simp add: subnet_count_def push_bit_eq_mult)
  moreover have "address_count (Ipv4Cidr net 24) = 256" for net
    by (simp add: address_count_def push_bit_eq_mult)
  moreover have "(32 :: u64) \<le> u64_saturating_sub 256 2" by (simp add: u64_saturating_sub_def)
  ultimately show ?thesis
    using default_ranges_disjoint [OF assms assms] default_management_wf [OF assms] default_container_wf [OF assms]
    by (simp add: ranges_ok_def CONTAINER_SERVER_PREFIX_def)
qed

lemma plan_default:
  assumes "default_ranges config"
  obtains enabled slot where "slot < 64"
    "plan sha256 config = plan_servers sha256 config enabled (default_management slot) (default_container slot)"
proof -
  obtain m c where mc: "project_cidrs sha256 (cfg_project config) = (m, c)" by fastforce
  note ps = project_cidrs_parse [OF mc]
  show thesis
    by (rule that [of "default_slot sha256 (cfg_project config)"
          "case cfg_network config of Some n \<Rightarrow> net_enabled n | None \<Rightarrow> True"])
      (use assms ps mc default_slot_less in \<open>auto simp: plan_def default_ranges_def Let_def split: option.splits\<close>)
qed

lemma plan_servers_ranges_ok:
  assumes "ranges_ok mgmt cont n" "distinct (map fst (cfg_servers config))"
  shows "plan_servers sha256 config enabled mgmt cont =
    (case allocate_bucketed sha256 (map (\<lambda>(name, _). server_identity config name) (cfg_servers config))
            (unat n) SERVER_BUCKET_CAPACITY ''servers'' of
       Inl e \<Rightarrow> Some (Inl e)
     | Inr as \<Rightarrow>
         (case base_servers (base_server sha256 config mgmt cont) as [] of
            None \<Rightarrow> None
          | Some base \<Rightarrow> finish_plan sha256 config enabled mgmt cont base))"
proof -
  have "\<not> u64_saturating_sub (address_count mgmt) 2 < n" using assms(1) by (simp add: ranges_ok_def not_less)
  then show ?thesis using assms(1) by (simp add: plan_servers_def ranges_ok_def Let_def)
qed

lemma finish_plan_Inl:
  "finish_plan sha256 config enabled mgmt cont base = Some (Inl e) \<Longrightarrow>
     \<exists>name server. e = DuplicateServiceServer name server \<or> e = UnknownServiceServer name server"
  by (auto simp: finish_plan_def plan_endpoints_def populate_meshed split: sum.splits dest: scan_services_Inl)

lemma allocate_bucketed_Inl:
  "allocate_bucketed sha256 ids slots desired kind = Inl e \<Longrightarrow> \<exists>b c. e = BucketExhausted kind b c"
  by (auto simp: allocate_bucketed_def Let_def split: if_splits dest!: assign_buckets_Inl)

lemma plan_default_errors:
  assumes "default_ranges config" "distinct (map fst (cfg_servers config))" "plan sha256 config = Some (Inl e)"
  shows "(\<exists>b c. e = BucketExhausted ''servers'' b c) \<or>
    (\<exists>name server. e = DuplicateServiceServer name server \<or> e = UnknownServiceServer name server)"
proof -
  obtain enabled slot where "slot < 64"
    "plan sha256 config = plan_servers sha256 config enabled (default_management slot) (default_container slot)"
    by (rule plan_default [OF assms(1)])
  with assms(3) have "plan_servers sha256 config enabled (default_management slot) (default_container slot) = Some (Inl e)"
    by simp
  then consider
    (alloc) "allocate_bucketed sha256 (map (\<lambda>(name, _). server_identity config name) (cfg_servers config))
      (unat (32 :: u64)) SERVER_BUCKET_CAPACITY ''servers'' = Inl e"
  | (finish) base where
      "finish_plan sha256 config enabled (default_management slot) (default_container slot) base = Some (Inl e)"
    unfolding plan_servers_ranges_ok [OF default_ranges_ok [OF \<open>slot < 64\<close>] assms(2)]
    by (auto split: sum.splits option.splits)
  then show ?thesis
  proof cases
    case alloc
    from allocate_bucketed_Inl [OF this] show ?thesis by (rule disjI1)
  next
    case finish
    from finish_plan_Inl [OF this] show ?thesis by (rule disjI2)
  qed
qed

lemma plan_default_success:
  assumes "default_ranges config" "distinct (map fst (cfg_servers config))"
    and "\<exists>as. allocate_bucketed sha256 (map (\<lambda>(name, _). server_identity config name) (cfg_servers config))
            32 SERVER_BUCKET_CAPACITY ''servers'' = Inr as"
    and "\<forall>(name, service) \<in> set (cfg_services config).
           distinct (svc_servers service) \<and> set (svc_servers service) \<subseteq> fst ` set (cfg_servers config)"
  obtains p where "plan sha256 config = Some (Inr p)"
    "\<forall>name. map_of (np_servers p) name \<noteq> None \<longleftrightarrow> name \<in> fst ` set (cfg_servers config)"
proof -
  obtain enabled slot where slot: "slot < 64"
    and pl: "plan sha256 config = plan_servers sha256 config enabled (default_management slot) (default_container slot)"
    by (rule plan_default [OF assms(1)])
  let ?m = "default_management slot" and ?c = "default_container slot"
  note ok = default_ranges_ok [OF slot]
  obtain as where as: "allocate_bucketed sha256 (map (\<lambda>(name, _). server_identity config name) (cfg_servers config))
            (unat (32 :: u64)) SERVER_BUCKET_CAPACITY ''servers'' = Inr as" using assms(3) by auto
  obtain base sl where bs: "base_servers (base_server sha256 config ?m ?c) as [] = Some base"
    and placed: "placed sha256 config ?m ?c 32 base sl"
    using base_servers_placed [OF ok assms(2) as] by blast
  have look: "map_of base name = (if name \<in> fst ` set (cfg_servers config)
      then base_server sha256 config ?m ?c (server_identity config name) (sl name) else None)" for name
    using placed unfolding placed_def by blast
  have dom: "map_of base name \<noteq> None \<longleftrightarrow> name \<in> fst ` set (cfg_servers config)" for name
  proof (cases "name \<in> fst ` set (cfg_servers config)")
    case True
    then obtain srv where srv: "map_of (cfg_servers config) name = Some srv"
      by (metis map_of_eq_None_iff not_Some_eq)
    have lt: "sl name < unat (32 :: u64)" using placed True unfolding placed_def by blast
    obtain server where "base_server sha256 config ?m ?c (server_identity config name) (sl name) = Some server"
      by (rule base_server_total [OF ok srv lt])
    then show ?thesis using True by (simp add: look)
  next
    case False
    then show ?thesis by (simp add: look)
  qed
  have "services_ok base (cfg_services config)"
    unfolding services_ok_def using assms(4) dom by (auto simp del: not_None_eq)
  then obtain eps where eps: "plan_endpoints config base = Inr eps" unfolding plan_endpoints_eq by blast
  let ?s = "map (\<lambda>(k, v). (k, meshed (bt_values base) v)) base"
  have "plan sha256 config = Some (Inr \<lparr>np_enabled = enabled, np_project = cfg_project config,
      np_management_cidr = ?m, np_container_cidr = ?c, np_servers = ?s, np_endpoints = eps,
      np_mesh_generation = mesh_generation_checksum sha256 enabled (cfg_project config) ?m ?c ?s\<rparr>)"
    unfolding pl plan_servers_ranges_ok [OF ok assms(2)] using as bs eps by (simp add: finish_plan_def populate_meshed)
  then show thesis by (rule that) (use dom in \<open>simp add: map_of_map_values\<close>)
qed

section \<open>Iteration order and service changes\<close>

lemma allocate_bucketed_cong:
  assumes "allocate_bucketed sha256 ids slots desired kind = Inr m" "distinct ids" "distinct ids'" "set ids = set ids'"
  shows "allocate_bucketed sha256 ids' slots desired kind = Inr m"
proof -
  let ?c = "capacity_for slots desired" and ?f = "bucket_for sha256 slots desired"
  have "length (snd e) \<le> ?c" if e: "e \<in> set (bt_group ?f (\<lambda>i. i) ids')" for e
  proof -
    have "map_of (bt_group ?f (\<lambda>i. i) ids') (fst e) = Some (snd e)"
      using e by (simp add: bt_get_mem [OF bt_wf_group])
    then have "snd e = filter (\<lambda>y. ?f y = fst e) ids'" by (auto simp: bt_get_group split: if_splits)
    then have "length (snd e) = card {y \<in> set ids'. ?f y = fst e}"
      using distinct_card [OF distinct_filter [OF assms(3)], of "\<lambda>y. ?f y = fst e"] by simp
    then show ?thesis using allocate_bucketed_get(3) [OF assms(1,2)] assms(4) by simp
  qed
  then obtain m' where "assign_buckets kind ?c (bt_group ?f (\<lambda>i. i) ids') [] = Inr m'"
    using assign_buckets_Inr by blast
  then have run: "allocate_bucketed sha256 ids' slots desired kind = Inr m'"
    by (cases "ids' = []") (auto simp: allocate_bucketed_def Let_def bt_group_def)
  have "m' = m"
    using allocate_bucketed_get(1,2) [OF run assms(3)] allocate_bucketed_get(1,2) [OF assms(1,2)] assms(4)
    by (intro bt_ext) auto
  with run show ?thesis by simp
qed

lemma map_of_set_cong:
  assumes "distinct (map fst xs)" "distinct (map fst ys)" "set xs = set ys"
  shows "map_of xs = map_of ys"
proof
  show "map_of xs k = map_of ys k" for k
    using assms map_of_eq_None_iff [of xs k] map_of_eq_None_iff [of ys k]
    by (cases "map_of xs k"; cases "map_of ys k") (auto simp: map_of_eq_Some_iff)
qed

lemma base_server_cong:
  assumes "cfg_project config' = cfg_project config" "map_of (cfg_servers config') = map_of (cfg_servers config)"
  shows "base_server sha256 config' mgmt cont = base_server sha256 config mgmt cont"
  by (intro ext) (simp only: base_server_def assms)

lemma plan_servers_cong:
  assumes run: "plan_servers sha256 config enabled mgmt cont = Some (Inr p)"
    and wf: "cidr_wf mgmt" "cidr_wf cont" "config_wf config" "config_wf config'"
    and same: "cfg_project config' = cfg_project config" "set (cfg_servers config') = set (cfg_servers config)"
      "set (cfg_services config') = set (cfg_services config)"
  shows "plan_servers sha256 config' enabled mgmt cont = Some (Inr p)"
proof -
  obtain n as base where ok: "ranges_ok mgmt cont n"
    and al: "allocate_bucketed sha256 (map (\<lambda>(name, _). server_identity config name) (cfg_servers config))
      (unat n) SERVER_BUCKET_CAPACITY ''servers'' = Inr as"
    and bs: "base_servers (base_server sha256 config mgmt cont) as [] = Some base"
    and ep0: "plan_endpoints config base = Inr (np_endpoints p)"
    by (rule plan_servers_InrE [OF run wf(1,2)])
  have dist: "distinct (map fst (cfg_servers config))" "distinct (map fst (cfg_servers config'))"
    using wf(3,4) by (simp_all add: config_wf_def)
  have ids: "map (\<lambda>(name, _). server_identity c name) (cfg_servers c) = map (server_identity c) (map fst (cfg_servers c))" for c
    by (simp add: case_prod_beta')
  have di: "distinct (map (server_identity config) xs)" if "distinct xs" for xs
    using that by (subst distinct_map) (simp add: inj_on_def server_identity_inj)
  have id_eq: "server_identity config' = server_identity config"
    using same(1) by (simp add: fun_eq_iff server_identity_def)
  have "set (map fst (cfg_servers config)) = set (map fst (cfg_servers config'))" using same(2) by simp
  then have "set (map (server_identity config) (map fst (cfg_servers config))) =
      set (map (server_identity config) (map fst (cfg_servers config')))" by (simp only: set_map)
  then have al': "allocate_bucketed sha256 (map (\<lambda>(name, _). server_identity config' name) (cfg_servers config'))
      (unat n) SERVER_BUCKET_CAPACITY ''servers'' = Inr as"
    unfolding ids unfolding id_eq
    by (rule allocate_bucketed_cong [OF al [unfolded ids] di [OF dist(1)] di [OF dist(2)]])
  have bs': "base_servers (base_server sha256 config' mgmt cont) as [] = Some base"
    using bs base_server_cong [OF same(1) map_of_set_cong [OF dist(2,1) same(2)]] by simp
  have so: "services_ok base (cfg_services config') = services_ok base (cfg_services config)"
    unfolding services_ok_def same(3) ..
  have "set (service_pairs (cfg_services config')) = set (service_pairs (cfg_services config))"
    using same(3) by (simp add: service_pairs_def)
  note ie = insert_endpoints_perm [OF this, of "cfg_project config"]
  have "plan_endpoints config' base = Inr (np_endpoints p)"
    using ep0 unfolding plan_endpoints_eq same(1) so ie .
  then have ep: "plan_endpoints config' base = plan_endpoints config base" using ep0 by simp
  have "plan_servers sha256 config' enabled mgmt cont = finish_plan sha256 config' enabled mgmt cont base"
    unfolding plan_servers_ranges_ok [OF ok dist(2)] using al' bs' by simp
  also have "\<dots> = finish_plan sha256 config enabled mgmt cont base" unfolding finish_plan_def ep same(1) ..
  also have "\<dots> = plan_servers sha256 config enabled mgmt cont"
    unfolding plan_servers_ranges_ok [OF ok dist(1)] using al bs by simp
  finally show ?thesis using run by simp
qed

end
