(* ===== verification/Plan_Properties.thy ===== *)
theory Plan_Properties
  imports Planner
begin

text \<open>
  What the planner promises, for every configuration and every hash function: it never panics,
  the addresses it hands out do not collide, every server peers with every other one, and the plan
  depends neither on map iteration order nor, for the mesh, on the services.
\<close>

section \<open>Properties\<close>

text \<open>The configuration of the examples: two servers, one service on both.\<close>

abbreviation demo_config :: Config where
  "demo_config \<equiv>
     \<lparr>cfg_project = ''shop'',
      cfg_builder = \<lparr>b_engine = Podman, b_remote = None, b_cache = True, b_registry = default_registry\<rparr>,
      cfg_servers = [(''b'', default_server ''192.0.2.2''), (''a'', default_server ''192.0.2.1'')],
      cfg_services = [(''web'', default_service\<lparr>svc_servers := [''a'', ''b'']\<rparr>)],
      cfg_ssh = None, cfg_network = None, cfg_secrets_path = None, cfg_secrets = None, cfg_environment = None\<rparr>"

abbreviation demo_sha256 :: digest where
  "demo_sha256 \<equiv> \<lambda>_. replicate 32 7"

lemma demo_config_wf: "config_wf demo_config"
  by (simp add: config_wf_def default_service_def)

lemma demo_plan:
  obtains p s t where "plan demo_sha256 demo_config = Some (Inr p)"
    "map_of (np_servers p) ''a'' = Some s" "map_of (np_servers p) ''b'' = Some t"
proof -
  have al: "\<exists>as. allocate_bucketed demo_sha256 (map (\<lambda>(name, _). server_identity demo_config name) (cfg_servers demo_config))
      32 SERVER_BUCKET_CAPACITY ''servers'' = Inr as"
    by (simp add: allocate_bucketed_def Let_def SERVER_BUCKET_CAPACITY_def server_identity_def bucket_of_def
        stable_hash_def bt_group_def bt_push_def)
  have dr: "default_ranges demo_config" by (simp add: default_ranges_def)
  have di: "distinct (map fst (cfg_servers demo_config))" by simp
  have sv: "\<forall>(name, service) \<in> set (cfg_services demo_config).
      distinct (svc_servers service) \<and> set (svc_servers service) \<subseteq> fst ` set (cfg_servers demo_config)"
    by simp
  obtain p where p: "plan demo_sha256 demo_config = Some (Inr p)"
    and dom: "\<forall>name. map_of (np_servers p) name \<noteq> None \<longleftrightarrow> name \<in> fst ` set (cfg_servers demo_config)"
    by (rule plan_default_success [OF dr di al sv])
  obtain s where "map_of (np_servers p) ''a'' = Some s" using dom [rule_format, of "''a''"] by auto
  moreover obtain t where "map_of (np_servers p) ''b'' = Some t" using dom [rule_format, of "''b''"] by auto
  ultimately show thesis using p that by blast
qed

text \<open>
  C14. The planner never panics: for every configuration with distinct server and service names it
  returns a plan or an error, so each \<^verbatim>\<open>expect\<close> of \<^verbatim>\<open>plan\<close> and \<^verbatim>\<open>populate_server_networks\<close> holds.
  When the configuration leaves both address ranges to their defaults, the only possible errors are
  a full bucket and a service that names a server twice or names an unknown server.
\<close>

theorem plan_never_panics:
  assumes "config_wf config"
  shows "\<exists>r. plan sha256 config = Some r \<and>
    (default_ranges config \<longrightarrow>
      (\<forall>e. r = Inl e \<longrightarrow> (\<exists>b c. e = BucketExhausted ''servers'' b c) \<or>
        (\<exists>name server. e = DuplicateServiceServer name server \<or> e = UnknownServiceServer name server)))"
proof -
  have dist: "distinct (map fst (cfg_servers config))" using assms by (simp add: config_wf_def)
  obtain r where "plan sha256 config = Some r" using plan_total [OF dist] by blast
  then show ?thesis using plan_default_errors [OF _ dist] by blast
qed

theorem plan_never_panics_witness: "\<exists>r. plan demo_sha256 demo_config = Some r"
  using plan_never_panics [OF demo_config_wf, of demo_sha256] by blast

text \<open>
  C12. Addresses of a plan: each server's management address lies in the management range and is
  neither its first nor its last address; its container subnet is a /21 inside the container range
  that holds its distinct gateway, DNS and proxy addresses; two servers have different management
  addresses and disjoint subnets; and no subnet holds any server's management address.
\<close>

theorem plan_addresses:
  assumes "plan sha256 config = Some (Inr p)" "config_wf config"
    and "map_of (np_servers p) a = Some s" "map_of (np_servers p) b = Some t"
  shows "contains (np_management_cidr p) (sp_management_address s) \<and>
    unat (network (np_management_cidr p)) < unat (sp_management_address s) \<and>
    unat (sp_management_address s) + 1 < unat (network (np_management_cidr p)) + 2 ^ host_bits (np_management_cidr p) \<and>
    prefix (sp_container_subnet s) = CONTAINER_SERVER_PREFIX \<and>
    (\<forall>x. contains (sp_container_subnet s) x \<longrightarrow> contains (np_container_cidr p) x) \<and>
    list_all (contains (sp_container_subnet s)) [sp_bridge_gateway s, sp_dns_address s, sp_proxy_address s] \<and>
    distinct [network (sp_container_subnet s), sp_bridge_gateway s, sp_dns_address s, sp_proxy_address s] \<and>
    (a \<noteq> b \<longrightarrow> sp_management_address s \<noteq> sp_management_address t \<and>
       \<not> overlaps (sp_container_subnet s) (sp_container_subnet t)) \<and>
    \<not> contains (sp_container_subnet s) (sp_management_address t)"
proof -
  obtain base n slot where pl: "planned sha256 config p base n slot"
    by (rule plan_planned [OF assms(1)]) (use assms(2) in \<open>simp add: config_wf_def\<close>)
  note m = planned_management [OF pl assms(3)]
  have "unat (network (np_management_cidr p)) < unat (sp_management_address s)"
    "unat (sp_management_address s) + 1 < unat (network (np_management_cidr p)) + 2 ^ host_bits (np_management_cidr p)"
    using m(1,3) by linarith+
  with m(2) planned_subnet [OF pl assms(3)] planned_disjoint [OF pl assms(3,4)] show ?thesis by blast
qed

theorem plan_addresses_witness:
  "\<exists>p s t. plan demo_sha256 demo_config = Some (Inr p) \<and> map_of (np_servers p) ''a'' = Some s \<and>
     map_of (np_servers p) ''b'' = Some t \<and> sp_management_address s \<noteq> sp_management_address t \<and>
     \<not> overlaps (sp_container_subnet s) (sp_container_subnet t)"
proof -
  obtain p s t where p: "plan demo_sha256 demo_config = Some (Inr p)"
    "map_of (np_servers p) ''a'' = Some s" "map_of (np_servers p) ''b'' = Some t" by (rule demo_plan)
  have "''a'' \<noteq> ''b''" by simp
  with plan_addresses [OF p(1) demo_config_wf p(2,3)] p show ?thesis by blast
qed

text \<open>
  C16. A plan is a full mesh: the peers of a server are exactly the other servers, in name order,
  each with its public endpoint and with its management host route and container subnet as allowed
  addresses; one route and one firewall entry follow for each; and no address is allowed for two
  different peers, so WireGuard's choice of a peer is never ambiguous.
\<close>

theorem plan_full_mesh:
  assumes "plan sha256 config = Some (Inr p)" "config_wf config" "map_of (np_servers p) a = Some s"
  shows "map wp_server (sp_peers s) = filter (\<lambda>x. x \<noteq> a) (bt_keys (np_servers p)) \<and>
    (\<forall>q \<in> set (sp_peers s). \<exists>t. map_of (np_servers p) (wp_server q) = Some t \<and>
       wp_management_address q = sp_management_address t \<and>
       wp_allowed_ips q = [Ipv4Cidr (sp_management_address t) 32, sp_container_subnet t] \<and>
       wp_endpoint q = sp_public_host t @ '':'' @ show_nat (unat (sp_wireguard_port t))) \<and>
    map rp_destination (sp_routes s) = map (\<lambda>q. wp_allowed_ips q ! 1) (sp_peers s) \<and>
    fp_remote_container_subnets (sp_firewall s) = map (\<lambda>q. wp_allowed_ips q ! 1) (sp_peers s) \<and>
    (\<forall>q \<in> set (sp_peers s). \<forall>r \<in> set (sp_peers s). wp_server q \<noteq> wp_server r \<longrightarrow>
       \<not> (\<exists>x. (\<exists>c \<in> set (wp_allowed_ips q). contains c x) \<and> (\<exists>d \<in> set (wp_allowed_ips r). contains d x)))"
proof -
  obtain base n slot where pl: "planned sha256 config p base n slot"
    by (rule plan_planned [OF assms(1)]) (use assms(2) in \<open>simp add: config_wf_def\<close>)
  note pr = planned_peers [OF pl assms(3)]
  have wf: "bt_wf (np_servers p)" by (rule planned_names(3) [OF pl])
  have name: "sp_name t = k" if "map_of (np_servers p) k = Some t" for k t
    by (rule planned_server [OF pl that]) blast
  have peer: "\<exists>t. map_of (np_servers p) (wp_server q) = Some t \<and> q = peer_of t" if "q \<in> set (sp_peers s)" for q
    using that name by (auto simp: pr(1) bt_values_mem [OF wf] peer_of_def)
  have names: "map sp_name (bt_values (np_servers p)) = bt_keys (np_servers p)"
    using name by (auto simp: bt_values_def bt_keys_def bt_get_mem [OF wf])
  have "map wp_server (sp_peers s) = map sp_name (filter (\<lambda>t. sp_name t \<noteq> a) (bt_values (np_servers p)))"
    unfolding pr(1) by (simp add: peer_of_def)
  also have "\<dots> = filter (\<lambda>x. x \<noteq> a) (bt_keys (np_servers p))"
    unfolding names [symmetric] filter_map comp_def ..
  finally have keys: "map wp_server (sp_peers s) = filter (\<lambda>x. x \<noteq> a) (bt_keys (np_servers p))" .
  have apart: "\<not> (contains c x \<and> contains d x)"
    if q: "q \<in> set (sp_peers s)" "c \<in> set (wp_allowed_ips q)" and r: "r \<in> set (sp_peers s)" "d \<in> set (wp_allowed_ips r)"
      and ne: "wp_server q \<noteq> wp_server r" for q r c d x
  proof -
    obtain t u where t: "map_of (np_servers p) (wp_server q) = Some t" "q = peer_of t"
      and u: "map_of (np_servers p) (wp_server r) = Some u" "r = peer_of u" using peer q(1) r(1) by blast
    note d1 = planned_disjoint [OF pl t(1) u(1)] and d2 = planned_disjoint [OF pl u(1) t(1)]
    have host: "contains (host_route y) x \<longleftrightarrow> x = y" for y
      using contains_iff [OF cidr_new_wf [OF cidr_new_host], of y x] by (auto simp: host_route_def word_unat_eq_iff)
    have ov: "\<not> (contains (sp_container_subnet t) x \<and> contains (sp_container_subnet u) x)"
      using d1(2) [OF ne] overlaps_iff planned_subnet(1) [OF pl t(1)] planned_subnet(1) [OF pl u(1)] by blast
    have "c = host_route (sp_management_address t) \<or> c = sp_container_subnet t"
      "d = host_route (sp_management_address u) \<or> d = sp_container_subnet u"
      using q(2) r(2) by (auto simp: t(2) u(2) peer_of_def)
    then show ?thesis using d1(1) [OF ne] d1(3) d2(3) ov by (elim disjE) (auto simp: host)
  qed
  have "map rp_destination (sp_routes s) = map (\<lambda>q. wp_allowed_ips q ! 1) (sp_peers s)"
    "fp_remote_container_subnets (sp_firewall s) = map (\<lambda>q. wp_allowed_ips q ! 1) (sp_peers s)"
    unfolding pr by (simp_all add: peer_of_def)
  moreover have "\<exists>t. map_of (np_servers p) (wp_server q) = Some t \<and>
       wp_management_address q = sp_management_address t \<and>
       wp_allowed_ips q = [Ipv4Cidr (sp_management_address t) 32, sp_container_subnet t] \<and>
       wp_endpoint q = sp_public_host t @ '':'' @ show_nat (unat (sp_wireguard_port t))" if "q \<in> set (sp_peers s)" for q
    using peer [OF that] by (auto simp: peer_of_def host_route_def)
  ultimately show ?thesis using keys apart by blast
qed

theorem plan_full_mesh_witness:
  "\<exists>p s. plan demo_sha256 demo_config = Some (Inr p) \<and> map_of (np_servers p) ''a'' = Some s \<and>
     map wp_server (sp_peers s) = filter (\<lambda>x. x \<noteq> ''a'') (bt_keys (np_servers p))"
proof -
  obtain p s t where p: "plan demo_sha256 demo_config = Some (Inr p)"
    "map_of (np_servers p) ''a'' = Some s" "map_of (np_servers p) ''b'' = Some t" by (rule demo_plan)
  from plan_full_mesh [OF p(1) demo_config_wf p(2)] p show ?thesis by blast
qed

text \<open>
  C19. The plan does not depend on the iteration order of the configuration's hash maps: two
  configurations with the same project and network settings whose servers and services are the same
  entries in different orders have the same plan.
\<close>

theorem plan_order_irrelevant:
  assumes "plan sha256 config = Some (Inr p)" "config_wf config" "config_wf config'"
    and "cfg_project config' = cfg_project config" "cfg_network config' = cfg_network config"
    and "set (cfg_servers config') = set (cfg_servers config)"
    and "set (cfg_services config') = set (cfg_services config)"
  shows "plan sha256 config' = Some (Inr p)"
proof -
  note cong = plan_servers_cong [OF _ _ _ assms(2,3,4,6,7)]
  show ?thesis
    using assms(1) unfolding plan_def Let_def assms(4,5)
    by (auto dest: parse_cidr_wf intro!: cong split: sum.splits prod.splits)
qed

theorem plan_order_irrelevant_witness:
  "\<exists>p. plan demo_sha256 demo_config = Some (Inr p) \<and>
     plan demo_sha256 (demo_config\<lparr>cfg_servers := rev (cfg_servers demo_config)\<rparr>) = Some (Inr p)"
proof -
  obtain p s t where p: "plan demo_sha256 demo_config = Some (Inr p)"
    "map_of (np_servers p) ''a'' = Some s" "map_of (np_servers p) ''b'' = Some t" by (rule demo_plan)
  have wf: "config_wf (demo_config\<lparr>cfg_servers := rev (cfg_servers demo_config)\<rparr>)"
    by (simp add: config_wf_def default_service_def)
  have "plan demo_sha256 (demo_config\<lparr>cfg_servers := rev (cfg_servers demo_config)\<rparr>) = Some (Inr p)"
    by (rule plan_order_irrelevant [OF p(1) demo_config_wf wf]) auto
  with p(1) show ?thesis by blast
qed

text \<open>
  A change of services alone never changes the mesh: when two configurations differ in nothing
  but their services and both have a plan, the servers of the two plans and their mesh generations
  are equal.
\<close>

theorem mesh_generation_ignores_services:
  assumes "plan sha256 config = Some (Inr p)" "plan sha256 (config\<lparr>cfg_services := services\<rparr>) = Some (Inr p')"
  shows "np_servers p' = np_servers p \<and> np_mesh_generation p' = np_mesh_generation p"
proof -
  let ?c = "config\<lparr>cfg_services := services\<rparr>"
  have bs: "base_server sha256 ?c m c = base_server sha256 config m c" for m c
    by (rule base_server_cong) simp_all
  have id: "server_identity ?c = server_identity config" by (simp add: fun_eq_iff server_identity_def)
  obtain en m c where run: "plan_servers sha256 config en m c = Some (Inr p)" "plan_servers sha256 ?c en m c = Some (Inr p')"
    and wf: "cidr_wf m" "cidr_wf c"
    using assms by (auto simp: plan_def Let_def dest!: parse_cidr_wf split: sum.splits prod.splits)
  obtain n as base where l: "ranges_ok m c n"
    "allocate_bucketed sha256 (map (\<lambda>(name, _). server_identity config name) (cfg_servers config))
      (unat n) SERVER_BUCKET_CAPACITY ''servers'' = Inr as"
    "base_servers (base_server sha256 config m c) as [] = Some base"
    "np_servers p = map (\<lambda>(k, v). (k, meshed (bt_values base) v)) base"
    "np_mesh_generation p = mesh_generation_checksum sha256 en (cfg_project config) m c (np_servers p)"
    by (rule plan_servers_InrE [OF run(1) wf])
  have sel: "cfg_servers ?c = cfg_servers config" "cfg_project ?c = cfg_project config" by simp_all
  obtain n' as' base' where r: "ranges_ok m c n'"
    "allocate_bucketed sha256 (map (\<lambda>(name, _). server_identity ?c name) (cfg_servers ?c))
      (unat n') SERVER_BUCKET_CAPACITY ''servers'' = Inr as'"
    "base_servers (base_server sha256 ?c m c) as' [] = Some base'"
    "np_servers p' = map (\<lambda>(k, v). (k, meshed (bt_values base') v)) base'"
    "np_mesh_generation p' = mesh_generation_checksum sha256 en (cfg_project ?c) m c (np_servers p')"
    by (rule plan_servers_InrE [OF run(2) wf])
  note r = r [unfolded bs id sel]
  have "n' = n" using l(1) r(1) by (simp add: ranges_ok_def)
  with l(2) r(2) have "as' = as" by simp
  with l(3) r(3) have "base' = base" by simp
  with l(4,5) r(4,5) show ?thesis by simp
qed

theorem mesh_generation_ignores_services_witness:
  "\<exists>p p'. plan demo_sha256 demo_config = Some (Inr p) \<and>
     plan demo_sha256 (demo_config\<lparr>cfg_services := rev (cfg_services demo_config)\<rparr>) = Some (Inr p') \<and>
     np_mesh_generation p' = np_mesh_generation p"
proof -
  obtain p s t where p: "plan demo_sha256 demo_config = Some (Inr p)"
    "map_of (np_servers p) ''a'' = Some s" "map_of (np_servers p) ''b'' = Some t" by (rule demo_plan)
  then have "plan demo_sha256 (demo_config\<lparr>cfg_services := rev (cfg_services demo_config)\<rparr>) = Some (Inr p)" by simp
  with mesh_generation_ignores_services [OF p(1) this] p(1) show ?thesis by blast
qed

text \<open>
  Slot allocation: it succeeds exactly when no bucket holds more identities than its capacity;
  then the slot of each identity is the first slot of its bucket plus its rank among the identities
  of that bucket, so it depends on no other bucket; slots are distinct and below the total.
\<close>

theorem allocate_bucketed_spec:
  assumes "distinct ids" "0 < slots" "0 < desired"
  shows "((\<exists>m. allocate_bucketed sha256 ids slots desired kind = Inr m) \<longleftrightarrow>
      (\<forall>b. card {x \<in> set ids. bucket_for sha256 slots desired x = b} \<le> min desired slots)) \<and>
    (\<forall>m. allocate_bucketed sha256 ids slots desired kind = Inr m \<longrightarrow>
      (\<forall>x. map_of m x = (if x \<in> set ids then Some (slot_in sha256 slots desired (set ids) x) else None)) \<and>
      (\<forall>x \<in> set ids. slot_in sha256 slots desired (set ids) x < slots) \<and>
      inj_on (slot_in sha256 slots desired (set ids)) (set ids))"
proof -
  let ?c = "capacity_for slots desired" and ?f = "bucket_for sha256 slots desired"
  let ?g = "bt_group ?f (\<lambda>i. i) ids"
  have ex: "\<exists>m. allocate_bucketed sha256 ids slots desired kind = Inr m"
    if small: "\<forall>b. card {x \<in> set ids. ?f x = b} \<le> ?c"
  proof -
    have "length (snd e) \<le> ?c" if e: "e \<in> set ?g" for e
    proof -
      have "map_of ?g (fst e) = Some (snd e)" using e by (simp add: bt_get_mem [OF bt_wf_group])
      then have "snd e = filter (\<lambda>y. ?f y = fst e) ids" by (auto simp: bt_get_group split: if_splits)
      then have "length (snd e) = card {y \<in> set ids. ?f y = fst e}"
        using distinct_card [OF distinct_filter [OF assms(1)], of "\<lambda>y. ?f y = fst e"] by simp
      then show ?thesis using small by simp
    qed
    then have "\<exists>m. assign_buckets kind ?c ?g [] = Inr m" using assign_buckets_Inr by blast
    then show ?thesis by (cases "ids = []") (auto simp: allocate_bucketed_def Let_def)
  qed
  have cap: "\<forall>b. card {x \<in> set ids. ?f x = b} \<le> ?c" if "\<exists>m. allocate_bucketed sha256 ids slots desired kind = Inr m"
    using that by (elim exE) (rule allI, rule allocate_bucketed_get(3) [OF _ assms(1)])
  have "(\<forall>x. map_of m x = (if x \<in> set ids then Some (slot_in sha256 slots desired (set ids) x) else None)) \<and>
      (\<forall>x \<in> set ids. slot_in sha256 slots desired (set ids) x < slots) \<and>
      inj_on (slot_in sha256 slots desired (set ids)) (set ids)"
    if run: "allocate_bucketed sha256 ids slots desired kind = Inr m" for m
  proof (intro conjI allI ballI inj_onI)
    show "map_of m x = (if x \<in> set ids then Some (slot_in sha256 slots desired (set ids) x) else None)" for x
      by (rule allocate_bucketed_get(2) [OF run assms(1)])
    show "slot_in sha256 slots desired (set ids) x < slots" if "x \<in> set ids" for x
      by (rule slot_bounds(1) [OF run assms that])
    show "x = y" if "x \<in> set ids" "y \<in> set ids"
      "slot_in sha256 slots desired (set ids) x = slot_in sha256 slots desired (set ids) y" for x y
      by (rule slot_bounds(2) [OF run assms that])
  qed
  then show ?thesis using iffI [OF cap ex] by blast
qed

theorem allocate_bucketed_spec_witness:
  "(\<exists>m. allocate_bucketed demo_sha256 [''p:b'', ''p:a''] 32 8 ''servers'' = Inr m \<and>
     map_of m ''p:a'' = Some (slot_in demo_sha256 32 8 {''p:a'', ''p:b''} ''p:a''))"
proof -
  have "distinct [''p:b'', ''p:a'']" "(0 :: nat) < 32" "(0 :: nat) < 8" by simp_all
  note spec = allocate_bucketed_spec [OF this, of demo_sha256 "''servers''"]
  have "\<exists>m. allocate_bucketed demo_sha256 [''p:b'', ''p:a''] 32 8 ''servers'' = Inr m"
    by (simp add: allocate_bucketed_def Let_def bucket_of_def stable_hash_def bt_group_def bt_push_def)
  then obtain m where m: "allocate_bucketed demo_sha256 [''p:b'', ''p:a''] 32 8 ''servers'' = Inr m" by blast
  with spec have "map_of m ''p:a'' = (if ''p:a'' \<in> set [''p:b'', ''p:a'']
      then Some (slot_in demo_sha256 32 8 (set [''p:b'', ''p:a'']) ''p:a'') else None)" by blast
  moreover have "set [''p:b'', ''p:a''] = {''p:a'', ''p:b''}" by (simp only: list.set insert_commute)
  moreover have "''p:a'' \<in> set [''p:b'', ''p:a'']" by (simp only: list.set insert_iff simp_thms)
  ultimately have "map_of m ''p:a'' = Some (slot_in demo_sha256 32 8 {''p:a'', ''p:b''} ''p:a'')"
    by (simp only: if_True)
  with m show ?thesis by blast
qed

end
