(* ===== verification/Replay.thy ===== *)
theory Replay
  imports Prelude
begin

text \<open>
  The three replicated views of the agent (membership, catalog and desired state) share one shape:
  a map from keys to winning records, the set of record ids seen, and an \<open>apply\<close> step that
  accepts, supersedes, recognises a duplicate, or fails.
  The locale \<open>lww_view\<close> states the contract of such a step; inside it, once for all three, stand the
  facts about replaying an operation log: the winner of a key is the greatest record of that key,
  replicas that accept the same records agree, and deleting superseded operations from the log
  changes nothing.
\<close>

section \<open>Outcomes and replay\<close>

datatype Apply = Applied | Duplicate | Superseded

text \<open>\<^verbatim>\<open>for record in records { view.apply(record)?; }\<close>\<close>

fun replay :: "('v \<Rightarrow> 'r \<Rightarrow> ('e, Apply \<times> 'v) result) \<Rightarrow> 'v \<Rightarrow> 'r list \<Rightarrow> ('e, 'v) result" where
  "replay step v [] = Inr v"
| "replay step v (r # rs) = (case step v r of Inl e \<Rightarrow> Inl e | Inr (_, v') \<Rightarrow> replay step v' rs)"

lemma replay_append:
  "replay step v (xs @ ys) = (case replay step v xs of Inl e \<Rightarrow> Inl e | Inr v' \<Rightarrow> replay step v' ys)"
  by (induction step v xs rule: replay.induct) (auto split: sum.splits)

lemma replay_snoc:
  "replay step v (xs @ [r]) = Inr w \<longleftrightarrow> (\<exists>u out. replay step v xs = Inr u \<and> step u r = Inr (out, w))"
  by (auto simp: replay_append split: sum.splits)

text \<open>Replaying records together with their provenance, when the provenance no longer matters.\<close>

lemma replay_fst:
  assumes "\<And>v r p x. f v r p = Inr x \<Longrightarrow> step v r = Inr x" "replay (\<lambda>v (r, p). f v r p) v L = Inr w"
  shows "replay step v (map fst L) = Inr w"
  using assms(2)
proof (induction L arbitrary: v)
  case (Cons rp L)
  obtain r p where rp: "rp = (r, p)" by (cases rp)
  with Cons.prems obtain out u where u: "f v r p = Inr (out, u)" "replay (\<lambda>v (r, p). f v r p) u L = Inr w"
    by (auto split: sum.splits)
  with Cons.IH [OF u(2)] rp show ?case by (simp add: assms(1) [OF u(1)])
qed simp

section \<open>Keyed maps\<close>

definition keyed :: "('r \<Rightarrow> 'k::linorder) \<Rightarrow> ('k, 'r) btree_map \<Rightarrow> bool" where
  "keyed key m \<longleftrightarrow> bt_wf m \<and> (\<forall>k r. map_of m k = Some r \<longrightarrow> key r = k)"

lemma keyed_empty [simp]: "keyed key []"
  by (simp add: keyed_def)

lemma keyed_insert: "keyed key m \<Longrightarrow> keyed key (bt_insert (key r) r m)"
  by (auto simp: keyed_def)

lemma keyed_values: "keyed key m \<Longrightarrow> r \<in> set (bt_values m) \<longleftrightarrow> map_of m (key r) = Some r"
  by (auto simp: keyed_def bt_values_mem)

lemma keyed_values_mono:
  assumes "keyed key m" "keyed key n" "map_of m \<subseteq>\<^sub>m map_of n"
  shows "set (bt_values m) \<subseteq> set (bt_values n)"
proof
  fix r assume "r \<in> set (bt_values m)"
  then have "map_of m (key r) = Some r" by (simp only: keyed_values [OF assms(1)])
  then have "map_of n (key r) = Some r" using assms(3) by (auto simp: map_le_def dom_def)
  then show "r \<in> set (bt_values n)" by (simp only: keyed_values [OF assms(2)])
qed

lemma keyed_fst: "keyed key m \<Longrightarrow> map key (bt_values m) = map fst m"
  by (auto simp: keyed_def bt_values_def bt_get_mem)

lemma keyed_rebuild:
  assumes "keyed key m"
  shows "foldl (\<lambda>t r. bt_insert (key r) r t) [] (bt_values m) = m" (is "?f = m")
proof (rule bt_ext)
  have wf: "bt_wf m" using assms by (simp add: keyed_def)
  show "bt_wf ?f" by (rule bt.wf_fold_ins) simp
  show "bt_wf m" by (rule wf)
  have d: "distinct (map key (bt_values m))" using keyed_fst [OF assms] bt_wf_distinct [OF wf] by simp
  show "map_of ?f = map_of m"
  proof
    fix k show "map_of ?f k = map_of m k"
    proof (cases "map_of m k")
      case (Some r)
      then have "key r = k" "r \<in> set (bt_values m)" using assms bt_get_Some_mem by (auto simp: keyed_def)
      with bt.get_fold_ins [OF d, of r "\<lambda>x. x" "[]"] Some show ?thesis by simp
    next
      case None
      have "k \<notin> key ` set (bt_values m)"
      proof
        assume "k \<in> key ` set (bt_values m)"
        then obtain r where "r \<in> set (bt_values m)" "key r = k" by blast
        with keyed_values [OF assms, of r] None show False by simp
      qed
      from bt.get_fold_ins_notin [OF this, of "\<lambda>x. x" "[]"] None show ?thesis by simp
    qed
  qed
qed

section \<open>The contract of a last-writer-wins step\<close>

locale lww_view =
  fixes step :: "'v \<Rightarrow> 'r \<Rightarrow> ('e, Apply \<times> 'v) result"
    and empty :: 'v
    and recs :: "'v \<Rightarrow> ('k::linorder, 'r) btree_map"
    and ids :: "'v \<Rightarrow> 'i set"
    and key :: "'r \<Rightarrow> 'k"
    and rid :: "'r \<Rightarrow> 'i"
    and ord :: "'r \<Rightarrow> 'o::linorder"
  assumes recs_empty: "recs empty = []"
    and ids_empty: "ids empty = {}"
    and ord_rid: "ord r = ord s \<Longrightarrow> rid r = rid s"
    and duplicate: "step v r = Inr (Duplicate, v') \<Longrightarrow> v' = v \<and> rid r \<in> ids v"
    and superseded: "step v r = Inr (Superseded, v') \<Longrightarrow>
      recs v' = recs v \<and> ids v' = insert (rid r) (ids v) \<and> rid r \<notin> ids v \<and>
      (\<exists>c. map_of (recs v) (key r) = Some c \<and> ord r \<le> ord c)"
    and applied: "step v r = Inr (Applied, v') \<Longrightarrow>
      recs v' = bt_insert (key r) r (recs v) \<and> ids v' = insert (rid r) (ids v) \<and> rid r \<notin> ids v \<and>
      (\<forall>c. map_of (recs v) (key r) = Some c \<longrightarrow> ord c < ord r)"
    and weaken: "step v r = Inr (Applied, v') \<Longrightarrow> keyed key (recs v) \<Longrightarrow> keyed key (recs w) \<Longrightarrow>
      map_of (recs w) \<subseteq>\<^sub>m map_of (recs v) \<Longrightarrow> map_of (recs w) (key r) = None \<Longrightarrow> rid r \<notin> ids w \<Longrightarrow>
      \<exists>w'. step w r = Inr (Applied, w')"
begin

lemma step_cases:
  assumes "step v r = Inr (out, v')"
  obtains (win) "out = Applied" "recs v' = bt_insert (key r) r (recs v)" "ids v' = insert (rid r) (ids v)"
      "rid r \<notin> ids v" "\<And>c. map_of (recs v) (key r) = Some c \<Longrightarrow> ord c < ord r"
  | (old) c where "out = Superseded" "recs v' = recs v" "ids v' = insert (rid r) (ids v)"
      "rid r \<notin> ids v" "map_of (recs v) (key r) = Some c" "ord r \<le> ord c"
  | (dup) "out = Duplicate" "v' = v" "rid r \<in> ids v"
proof (cases out)
  case Applied
  note a = applied [OF assms [unfolded Applied]]
  show thesis by (rule that(1)) (use Applied a in simp_all)
next
  case Duplicate
  note a = duplicate [OF assms [unfolded Duplicate]]
  show thesis by (rule that(3)) (use Duplicate a in simp_all)
next
  case Superseded
  then obtain c where "recs v' = recs v \<and> ids v' = insert (rid r) (ids v) \<and> rid r \<notin> ids v"
    "map_of (recs v) (key r) = Some c" "ord r \<le> ord c"
    using superseded [OF assms [unfolded Superseded]] by blast
  then show thesis by (intro that(2)) (use Superseded in simp_all)
qed

text \<open>Replaying keeps the map keyed; its winners come from the log and the ids are those of the log.\<close>

lemma replay_facts:
  assumes "replay step empty L = Inr v"
  shows "keyed key (recs v) \<and> ids v = rid ` set L \<and> set (bt_values (recs v)) \<subseteq> set L"
  using assms
proof (induction L arbitrary: v rule: rev_induct)
  case Nil
  then show ?case using recs_empty ids_empty by (auto simp: bt_values_def)
next
  case (snoc r L)
  then obtain u out where u: "replay step empty L = Inr u" and st: "step u r = Inr (out, v)"
    by (auto simp: replay_snoc)
  note IH = snoc.IH [OF u]
  from st show ?case
  proof (cases rule: step_cases)
    case win
    have "set (bt_values (recs v)) \<subseteq> insert r (set (bt_values (recs u)))"
      unfolding win(2) using IH by (intro bt.ins_del_vals) (simp add: keyed_def)
    then show ?thesis using IH win by (auto simp: keyed_insert)
  qed (use IH in auto)
qed

lemma replay_mem:
  assumes "replay step empty L = Inr v" "map_of (recs v) k = Some x"
  shows "x \<in> set L" "key x = k"
  using replay_facts [OF assms(1)] bt_get_Some_mem [OF assms(2)] assms(2) unfolding keyed_def by blast+

lemma replay_winner_later:
  assumes "replay step v Q = Inr w" "map_of (recs w) k = Some x"
  shows "map_of (recs v) k = Some x \<or> x \<in> set Q"
  using assms
proof (induction Q arbitrary: w rule: rev_induct)
  case (snoc r Q)
  then obtain u out where u: "replay step v Q = Inr u" and st: "step u r = Inr (out, w)"
    by (auto simp: replay_snoc)
  from st show ?case
    by (cases rule: step_cases) (use snoc.IH [OF u] snoc.prems(2) in \<open>auto split: if_splits\<close>)
qed simp

text \<open>The winner of a key is the greatest record of that key in the log.\<close>

lemma replay_winner_max:
  assumes "replay step empty L = Inr v" "inj_on rid (set L)" "r \<in> set L"
  shows "\<exists>c. map_of (recs v) (key r) = Some c \<and> ord r \<le> ord c"
  using assms
proof (induction L arbitrary: v rule: rev_induct)
  case (snoc s L)
  then obtain u out where u: "replay step empty L = Inr u" and st: "step u s = Inr (out, v)"
    by (auto simp: replay_snoc)
  have IH: "\<exists>c. map_of (recs u) (key r) = Some c \<and> ord r \<le> ord c" if "r \<in> set L"
    using snoc.IH [OF u _ that] snoc.prems(2) by (auto intro: inj_on_subset)
  have new: "r = s" if "r \<notin> set L" using that snoc.prems(3) by simp
  from st show ?case
  proof (cases rule: step_cases)
    case win
    show ?thesis
    proof (cases "r \<in> set L \<and> key r = key s")
      case True
      with IH obtain c where "map_of (recs u) (key r) = Some c" "ord r \<le> ord c" by blast
      with win(5) True show ?thesis by (force simp: win(2))
    next
      case False
      with IH new show ?thesis by (cases "r \<in> set L") (auto simp: win(2))
    qed
  next
    case (old c)
    then show ?thesis using IH new by auto
  next
    case dup
    then obtain t where "t \<in> set L" "rid t = rid s" using replay_facts [OF u] by auto
    then have "s \<in> set L" using snoc.prems(2) by (metis inj_onD in_set_conv_decomp set_append UnI1)
    then have "r \<in> set L" using snoc.prems(3) by auto
    then show ?thesis using IH dup by simp
  qed
qed simp

lemma replay_winner_unique:
  assumes "replay step empty L = Inr v" "inj_on rid (set L)"
  shows "map_of (recs v) k = Some c \<longleftrightarrow> c \<in> set L \<and> key c = k \<and> (\<forall>r \<in> set L. key r = k \<longrightarrow> ord r \<le> ord c)"
proof
  note facts = replay_facts [OF assms(1)]
  {
    assume c: "map_of (recs v) k = Some c"
    note k = replay_mem(2) [OF assms(1) c]
    have "c \<in> set L" by (rule replay_mem(1) [OF assms(1) c])
    moreover have "ord r \<le> ord c" if "r \<in> set L" "key r = k" for r
      using replay_winner_max [OF assms that(1)] that(2) c by auto
    ultimately show "c \<in> set L \<and> key c = k \<and> (\<forall>r \<in> set L. key r = k \<longrightarrow> ord r \<le> ord c)"
      using k by blast
  next
    assume c: "c \<in> set L \<and> key c = k \<and> (\<forall>r \<in> set L. key r = k \<longrightarrow> ord r \<le> ord c)"
    then obtain d where d: "map_of (recs v) k = Some d" "ord c \<le> ord d"
      using replay_winner_max [OF assms, of c] by auto
    note mem = replay_mem [OF assms(1) d(1)]
    with c d have "ord c = ord d" by (intro antisym) auto
    then have "rid c = rid d" by (rule ord_rid)
    then have "c = d" using assms(2) c mem(1) by (meson inj_onD)
    with d show "map_of (recs v) k = Some c" by simp
  }
qed

text \<open>Replicas that accepted the same records, in whatever order, have the same winners.\<close>

lemma replay_converges:
  assumes "replay step empty L = Inr v" "replay step empty M = Inr w" "set L = set M" "inj_on rid (set L)"
  shows "recs v = recs w"
proof (rule bt_ext)
  show "bt_wf (recs v)" "bt_wf (recs w)"
    using replay_facts [OF assms(1)] replay_facts [OF assms(2)] by (simp_all add: keyed_def)
  have "map_of (recs v) k = Some c \<longleftrightarrow> map_of (recs w) k = Some c" for k c
    using replay_winner_unique [OF assms(1,4)] replay_winner_unique [OF assms(2)] assms(3,4) by simp
  then show "map_of (recs v) = map_of (recs w)" by (intro ext) (metis not_None_eq)
qed

text \<open>Deleting every operation that is no longer a winner: the log still replays, to the same map.\<close>

lemma compact_step:
  assumes u: "replay step empty P = Inr u" and st: "step u r = Inr (out, u')" and rest: "replay step u' Q = Inr v"
    and fresh: "rid r \<notin> rid ` set P" and late: "r \<notin> set Q" "set P \<inter> set Q = {}"
    and kw: "keyed key (recs w)" and iw: "ids w \<subseteq> rid ` set P"
    and rel: "\<forall>k x. map_of (recs w) k = Some x \<longleftrightarrow> map_of (recs u) k = Some x \<and> map_of (recs v) k = Some x"
  shows "map_of (recs v) (key r) = Some r \<Longrightarrow> \<exists>w'. step w r = Inr (Applied, w') \<and>
      (\<forall>k x. map_of (recs w') k = Some x \<longleftrightarrow> map_of (recs u') k = Some x \<and> map_of (recs v) k = Some x)"
    and "map_of (recs v) (key r) \<noteq> Some r \<Longrightarrow>
      map_of (recs w) k = Some x \<longleftrightarrow> map_of (recs u') k = Some x \<and> map_of (recs v) k = Some x"
proof -
  note fu = replay_facts [OF u]
  have notr: "map_of (recs u) (key r) \<noteq> Some r"
  proof
    assume "map_of (recs u) (key r) = Some r"
    from replay_mem(1) [OF u this] fresh show False by simp
  qed
  {
    assume fin: "map_of (recs v) (key r) = Some r"
    have "map_of (recs u') (key r) = Some r" using replay_winner_later [OF rest fin] late(1) by simp
    with notr have ap: "out = Applied" by - (rule step_cases [OF st]; simp)
    note au = applied [OF st [unfolded ap]]
    have none: "map_of (recs w) (key r) = None"
    proof (rule ccontr)
      assume "map_of (recs w) (key r) \<noteq> None"
      then obtain x where "map_of (recs w) (key r) = Some x" by blast
      then have "map_of (recs u) (key r) = Some x" "map_of (recs v) (key r) = Some x" using rel by simp_all
      with fin notr show False by simp
    qed
    have "map_of (recs w) \<subseteq>\<^sub>m map_of (recs u)"
      unfolding map_le_def
    proof
      fix k assume "k \<in> dom (map_of (recs w))"
      then obtain x where "map_of (recs w) k = Some x" by blast
      then show "map_of (recs w) k = map_of (recs u) k" using rel by simp
    qed
    moreover have "rid r \<notin> ids w" using iw fresh by blast
    ultimately obtain w' where w': "step w r = Inr (Applied, w')"
      using weaken [OF st [unfolded ap] _ kw _ none] fu by blast
    have "map_of (recs w') k = Some x \<longleftrightarrow> map_of (recs u') k = Some x \<and> map_of (recs v) k = Some x" for k x
    proof (cases "k = key r")
      case True
      then show ?thesis using au applied [OF w'] fin by auto
    next
      case False
      then show ?thesis using au applied [OF w'] rel by simp
    qed
    with w' show "\<exists>w'. step w r = Inr (Applied, w') \<and>
      (\<forall>k x. map_of (recs w') k = Some x \<longleftrightarrow> map_of (recs u') k = Some x \<and> map_of (recs v) k = Some x)" by blast
  }
  assume fin: "map_of (recs v) (key r) \<noteq> Some r"
  show "map_of (recs w) k = Some x \<longleftrightarrow> map_of (recs u') k = Some x \<and> map_of (recs v) k = Some x"
  proof
    assume "map_of (recs w) k = Some x"
    then have x: "map_of (recs u) k = Some x" "map_of (recs v) k = Some x" using rel by simp_all
    then have "x \<notin> set Q" using replay_mem(1) [OF u x(1)] late(2) by blast
    then show "map_of (recs u') k = Some x \<and> map_of (recs v) k = Some x"
      using replay_winner_later [OF rest x(2)] x(2) by simp
  next
    assume x: "map_of (recs u') k = Some x \<and> map_of (recs v) k = Some x"
    have "map_of (recs u) k = Some x"
    proof (rule step_cases [OF st])
      assume r: "recs u' = bt_insert (key r) r (recs u)"
      show ?thesis
      proof (cases "k = key r")
        case True
        with r x have "x = r" by simp
        with x True fin show ?thesis by simp
      qed (use r x in simp)
    qed (use x in simp_all)
    then show "map_of (recs w) k = Some x" using rel x by simp
  qed
qed

lemma replay_compact:
  assumes run: "replay step empty L = Inr v" and dist: "distinct (map rid L)"
  shows "\<exists>w. replay step empty (filter (\<lambda>r. rid r \<in> rid ` set (bt_values (recs v))) L) = Inr w \<and> recs w = recs v"
proof -
  define win where "win r \<longleftrightarrow> map_of (recs v) (key r) = Some r" for r
  have inj: "inj_on rid (set L)" using dist by (simp add: distinct_map)
  have final: "set (bt_values (recs v)) \<subseteq> set L" "keyed key (recs v)" using replay_facts [OF run] by auto
  have "rid r \<in> rid ` set (bt_values (recs v)) \<longleftrightarrow> win r" if "r \<in> set L" for r
    unfolding win_def keyed_values [OF final(2), symmetric] by (rule inj_on_image_mem_iff [OF inj that final(1)])
  then have flt: "filter (\<lambda>r. rid r \<in> rid ` set (bt_values (recs v))) L = filter win L" by (rule filter_cong [OF refl])
  have sub: "\<exists>u w. replay step empty P = Inr u \<and> replay step empty (filter win P) = Inr w \<and>
      (\<forall>k r. map_of (recs w) k = Some r \<longleftrightarrow> map_of (recs u) k = Some r \<and> map_of (recs v) k = Some r)"
    if "L = P @ Q" for P Q
    using that
  proof (induction P arbitrary: Q rule: rev_induct)
    case Nil
    show ?case by (simp add: recs_empty)
  next
    case (snoc r P)
    have L: "L = P @ (r # Q)" using snoc.prems by simp
    obtain u w where u: "replay step empty P = Inr u" and w: "replay step empty (filter win P) = Inr w"
      and rel: "\<forall>k x. map_of (recs w) k = Some x \<longleftrightarrow> map_of (recs u) k = Some x \<and> map_of (recs v) k = Some x"
      using snoc.IH [OF L] by blast
    have "replay step u (r # Q) = Inr v" using run unfolding L replay_append u by simp
    then obtain out u' where st: "step u r = Inr (out, u')" and rest: "replay step u' Q = Inr v"
      by (auto split: sum.splits)
    have u': "replay step empty (P @ [r]) = Inr u'" using u st by (auto simp: replay_snoc)
    have dl: "rid r \<notin> rid ` set P" "rid r \<notin> rid ` set Q" "rid ` set P \<inter> rid ` set Q = {}"
      using dist unfolding L by auto
    have late: "r \<notin> set Q" "set P \<inter> set Q = {}" using dl by blast+
    have "keyed key (recs w)" "ids w \<subseteq> rid ` set P" using replay_facts [OF w] by auto
    note cs = compact_step [OF u st rest dl(1) late this rel]
    show ?case
    proof (cases "win r")
      case True
      then obtain w' where "step w r = Inr (Applied, w')"
        "\<forall>k x. map_of (recs w') k = Some x \<longleftrightarrow> map_of (recs u') k = Some x \<and> map_of (recs v) k = Some x"
        using cs(1) unfolding win_def by blast
      moreover have "replay step empty (filter win (P @ [r])) = Inr w'"
        using True w calculation(1) by (simp add: replay_append)
      ultimately show ?thesis using u' by blast
    next
      case False
      then have "\<forall>k x. map_of (recs w) k = Some x \<longleftrightarrow> map_of (recs u') k = Some x \<and> map_of (recs v) k = Some x"
        using cs(2) unfolding win_def by blast
      moreover have "replay step empty (filter win (P @ [r])) = Inr w" using False w by simp
      ultimately show ?thesis using u' by blast
    qed
  qed
  from sub [of L "[]"] run obtain w where w: "replay step empty (filter win L) = Inr w"
    "\<forall>k r. map_of (recs w) k = Some r \<longleftrightarrow> map_of (recs v) k = Some r" by auto
  have "map_of (recs w) = map_of (recs v)" using w(2) by (intro ext) (metis not_None_eq)
  then have "recs w = recs v" using replay_facts [OF w(1)] final(2) by (intro bt_ext) (auto simp: keyed_def)
  with w(1) show ?thesis unfolding flt by blast
qed

end

section \<open>Logs with a materialised table\<close>

text \<open>
  A stored view: the log holds the accepted records under their ids, and the table holds, for every key, a
  row computed from the winner that replaying the log gives.
\<close>

definition log_ok ::
  "('v \<Rightarrow> 'r \<Rightarrow> ('e, Apply \<times> 'v) result) \<Rightarrow> 'v \<Rightarrow> ('v \<Rightarrow> ('k::linorder, 'r) btree_map) \<Rightarrow> ('r \<Rightarrow> 'i) \<Rightarrow> ('r \<Rightarrow> 'row) \<Rightarrow>
   ('i \<times> 'r) list \<Rightarrow> ('k, 'row) btree_map \<Rightarrow> bool" where
  "log_ok step ini recs rid row log table \<longleftrightarrow>
     distinct (map fst log) \<and> (\<forall>(i, r) \<in> set log. i = rid r) \<and>
     (\<exists>v. replay step ini (map snd log) = Inr v \<and> table = bt_map row (recs v))"

lemma log_ok_ids: "log_ok step ini recs rid row log table \<Longrightarrow> map rid (map snd log) = map fst log"
  by (auto simp: log_ok_def)

locale materialised_log = lww_view step empty recs ids key rid ord
  for step :: "'v \<Rightarrow> 'r \<Rightarrow> ('e, Apply \<times> 'v) result"
    and empty :: 'v
    and recs :: "'v \<Rightarrow> ('k::linorder, 'r) btree_map"
    and ids :: "'v \<Rightarrow> 'i set"
    and key :: "'r \<Rightarrow> 'k"
    and rid :: "'r \<Rightarrow> 'i"
    and ord :: "'r \<Rightarrow> 'o::linorder" +
  fixes row :: "'r \<Rightarrow> 'row"
    and row_id :: "'row \<Rightarrow> 'i"
  assumes row_id: "row_id (row r) = rid r"
begin

lemma log_ok_empty: "log_ok step empty recs rid row [] []"
  by (simp add: log_ok_def recs_empty)

lemma log_ok_append:
  assumes ok: "log_ok step empty recs rid row log table" and v: "replay step empty (map snd log) = Inr v"
    and st: "step v r = Inr (out, v')" and new: "rid r \<notin> fst ` set log"
  shows "log_ok step empty recs rid row (log @ [(rid r, r)]) (if out = Applied then bt_insert (key r) (row r) table else table)"
    and "replay step empty (map snd (log @ [(rid r, r)])) = Inr v'"
    and "out \<noteq> Duplicate"
proof -
  have t: "table = bt_map row (recs v)" using ok v by (auto simp: log_ok_def)
  have "ids v = rid ` set (map snd log)" using replay_facts [OF v] by blast
  then have "ids v = fst ` set log" using log_ok_ids [OF ok] by (metis list.set_map)
  with new have notin: "rid r \<notin> ids v" by simp
  show run: "replay step empty (map snd (log @ [(rid r, r)])) = Inr v'" using v st by (simp add: replay_append)
  show "out \<noteq> Duplicate" using notin duplicate st by blast
  have "bt_map row (recs v') = (if out = Applied then bt_insert (key r) (row r) table else table)"
    using st by (cases rule: step_cases) (simp_all add: t bt_map_insert)
  then show "log_ok step empty recs rid row (log @ [(rid r, r)]) (if out = Applied then bt_insert (key r) (row r) table else table)"
    using ok new run by (auto simp: log_ok_def)
qed

lemma log_ok_compact:
  assumes ok: "log_ok step empty recs rid row log table"
  shows "log_ok step empty recs rid row (filter (\<lambda>(i, _). i \<in> set (map row_id (bt_values table))) log) table"
proof -
  obtain v where v: "replay step empty (map snd log) = Inr v" "table = bt_map row (recs v)"
    using ok by (auto simp: log_ok_def)
  let ?P = "\<lambda>(i, r). i \<in> set (map row_id (bt_values table))" and ?Q = "\<lambda>r. rid r \<in> rid ` set (bt_values (recs v))"
  have ids: "i = rid r" if "(i, r) \<in> set log" for i r using ok that by (auto simp: log_ok_def)
  have "set (map row_id (bt_values table)) = rid ` set (bt_values (recs v))"
    by (simp add: v(2) image_image row_id)
  then have "filter ?P log = filter (?Q \<circ> snd) log" using ids by (auto intro!: filter_cong)
  then have "map snd (filter ?P log) = filter ?Q (map snd log)" by (simp add: filter_map)
  moreover have "distinct (map rid (map snd log))" unfolding log_ok_ids [OF ok] using ok by (simp add: log_ok_def)
  ultimately obtain w where "replay step empty (map snd (filter ?P log)) = Inr w" "recs w = recs v"
    using replay_compact [OF v(1)] by auto
  then show ?thesis using ok v(2) by (auto simp: log_ok_def distinct_map_filter)
qed

end

end
