(* ===== verification/Membership.thy ===== *)
theory Membership
  imports Replay Cidr
begin

text \<open>
  Mesh membership, \<^verbatim>\<open>crates/jiji-agent/src/membership.rs\<close>: the records, their validation, the view
  with its claim checks, and the attribution of a connection to a member.
  The content hash of a record is the parameter \<open>hash\<close>: SHA-256 over the record's JSON text belongs
  to the \<^verbatim>\<open>sha2\<close> and \<^verbatim>\<open>serde_json\<close> packages, and serialising these records cannot fail.
  Where a result depends on it, the hypothesis says that \<open>hash\<close> is injective on the records at hand.
\<close>

section \<open>Addresses\<close>

datatype IpAddr = V4 Ipv4Addr | V6 "128 word"

datatype SocketAddr = SocketAddr (sa_ip: IpAddr) (sa_port: nat)

section \<open>Records\<close>

definition MEMBERSHIP_PROTOCOL_VERSION :: nat where
  "MEMBERSHIP_PROTOCOL_VERSION = 1"

definition MEMBERSHIP_SCHEMA_VERSION :: nat where
  "MEMBERSHIP_SCHEMA_VERSION = 1"

datatype MembershipState = MActive | MTombstoned

record MembershipRecord =
  mr_project_id :: string
  mr_recovery_epoch :: u64
  mr_protocol_version :: nat
  mr_schema_version :: nat
  mr_node_id :: string
  mr_server_name :: string
  mr_wireguard_public_key :: string
  mr_management_address :: Ipv4Addr
  mr_container_subnet :: string
  mr_endpoints :: "SocketAddr list"
  mr_owner_epoch :: u64
  mr_revision :: u64
  mr_state :: MembershipState

datatype MembershipError =
    MSerialization
  | MInvalidRecord
  | MInvalidSubnet
  | MProtocolVersion nat
  | MSchemaVersion nat
  | MWrongProject
  | MRecoveryEpoch (m_expected: u64) (m_actual: u64)
  | MStaleOwnerEpoch
  | MTombstoneResurrection
  | MServerNameClaimed
  | MManagementAddressClaimed
  | MContainerSubnetClaimed
  | MWireGuardKeyClaimed

definition membership_validate :: "MembershipRecord \<Rightarrow> (MembershipError, unit) result" where
  "membership_validate r =
     (if mr_protocol_version r \<noteq> MEMBERSHIP_PROTOCOL_VERSION then Inl (MProtocolVersion (mr_protocol_version r))
      else if mr_schema_version r \<noteq> MEMBERSHIP_SCHEMA_VERSION then Inl (MSchemaVersion (mr_schema_version r))
      else if mr_project_id r = [] \<or> mr_node_id r = [] \<or> mr_server_name r = [] \<or>
              trim (mr_wireguard_public_key r) = [] \<or> mr_endpoints r = [] \<or> mr_revision r = 0 \<or> mr_owner_epoch r = 0
        then Inl MInvalidRecord
      else case parse_cidr (mr_container_subnet r) of Inl _ \<Rightarrow> Inl MInvalidSubnet | Inr _ \<Rightarrow> Inr ())"

record MembershipScope =
  ms_project_id :: string
  ms_recovery_epoch :: u64

record NodeIdentity =
  ni_project_id :: string
  ni_recovery_epoch :: u64
  ni_node_id :: string

definition scope :: "NodeIdentity \<Rightarrow> MembershipScope" where
  "scope n = \<lparr>ms_project_id = ni_project_id n, ms_recovery_epoch = ni_recovery_epoch n\<rparr>"

text \<open>The lower-case hexadecimal text of a digest of the record's JSON.\<close>

definition content_hash :: "(string \<Rightarrow> u8 list) \<Rightarrow> ('a \<Rightarrow> string) \<Rightarrow> 'a \<Rightarrow> string" where
  "content_hash sha256 json v = concat (map (\<lambda>byte. show_hex 2 (unat byte)) (sha256 (json v)))"

definition membership_order :: "MembershipRecord \<Rightarrow> string \<Rightarrow> u64 \<times> u64 \<times> nat \<times> string" where
  "membership_order r i =
     (mr_owner_epoch r, mr_revision r, (case mr_state r of MActive \<Rightarrow> 0 | MTombstoned \<Rightarrow> 1), i)"

section \<open>The view\<close>

record MembershipView =
  mv_records :: "(string, MembershipRecord) btree_map"
  mv_record_ids :: "string set"

definition membership_empty :: MembershipView where
  "membership_empty = \<lparr>mv_records = [], mv_record_ids = {}\<rparr>"

definition membership_active :: "MembershipView \<Rightarrow> MembershipRecord list" where
  "membership_active v = filter (\<lambda>r. mr_state r = MActive) (bt_values (mv_records v))"

fun claim_collision :: "MembershipRecord \<Rightarrow> MembershipRecord list \<Rightarrow> (MembershipError, unit) result" where
  "claim_collision candidate [] = Inr ()"
| "claim_collision candidate (current # rest) =
     (if mr_node_id current = mr_node_id candidate then claim_collision candidate rest
      else if mr_server_name current = mr_server_name candidate then Inl MServerNameClaimed
      else if mr_management_address current = mr_management_address candidate then Inl MManagementAddressClaimed
      else if mr_container_subnet current = mr_container_subnet candidate then Inl MContainerSubnetClaimed
      else if mr_wireguard_public_key current = mr_wireguard_public_key candidate then Inl MWireGuardKeyClaimed
      else claim_collision candidate rest)"

definition reject_claim_collisions :: "MembershipView \<Rightarrow> MembershipRecord \<Rightarrow> (MembershipError, unit) result" where
  "reject_claim_collisions v candidate = claim_collision candidate (membership_active v)"

definition membership_insert ::
  "(MembershipRecord \<Rightarrow> string) \<Rightarrow> MembershipView \<Rightarrow> MembershipRecord \<Rightarrow>
   (MembershipError, Apply \<times> MembershipView) result" where
  "membership_insert hash v r =
     (case (if mr_state r = MActive then reject_claim_collisions v r else Inr ()) of
        Inl e \<Rightarrow> Inl e
      | Inr _ \<Rightarrow> Inr (Applied, \<lparr>mv_records = bt_insert (mr_node_id r) r (mv_records v),
                              mv_record_ids = insert (hash r) (mv_record_ids v)\<rparr>))"

definition membership_apply ::
  "(MembershipRecord \<Rightarrow> string) \<Rightarrow> MembershipScope \<Rightarrow> MembershipView \<Rightarrow> MembershipRecord \<Rightarrow>
   (MembershipError, Apply \<times> MembershipView) result" where
  "membership_apply hash sc v r =
     (case membership_validate r of
        Inl e \<Rightarrow> Inl e
      | Inr _ \<Rightarrow>
          (if mr_project_id r \<noteq> ms_project_id sc then Inl MWrongProject
           else if mr_recovery_epoch r \<noteq> ms_recovery_epoch sc then
             Inl (MRecoveryEpoch (ms_recovery_epoch sc) (mr_recovery_epoch r))
           else if hash r \<in> mv_record_ids v then Inr (Duplicate, v)
           else
             case map_of (mv_records v) (mr_node_id r) of
               None \<Rightarrow> membership_insert hash v r
             | Some current \<Rightarrow>
                 (if mr_owner_epoch r < mr_owner_epoch current then Inl MStaleOwnerEpoch
                  else if membership_order r (hash r) \<le> membership_order current (hash current) then
                    Inr (Superseded, v\<lparr>mv_record_ids := insert (hash r) (mv_record_ids v)\<rparr>)
                  else if mr_state current = MTombstoned \<and> mr_state r = MActive \<and>
                          mr_owner_epoch r = mr_owner_epoch current then Inl MTombstoneResurrection
                  else membership_insert hash v r)))"

definition membership_from_records ::
  "(MembershipRecord \<Rightarrow> string) \<Rightarrow> MembershipScope \<Rightarrow> MembershipRecord list \<Rightarrow> (MembershipError, MembershipView) result" where
  "membership_from_records hash sc records = replay (membership_apply hash sc) membership_empty records"

definition membership_get :: "MembershipView \<Rightarrow> string \<Rightarrow> MembershipRecord option" where
  "membership_get v node_id = map_of (mv_records v) node_id"

definition membership_all :: "MembershipView \<Rightarrow> MembershipRecord list" where
  "membership_all v = bt_values (mv_records v)"

definition find_by_management_address :: "MembershipView \<Rightarrow> Ipv4Addr \<Rightarrow> MembershipRecord option" where
  "find_by_management_address v a = find (\<lambda>r. mr_management_address r = a) (bt_values (mv_records v))"

section \<open>Provenance\<close>

datatype RecordProvenance = Local | Verified | Peer SocketAddr

datatype ProvenanceError = UnknownPeer | NotOwner

definition authenticate :: "MembershipView \<Rightarrow> RecordProvenance \<Rightarrow> string \<Rightarrow> (ProvenanceError, unit) result" where
  "authenticate v provenance claimed_owner =
     (case provenance of
        Local \<Rightarrow> Inr ()
      | Verified \<Rightarrow> Inr ()
      | Peer source \<Rightarrow>
          (case sa_ip source of
             V6 _ \<Rightarrow> Inl UnknownPeer
           | V4 source_ip \<Rightarrow>
               (case find_by_management_address v source_ip of
                  None \<Rightarrow> Inl UnknownPeer
                | Some peer \<Rightarrow> (if mr_node_id peer \<noteq> claimed_owner then Inl NotOwner else Inr ()))))"

lemma authenticate_trusted [simp]: "authenticate v Local owner = Inr ()" "authenticate v Verified owner = Inr ()"
  by (simp_all add: authenticate_def)

section \<open>The view is a last-writer-wins view\<close>

definition no_claim_collision :: "MembershipRecord \<Rightarrow> MembershipRecord \<Rightarrow> bool" where
  "no_claim_collision a b \<longleftrightarrow>
     mr_server_name a \<noteq> mr_server_name b \<and> mr_management_address a \<noteq> mr_management_address b \<and>
     mr_container_subnet a \<noteq> mr_container_subnet b \<and> mr_wireguard_public_key a \<noteq> mr_wireguard_public_key b"

lemma claim_collision_Inr:
  "claim_collision c rs = Inr () \<longleftrightarrow> (\<forall>r \<in> set rs. mr_node_id r \<noteq> mr_node_id c \<longrightarrow> no_claim_collision r c)"
  by (induction c rs rule: claim_collision.induct) (auto simp: no_claim_collision_def)

lemma reject_claim_collisions_Inr:
  "reject_claim_collisions v c = Inr () \<longleftrightarrow>
     (\<forall>r \<in> set (bt_values (mv_records v)). mr_state r = MActive \<longrightarrow> mr_node_id r \<noteq> mr_node_id c \<longrightarrow> no_claim_collision r c)"
  by (auto simp: reject_claim_collisions_def claim_collision_Inr membership_active_def)

lemma membership_insert_Inr:
  "membership_insert hash v r = Inr (out, v') \<longleftrightarrow>
     out = Applied \<and> (mr_state r = MActive \<longrightarrow> reject_claim_collisions v r = Inr ()) \<and>
     v' = \<lparr>mv_records = bt_insert (mr_node_id r) r (mv_records v), mv_record_ids = insert (hash r) (mv_record_ids v)\<rparr>"
  by (auto simp: membership_insert_def split: sum.splits)

text \<open>What a record must satisfy on its own, whatever the view.\<close>

definition membership_admissible :: "MembershipScope \<Rightarrow> MembershipRecord \<Rightarrow> bool" where
  "membership_admissible sc r \<longleftrightarrow> membership_validate r = Inr () \<and>
     mr_project_id r = ms_project_id sc \<and> mr_recovery_epoch r = ms_recovery_epoch sc"

abbreviation mord :: "(MembershipRecord \<Rightarrow> string) \<Rightarrow> MembershipRecord \<Rightarrow> u64 \<times> u64 \<times> nat \<times> string" where
  "mord hash \<equiv> \<lambda>r. membership_order r (hash r)"

lemma membership_apply_Inr:
  "membership_apply hash sc v r = Inr (out, v') \<longleftrightarrow>
     membership_admissible sc r \<and>
     (hash r \<in> mv_record_ids v \<and> out = Duplicate \<and> v' = v \<or>
      hash r \<notin> mv_record_ids v \<and>
        (\<exists>c. map_of (mv_records v) (mr_node_id r) = Some c \<and> mr_owner_epoch c \<le> mr_owner_epoch r \<and>
           mord hash r \<le> mord hash c \<and> out = Superseded \<and> v' = v\<lparr>mv_record_ids := insert (hash r) (mv_record_ids v)\<rparr>) \<or>
      hash r \<notin> mv_record_ids v \<and> out = Applied \<and>
        (\<forall>c. map_of (mv_records v) (mr_node_id r) = Some c \<longrightarrow>
           mr_owner_epoch c \<le> mr_owner_epoch r \<and> mord hash c < mord hash r \<and>
           \<not> (mr_state c = MTombstoned \<and> mr_state r = MActive \<and> mr_owner_epoch r = mr_owner_epoch c)) \<and>
        (mr_state r = MActive \<longrightarrow> reject_claim_collisions v r = Inr ()) \<and>
        v' = \<lparr>mv_records = bt_insert (mr_node_id r) r (mv_records v), mv_record_ids = insert (hash r) (mv_record_ids v)\<rparr>)"
  (is "_ \<longleftrightarrow> ?rhs")
proof (cases "membership_admissible sc r \<and> hash r \<notin> mv_record_ids v")
  case False
  then show ?thesis
    by (auto simp: membership_apply_def membership_admissible_def split: sum.splits)
next
  case True
  then have "membership_apply hash sc v r =
    (case map_of (mv_records v) (mr_node_id r) of
       None \<Rightarrow> membership_insert hash v r
     | Some current \<Rightarrow>
         (if mr_owner_epoch r < mr_owner_epoch current then Inl MStaleOwnerEpoch
          else if mord hash r \<le> mord hash current then
            Inr (Superseded, v\<lparr>mv_record_ids := insert (hash r) (mv_record_ids v)\<rparr>)
          else if mr_state current = MTombstoned \<and> mr_state r = MActive \<and>
                  mr_owner_epoch r = mr_owner_epoch current then Inl MTombstoneResurrection
          else membership_insert hash v r))"
    by (simp add: membership_apply_def membership_admissible_def)
  with True show ?thesis
    by (cases "map_of (mv_records v) (mr_node_id r)") (auto simp: membership_insert_Inr not_less not_le)
qed

interpretation mview: lww_view "membership_apply hash sc" membership_empty mv_records mv_record_ids mr_node_id hash
    "mord hash" for hash sc
proof unfold_locales
  fix v v' w :: MembershipView and r
  assume ap: "membership_apply hash sc v r = Inr (Applied, v')" and kv: "keyed mr_node_id (mv_records v)"
    and kw: "keyed mr_node_id (mv_records w)" and le: "map_of (mv_records w) \<subseteq>\<^sub>m map_of (mv_records v)"
    and none: "map_of (mv_records w) (mr_node_id r) = None" and id: "hash r \<notin> mv_record_ids w"
  have sub: "set (bt_values (mv_records w)) \<subseteq> set (bt_values (mv_records v))"
    by (rule keyed_values_mono [OF kw kv le])
  have "mr_state r = MActive \<longrightarrow> reject_claim_collisions w r = Inr ()"
    using ap sub unfolding membership_apply_Inr reject_claim_collisions_Inr by blast
  then show "\<exists>w'. membership_apply hash sc w r = Inr (Applied, w')"
    using ap id none unfolding membership_apply_Inr by auto
qed (auto simp: membership_apply_Inr membership_empty_def membership_order_def)

section \<open>Invariants of a replayed view\<close>

text \<open>Claims of active nodes do not collide, and every winner passed the checks of its record.\<close>

definition membership_inv :: "MembershipScope \<Rightarrow> MembershipView \<Rightarrow> bool" where
  "membership_inv sc v \<longleftrightarrow> keyed mr_node_id (mv_records v) \<and>
     (\<forall>r \<in> set (membership_all v). membership_admissible sc r) \<and>
     (\<forall>a \<in> set (membership_active v). \<forall>b \<in> set (membership_active v).
        mr_node_id a \<noteq> mr_node_id b \<longrightarrow> no_claim_collision a b)"

lemma membership_inv_empty: "membership_inv sc membership_empty"
  by (simp add: membership_inv_def membership_empty_def membership_all_def membership_active_def bt_values_def)

lemma membership_inv_apply:
  assumes inv: "membership_inv sc v" and ap: "membership_apply hash sc v r = Inr (out, v')"
  shows "membership_inv sc v'"
proof (cases "out = Applied")
  case False
  with ap have "mv_records v' = mv_records v" by (auto simp: membership_apply_Inr)
  with inv show ?thesis by (simp add: membership_inv_def membership_all_def membership_active_def)
next
  case True
  with ap have adm: "membership_admissible sc r" and rej: "mr_state r = MActive \<Longrightarrow> reject_claim_collisions v r = Inr ()"
    and rec: "mv_records v' = bt_insert (mr_node_id r) r (mv_records v)" by (auto simp: membership_apply_Inr)
  have k: "keyed mr_node_id (mv_records v)" "keyed mr_node_id (mv_records v')"
    using inv rec by (simp_all add: membership_inv_def keyed_insert)
  have old: "x = r \<or> x \<in> set (bt_values (mv_records v)) \<and> mr_node_id x \<noteq> mr_node_id r"
    if "x \<in> set (bt_values (mv_records v'))" for x
  proof -
    have "((map_of (mv_records v))(mr_node_id r \<mapsto> r)) (mr_node_id x) = Some x"
      using that unfolding keyed_values [OF k(2)] unfolding rec bt_get_insert .
    then show ?thesis unfolding keyed_values [OF k(1)] by (cases "mr_node_id x = mr_node_id r") simp_all
  qed
  have new: "no_claim_collision x r \<and> no_claim_collision r x"
    if "x \<in> set (bt_values (mv_records v))" "mr_state x = MActive" "mr_node_id x \<noteq> mr_node_id r" "mr_state r = MActive" for x
  proof -
    have "no_claim_collision x r" using rej [OF that(4)] that unfolding reject_claim_collisions_Inr by blast
    then show ?thesis by (auto simp: no_claim_collision_def)
  qed
  have "no_claim_collision a b"
    if "a \<in> set (membership_active v')" "b \<in> set (membership_active v')" "mr_node_id a \<noteq> mr_node_id b" for a b
  proof -
    have "a = r \<or> a \<in> set (membership_active v) \<and> mr_node_id a \<noteq> mr_node_id r"
      "b = r \<or> b \<in> set (membership_active v) \<and> mr_node_id b \<noteq> mr_node_id r" "mr_state a = MActive" "mr_state b = MActive"
      using old [of a] old [of b] that(1,2) by (auto simp: membership_active_def)
    moreover have "no_claim_collision a b" if "a \<in> set (membership_active v)" "b \<in> set (membership_active v)"
      using inv that \<open>mr_node_id a \<noteq> mr_node_id b\<close> by (simp add: membership_inv_def)
    moreover have "x \<in> set (bt_values (mv_records v))" if "x \<in> set (membership_active v)" for x
      using that by (simp add: membership_active_def)
    ultimately show ?thesis using new that(3) by metis
  qed
  moreover have "\<forall>x \<in> set (membership_all v'). membership_admissible sc x"
    using old inv adm unfolding membership_inv_def membership_all_def by blast
  ultimately show ?thesis using k(2) by (simp add: membership_inv_def)
qed

lemma membership_inv_replay:
  "membership_inv sc v \<Longrightarrow> replay (membership_apply hash sc) v L = Inr w \<Longrightarrow> membership_inv sc w"
  by (induction "membership_apply hash sc" v L arbitrary: w rule: replay.induct)
    (auto split: sum.splits dest: membership_inv_apply)

lemmas membership_inv_from_records = membership_inv_replay [OF membership_inv_empty]

lemma membership_inv_address:
  assumes "membership_inv sc v" "a \<in> set (membership_active v)" "b \<in> set (membership_active v)"
    "mr_management_address a = mr_management_address b"
  shows "a = b"
proof -
  have "mr_node_id a = mr_node_id b" using assms unfolding membership_inv_def no_claim_collision_def by blast
  moreover have "keyed mr_node_id (mv_records v)" using assms(1) by (simp add: membership_inv_def)
  ultimately show ?thesis using assms(2,3) by (auto simp: membership_active_def keyed_values)
qed

text \<open>Moving from one winner of a node to a later one.\<close>

definition succeeds :: "(MembershipRecord \<Rightarrow> string) \<Rightarrow> MembershipRecord \<Rightarrow> MembershipRecord \<Rightarrow> bool" where
  "succeeds hash c c' \<longleftrightarrow> mord hash c \<le> mord hash c' \<and>
     (mr_state c = MTombstoned \<and> mr_state c' = MActive \<longrightarrow> mr_owner_epoch c < mr_owner_epoch c')"

lemma mord_epoch: "mord hash a \<le> mord hash b \<Longrightarrow> mr_owner_epoch a \<le> mr_owner_epoch b"
  by (auto simp: membership_order_def)

lemma succeeds_refl [simp]: "succeeds hash c c"
  by (simp add: succeeds_def)

lemma succeeds_trans:
  assumes ab: "succeeds hash a b" and bc: "succeeds hash b c"
  shows "succeeds hash a c"
proof -
  have e: "mr_owner_epoch a \<le> mr_owner_epoch b" "mr_owner_epoch b \<le> mr_owner_epoch c"
    using ab bc unfolding succeeds_def by (blast intro: mord_epoch)+
  have "mord hash a \<le> mord hash c" using ab bc unfolding succeeds_def by (blast intro: order.trans)
  moreover have "mr_owner_epoch a < mr_owner_epoch c" if "mr_state a = MTombstoned" "mr_state c = MActive"
    using ab bc e that unfolding succeeds_def
    by (cases "mr_state b") (auto dest: order_le_less_trans order_less_le_trans)
  ultimately show ?thesis by (simp add: succeeds_def)
qed

lemma membership_apply_succeeds:
  assumes "membership_apply hash sc v r = Inr (out, v')" "map_of (mv_records v) k = Some c"
  shows "\<exists>c'. map_of (mv_records v') k = Some c' \<and> succeeds hash c c'"
proof (cases "out = Applied \<and> k = mr_node_id r")
  case True
  with assms have "mr_owner_epoch c \<le> mr_owner_epoch r" "mord hash c < mord hash r"
    "\<not> (mr_state c = MTombstoned \<and> mr_state r = MActive \<and> mr_owner_epoch r = mr_owner_epoch c)"
    "map_of (mv_records v') k = Some r" by (auto simp: membership_apply_Inr)
  then show ?thesis by (auto simp: succeeds_def)
next
  case False
  with assms have "map_of (mv_records v') k = Some c" by (auto simp: membership_apply_Inr)
  then show ?thesis by simp
qed

lemma membership_replay_succeeds:
  assumes "replay (membership_apply hash sc) v L = Inr w" "map_of (mv_records v) k = Some c"
  shows "\<exists>c'. map_of (mv_records w) k = Some c' \<and> succeeds hash c c'"
  using assms
proof (induction L arbitrary: v c)
  case (Cons r L)
  then obtain out u where u: "membership_apply hash sc v r = Inr (out, u)" "replay (membership_apply hash sc) u L = Inr w"
    by (auto split: sum.splits)
  from membership_apply_succeeds [OF u(1) Cons.prems(2)] obtain b
    where b: "map_of (mv_records u) k = Some b" "succeeds hash c b" by blast
  from Cons.IH [OF u(2) b(1)] b(2) show ?case by (blast intro: succeeds_trans)
qed simp

section \<open>Sample records\<close>

definition demo_member :: "string \<Rightarrow> Ipv4Addr \<Rightarrow> string \<Rightarrow> u64 \<Rightarrow> u64 \<Rightarrow> MembershipState \<Rightarrow> MembershipRecord" where
  "demo_member n addr net epoch revision st =
     \<lparr>mr_project_id = ''p'', mr_recovery_epoch = 1, mr_protocol_version = 1, mr_schema_version = 1, mr_node_id = n,
      mr_server_name = ''s'' @ n, mr_wireguard_public_key = ''k'' @ n, mr_management_address = addr,
      mr_container_subnet = net, mr_endpoints = [SocketAddr (V4 7) 1], mr_owner_epoch = epoch,
      mr_revision = revision, mr_state = st\<rparr>"

definition demo_scope :: MembershipScope where
  "demo_scope = \<lparr>ms_project_id = ''p'', ms_recovery_epoch = 1\<rparr>"

definition demo_hash :: "MembershipRecord \<Rightarrow> string" where
  "demo_hash r = mr_node_id r @ (if mr_revision r = 1 then ''1'' else ''2'')"

abbreviation node_a :: MembershipRecord where
  "node_a \<equiv> demo_member ''a'' 10 ''10.0.0.0/24'' 1 1 MActive"

abbreviation node_a_gone :: MembershipRecord where
  "node_a_gone \<equiv> demo_member ''a'' 10 ''10.0.0.0/24'' 1 2 MTombstoned"

abbreviation node_b :: MembershipRecord where
  "node_b \<equiv> demo_member ''b'' 11 ''10.0.1.0/24'' 1 1 MActive"

definition demo_view :: MembershipView where
  "demo_view = \<lparr>mv_records = [(''a'', node_a), (''b'', node_b)], mv_record_ids = {''a1'', ''b1''}\<rparr>"

lemma demo_subnets:
  "\<exists>c. parse_cidr ''10.0.0.0/24'' = Inr c" "\<exists>c. parse_cidr ''10.0.1.0/24'' = Inr c"
  by (simp_all add: parse_cidr_def text_eval cidr_new_def prefix_mask_def mask_eq_exp_minus_1)

lemma demo_admissible:
  "membership_admissible demo_scope node_a" "membership_admissible demo_scope node_a_gone"
  "membership_admissible demo_scope node_b"
  "membership_admissible demo_scope (demo_member ''b'' 10 ''10.0.1.0/24'' 1 1 MActive)"
  using demo_subnets
  by (auto simp: membership_admissible_def membership_validate_def demo_member_def demo_scope_def
      MEMBERSHIP_PROTOCOL_VERSION_def MEMBERSHIP_SCHEMA_VERSION_def is_plain_def is_whitespace_def)

lemmas demo_eval = membership_from_records_def membership_empty_def membership_apply_Inr reject_claim_collisions_Inr
  no_claim_collision_def demo_member_def membership_order_def demo_hash_def demo_view_def bt_values_def

lemma demo_steps:
  "membership_apply demo_hash demo_scope membership_empty node_a =
     Inr (Applied, \<lparr>mv_records = [(''a'', node_a)], mv_record_ids = {''a1''}\<rparr>)"
  "membership_apply demo_hash demo_scope \<lparr>mv_records = [(''a'', node_a)], mv_record_ids = {''a1''}\<rparr> node_b =
     Inr (Applied, demo_view)"
  "membership_apply demo_hash demo_scope membership_empty node_b =
     Inr (Applied, \<lparr>mv_records = [(''b'', node_b)], mv_record_ids = {''b1''}\<rparr>)"
  "membership_apply demo_hash demo_scope \<lparr>mv_records = [(''b'', node_b)], mv_record_ids = {''b1''}\<rparr> node_a =
     Inr (Applied, demo_view)"
  "membership_apply demo_hash demo_scope demo_view node_a_gone =
     Inr (Applied, \<lparr>mv_records = [(''a'', node_a_gone), (''b'', node_b)], mv_record_ids = {''a2'', ''a1'', ''b1''}\<rparr>)"
  unfolding membership_apply_Inr reject_claim_collisions_Inr
  by (simp_all add: demo_admissible) (auto simp: demo_eval)

section \<open>Properties\<close>

text \<open>C1. Whatever records a replica replays, no two active nodes of the resulting view share a server
  name, a management address, a container subnet or a WireGuard key, every winner is a valid record of
  the replica's project and recovery epoch, and the lookup by node id returns that node's record.\<close>

theorem membership_claims_unique:
  assumes "membership_from_records hash sc L = Inr v"
  shows "membership_inv sc v \<and> (\<forall>n r. membership_get v n = Some r \<longrightarrow> mr_node_id r = n \<and> r \<in> set L)"
proof -
  have "membership_inv sc v" using assms unfolding membership_from_records_def by (rule membership_inv_from_records)
  moreover have "mr_node_id r = n \<and> r \<in> set L" if "membership_get v n = Some r" for n r
    using mview.replay_mem assms that unfolding membership_from_records_def membership_get_def by blast
  ultimately show ?thesis by blast
qed

theorem membership_claims_unique_witness:
  "membership_from_records demo_hash demo_scope [node_a, node_b] = Inr demo_view \<and> membership_inv demo_scope demo_view \<and>
   mr_node_id node_b = ''b''"
proof -
  have run: "membership_from_records demo_hash demo_scope [node_a, node_b] = Inr demo_view"
    by (simp add: membership_from_records_def demo_steps)
  have "membership_get demo_view ''b'' = Some node_b" by (simp add: membership_get_def demo_view_def)
  then show ?thesis using membership_claims_unique [OF run] run by blast
qed

text \<open>C3. Two replicas that accept the same membership records, each in its own order, end with the same
  view, provided distinct records of the log have distinct content hashes.\<close>

theorem membership_converges:
  assumes "membership_from_records hash sc L = Inr v" "membership_from_records hash sc M = Inr w"
    "set L = set M" "inj_on hash (set L)"
  shows "v = w"
proof -
  have "mv_records v = mv_records w"
    using mview.replay_converges assms unfolding membership_from_records_def by blast
  moreover have "mv_record_ids v = mv_record_ids w"
    using mview.replay_facts assms unfolding membership_from_records_def by metis
  ultimately show ?thesis by simp
qed

theorem membership_converges_witness:
  "membership_from_records demo_hash demo_scope [node_a, node_b] =
   membership_from_records demo_hash demo_scope [node_b, node_a] \<and> inj_on demo_hash {node_a, node_b}"
proof -
  have "membership_from_records demo_hash demo_scope [node_a, node_b] = Inr demo_view"
    "membership_from_records demo_hash demo_scope [node_b, node_a] = Inr demo_view"
    by (simp_all add: membership_from_records_def demo_steps)
  moreover have "set [node_a, node_b] = set [node_b, node_a]" by auto
  moreover have "inj_on demo_hash (set [node_a, node_b])" by (simp add: demo_hash_def demo_member_def)
  ultimately show ?thesis using membership_converges by simp
qed

text \<open>C4. A node's record only ever moves forward: whatever further records a view accepts, a known node
  stays known, its owner epoch never decreases, its place in the record order never decreases, and a
  tombstoned node becomes active again only in a strictly greater owner epoch.\<close>

theorem membership_fencing:
  assumes "replay (membership_apply hash sc) v L = Inr w" "membership_get v n = Some c"
  shows "\<exists>c'. membership_get w n = Some c' \<and> mr_owner_epoch c \<le> mr_owner_epoch c' \<and>
    membership_order c (hash c) \<le> membership_order c' (hash c') \<and>
    (mr_state c = MTombstoned \<and> mr_state c' = MActive \<longrightarrow> mr_owner_epoch c < mr_owner_epoch c')"
  using membership_replay_succeeds [OF assms(1)] assms(2) mord_epoch
  unfolding membership_get_def succeeds_def by blast

theorem membership_fencing_witness:
  "replay (membership_apply demo_hash demo_scope) demo_view [node_a_gone] =
     Inr \<lparr>mv_records = [(''a'', node_a_gone), (''b'', node_b)], mv_record_ids = {''a2'', ''a1'', ''b1''}\<rparr> \<and>
   mr_owner_epoch node_a \<le> mr_owner_epoch node_a_gone"
proof -
  have run: "replay (membership_apply demo_hash demo_scope) demo_view [node_a_gone] =
      Inr \<lparr>mv_records = [(''a'', node_a_gone), (''b'', node_b)], mv_record_ids = {''a2'', ''a1'', ''b1''}\<rparr>"
    by (simp add: demo_steps)
  have "membership_get demo_view ''a'' = Some node_a" by (simp add: membership_get_def demo_view_def)
  from membership_fencing [OF run this] run show ?thesis by (simp add: membership_get_def)
qed

text \<open>C23. When no tombstone of the view still carries the management address of an active member, a peer's
  record is accepted for exactly one owner: the active member whose address the connection came from.\<close>

theorem authenticate_active_peer:
  assumes "membership_from_records hash sc L = Inr v" "a \<in> set (membership_active v)"
    "\<forall>t \<in> set (membership_all v). mr_state t = MTombstoned \<longrightarrow> mr_management_address t \<noteq> mr_management_address a"
  shows "authenticate v (Peer (SocketAddr (V4 (mr_management_address a)) port)) owner = Inr () \<longleftrightarrow> owner = mr_node_id a"
proof -
  let ?P = "\<lambda>r. mr_management_address r = mr_management_address a"
  have inv: "membership_inv sc v" using assms(1) unfolding membership_from_records_def by (rule membership_inv_from_records)
  have only: "x = a" if "x \<in> set (bt_values (mv_records v))" "?P x" for x
  proof -
    have "mr_state x = MActive"
      using that assms(3) unfolding membership_all_def by (cases "mr_state x") auto
    then have "x \<in> set (membership_active v)" using that(1) by (simp add: membership_active_def)
    then show ?thesis using membership_inv_address [OF inv _ assms(2) that(2)] by simp
  qed
  have "a \<in> set (bt_values (mv_records v))" using assms(2) by (simp add: membership_active_def)
  then obtain x where x: "find ?P (bt_values (mv_records v)) = Some x"
    by (cases "find ?P (bt_values (mv_records v))") (auto simp: find_None_iff)
  then have "x = a" using only by (auto simp: find_Some_iff)
  with x show ?thesis by (auto simp: authenticate_def find_by_management_address_def)
qed

theorem authenticate_active_peer_witness:
  "authenticate demo_view (Peer (SocketAddr (V4 11) 51820)) ''b'' = Inr () \<and>
   authenticate demo_view (Peer (SocketAddr (V4 11) 51820)) ''a'' \<noteq> Inr ()"
proof -
  have "membership_from_records demo_hash demo_scope [node_a, node_b] = Inr demo_view"
    by (simp add: membership_from_records_def demo_steps)
  moreover have "node_b \<in> set (membership_active demo_view)"
    by (simp add: membership_active_def demo_view_def bt_values_def demo_member_def)
  moreover have "\<forall>t \<in> set (membership_all demo_view). mr_state t = MTombstoned \<longrightarrow>
      mr_management_address t \<noteq> mr_management_address node_b"
    by (simp add: membership_all_def demo_view_def bt_values_def demo_member_def)
  ultimately show ?thesis
    using authenticate_active_peer [of demo_hash demo_scope _ demo_view node_b 51820] by (simp add: demo_member_def)
qed

text \<open>The lookup by address ignores the record's state: a tombstone with a smaller node id that still
  carries the address shadows the active member that now owns it, whose own records are then refused.\<close>

theorem authenticate_shadowed_by_tombstone:
  assumes "mr_management_address t = mr_management_address a" "mr_node_id t < mr_node_id a"
    "mr_state t = MTombstoned" "mr_state a = MActive" "hash t \<noteq> hash a"
    "membership_admissible sc t" "membership_admissible sc a"
  shows "\<exists>v. membership_from_records hash sc [t, a] = Inr v \<and> a \<in> set (membership_active v) \<and>
    authenticate v (Peer (SocketAddr (V4 (mr_management_address a)) port)) (mr_node_id a) = Inl NotOwner"
proof -
  define u where "u = \<lparr>mv_records = [(mr_node_id t, t)], mv_record_ids = {hash t}\<rparr>"
  define v where "v = \<lparr>mv_records = [(mr_node_id t, t), (mr_node_id a, a)], mv_record_ids = {hash a, hash t}\<rparr>"
  have "membership_apply hash sc membership_empty t = Inr (Applied, u)"
    using assms(3,6) by (simp add: membership_apply_Inr u_def membership_empty_def)
  moreover have "membership_apply hash sc u a = Inr (Applied, v)"
    using assms by (auto simp: membership_apply_Inr u_def v_def reject_claim_collisions_Inr bt_values_def)
  ultimately have "membership_from_records hash sc [t, a] = Inr v" by (simp add: membership_from_records_def)
  moreover have "a \<in> set (membership_active v)"
    using assms(4) by (simp add: v_def membership_active_def bt_values_def)
  moreover have "authenticate v (Peer (SocketAddr (V4 (mr_management_address a)) port)) (mr_node_id a) = Inl NotOwner"
    using assms(1,2) by (simp add: v_def authenticate_def find_by_management_address_def bt_values_def)
  ultimately show ?thesis by blast
qed

theorem authenticate_shadowed_by_tombstone_witness:
  "\<exists>v. membership_from_records demo_hash demo_scope [node_a_gone, demo_member ''b'' 10 ''10.0.1.0/24'' 1 1 MActive] = Inr v \<and>
     authenticate v (Peer (SocketAddr (V4 10) 51820)) ''b'' = Inl NotOwner"
  using authenticate_shadowed_by_tombstone
    [of node_a_gone "demo_member ''b'' 10 ''10.0.1.0/24'' 1 1 MActive" demo_hash demo_scope 51820]
  by (auto simp: demo_admissible) (auto simp: demo_member_def demo_hash_def)

end
