(* ===== verification/Catalog.thy ===== *)
theory Catalog
  imports Membership
begin

text \<open>
  The service catalog, \<^verbatim>\<open>crates/jiji-agent/src/catalog.rs\<close>: records of deployments authored by the node
  that owns the replica, their verification, the view keyed by deployment, and the selection of the
  records that DNS may answer with.
  As for membership, the content hash is the parameter \<open>hash\<close>.
\<close>

section \<open>Records\<close>

definition CATALOG_PROTOCOL_VERSION :: nat where
  "CATALOG_PROTOCOL_VERSION = 1"

definition CATALOG_SCHEMA_VERSION :: nat where
  "CATALOG_SCHEMA_VERSION = 2"

datatype DeploymentState = Candidate | Active | Draining | Stopped | Tombstoned

datatype HealthState = Unknown | Healthy | Unhealthy

record CatalogRecord =
  cr_project_id :: string
  cr_recovery_epoch :: u64
  cr_protocol_version :: nat
  cr_schema_version :: nat
  cr_service :: string
  cr_replica_id :: string
  cr_owner_node_id :: string
  cr_owner_epoch :: u64
  cr_revision :: u64
  cr_deployment_id :: string
  cr_address :: Ipv4Addr
  cr_ports :: "u16 list"
  cr_image :: string
  cr_state :: DeploymentState
  cr_health :: HealthState

datatype CatalogError =
    CSerialization
  | CInvalidRecord
  | CProtocolVersion nat
  | CSchemaVersion nat
  | CWrongProject
  | CRecoveryEpoch (c_expected: u64) (c_actual: u64)
  | CUnknownPeer
  | CNotOwner
  | CStaleOwnerEpoch
  | CTombstoneResurrection

definition catalog_validate :: "CatalogRecord \<Rightarrow> (CatalogError, unit) result" where
  "catalog_validate r =
     (if cr_protocol_version r \<noteq> CATALOG_PROTOCOL_VERSION then Inl (CProtocolVersion (cr_protocol_version r))
      else if cr_schema_version r \<noteq> CATALOG_SCHEMA_VERSION then Inl (CSchemaVersion (cr_schema_version r))
      else if cr_project_id r = [] \<or> cr_service r = [] \<or> cr_replica_id r = [] \<or> cr_owner_node_id r = [] \<or>
              cr_deployment_id r = [] \<or> cr_revision r = 0 \<or> cr_owner_epoch r = 0
        then Inl CInvalidRecord
      else Inr ())"

fun catalog_from_provenance :: "ProvenanceError \<Rightarrow> CatalogError" where
  "catalog_from_provenance UnknownPeer = CUnknownPeer"
| "catalog_from_provenance NotOwner = CNotOwner"

definition catalog_verify ::
  "CatalogRecord \<Rightarrow> RecordProvenance \<Rightarrow> string \<Rightarrow> u64 \<Rightarrow> MembershipView \<Rightarrow> (CatalogError, unit) result" where
  "catalog_verify r provenance project_id recovery_epoch membership =
     (case catalog_validate r of
        Inl e \<Rightarrow> Inl e
      | Inr _ \<Rightarrow>
          (if cr_project_id r \<noteq> project_id then Inl CWrongProject
           else if cr_recovery_epoch r \<noteq> recovery_epoch then Inl (CRecoveryEpoch recovery_epoch (cr_recovery_epoch r))
           else case authenticate membership provenance (cr_owner_node_id r) of
                  Inl e \<Rightarrow> Inl (catalog_from_provenance e)
                | Inr _ \<Rightarrow> Inr ()))"

definition catalog_record_order :: "CatalogRecord \<Rightarrow> u64 \<times> u64 \<times> nat \<times> string" where
  "catalog_record_order r =
     (cr_owner_epoch r, cr_revision r, (if cr_state r = Tombstoned then 1 else 0), cr_deployment_id r)"

definition catalog_order :: "CatalogRecord \<Rightarrow> string \<Rightarrow> u64 \<times> u64 \<times> nat \<times> string" where
  "catalog_order r i = (cr_owner_epoch r, cr_revision r, (case cr_state r of Tombstoned \<Rightarrow> 1 | _ \<Rightarrow> 0), i)"

section \<open>The view\<close>

record CatalogView =
  cv_records :: "(string, CatalogRecord) btree_map"
  cv_record_ids :: "string set"

definition catalog_empty :: CatalogView where
  "catalog_empty = \<lparr>cv_records = [], cv_record_ids = {}\<rparr>"

text \<open>\<^verbatim>\<open>iter.max()\<close> on a list of epochs.\<close>

fun max_epoch :: "u64 list \<Rightarrow> u64 option" where
  "max_epoch [] = None"
| "max_epoch (e # es) = (case max_epoch es of None \<Rightarrow> Some e | Some m \<Rightarrow> Some (max e m))"

definition replica_owner_epoch :: "CatalogView \<Rightarrow> string \<Rightarrow> u64 option" where
  "replica_owner_epoch v replica =
     max_epoch (map cr_owner_epoch (filter (\<lambda>c. cr_replica_id c = replica) (bt_values (cv_records v))))"

definition catalog_insert :: "(CatalogRecord \<Rightarrow> string) \<Rightarrow> CatalogView \<Rightarrow> CatalogRecord \<Rightarrow> Apply \<times> CatalogView" where
  "catalog_insert hash v r =
     (Applied, \<lparr>cv_records = bt_insert (cr_deployment_id r) r (cv_records v),
                cv_record_ids = insert (hash r) (cv_record_ids v)\<rparr>)"

definition catalog_apply ::
  "(CatalogRecord \<Rightarrow> string) \<Rightarrow> string \<Rightarrow> u64 \<Rightarrow> MembershipView \<Rightarrow> CatalogView \<Rightarrow> CatalogRecord \<Rightarrow> RecordProvenance \<Rightarrow>
   (CatalogError, Apply \<times> CatalogView) result" where
  "catalog_apply hash project_id recovery_epoch membership v r provenance =
     (case catalog_verify r provenance project_id recovery_epoch membership of
        Inl e \<Rightarrow> Inl e
      | Inr _ \<Rightarrow>
          (if hash r \<in> cv_record_ids v then Inr (Duplicate, v)
           else if (case replica_owner_epoch v (cr_replica_id r) of None \<Rightarrow> False | Some epoch \<Rightarrow> cr_owner_epoch r < epoch)
             then Inl CStaleOwnerEpoch
           else
             case map_of (cv_records v) (cr_deployment_id r) of
               None \<Rightarrow> Inr (catalog_insert hash v r)
             | Some current \<Rightarrow>
                 (if cr_owner_epoch r < cr_owner_epoch current then Inl CStaleOwnerEpoch
                  else if catalog_order r (hash r) \<le> catalog_order current (hash current) then
                    Inr (Superseded, v\<lparr>cv_record_ids := insert (hash r) (cv_record_ids v)\<rparr>)
                  else if cr_state current = Tombstoned \<and> cr_state r \<noteq> Tombstoned \<and>
                          cr_owner_epoch r = cr_owner_epoch current then Inl CTombstoneResurrection
                  else Inr (catalog_insert hash v r))))"

definition catalog_from_records ::
  "(CatalogRecord \<Rightarrow> string) \<Rightarrow> string \<Rightarrow> u64 \<Rightarrow> MembershipView \<Rightarrow> (CatalogRecord \<times> RecordProvenance) list \<Rightarrow>
   (CatalogError, CatalogView) result" where
  "catalog_from_records hash project_id recovery_epoch membership records =
     replay (\<lambda>v (r, p). catalog_apply hash project_id recovery_epoch membership v r p) catalog_empty records"

text \<open>The body of the loops of \<^verbatim>\<open>active_healthy\<close> and \<^verbatim>\<open>active_healthy_winners\<close>.\<close>

definition keep_winner :: "(string, CatalogRecord) btree_map \<Rightarrow> CatalogRecord \<Rightarrow> (string, CatalogRecord) btree_map" where
  "keep_winner winners r =
     (if (case map_of winners (cr_replica_id r) of
            None \<Rightarrow> True
          | Some current \<Rightarrow> catalog_record_order current < catalog_record_order r)
      then bt_insert (cr_replica_id r) r winners else winners)"

abbreviation serving :: "CatalogRecord \<Rightarrow> bool" where
  "serving r \<equiv> cr_state r = Active \<and> cr_health r = Healthy"

definition active_healthy :: "CatalogView \<Rightarrow> CatalogRecord list" where
  "active_healthy v = bt_values (foldl keep_winner [] (filter serving (bt_values (cv_records v))))"

text \<open>\<^verbatim>\<open>max_by_key\<close> returns the last of the greatest elements.\<close>

fun max_by_key :: "('a \<Rightarrow> 'o::linorder) \<Rightarrow> 'a list \<Rightarrow> 'a option" where
  "max_by_key f [] = None"
| "max_by_key f (x # xs) =
     (case max_by_key f xs of None \<Rightarrow> Some x | Some y \<Rightarrow> (if f y < f x then Some x else Some y))"

definition catalog_get :: "CatalogView \<Rightarrow> string \<Rightarrow> CatalogRecord option" where
  "catalog_get v replica =
     max_by_key catalog_record_order (filter (\<lambda>r. cr_replica_id r = replica) (bt_values (cv_records v)))"

definition catalog_all :: "CatalogView \<Rightarrow> CatalogRecord list" where
  "catalog_all v = bt_values (cv_records v)"

definition active_healthy_winners :: "CatalogRecord list \<Rightarrow> CatalogRecord list" where
  "active_healthy_winners records = bt_values (foldl keep_winner [] (filter serving records))"

section \<open>The view is a last-writer-wins view\<close>

abbreviation cord :: "(CatalogRecord \<Rightarrow> string) \<Rightarrow> CatalogRecord \<Rightarrow> u64 \<times> u64 \<times> nat \<times> string" where
  "cord hash \<equiv> \<lambda>r. catalog_order r (hash r)"

lemma max_epoch_None [simp]: "max_epoch es = None \<longleftrightarrow> es = []"
  by (cases es) (auto split: option.splits)

lemma max_epoch_Some: "max_epoch es = Some m \<Longrightarrow> m \<in> set es \<and> (\<forall>e \<in> set es. e \<le> m)"
  by (induction es arbitrary: m) (fastforce split: option.splits simp: max_def)+

lemma max_epoch_less:
  "(case max_epoch es of None \<Rightarrow> False | Some m \<Rightarrow> e < m) \<longleftrightarrow> (\<exists>x \<in> set es. e < x)"
proof (cases "max_epoch es")
  case (Some m)
  from max_epoch_Some [OF Some] show ?thesis by (auto simp: Some dest: order_less_le_trans)
qed simp

text \<open>A record is fenced when some record of its replica has a greater owner epoch.\<close>

definition fenced :: "CatalogView \<Rightarrow> CatalogRecord \<Rightarrow> bool" where
  "fenced v r \<longleftrightarrow> (\<exists>c \<in> set (catalog_all v). cr_replica_id c = cr_replica_id r \<and> cr_owner_epoch r < cr_owner_epoch c)"

lemma replica_owner_epoch_fenced:
  "(case replica_owner_epoch v (cr_replica_id r) of None \<Rightarrow> False | Some epoch \<Rightarrow> cr_owner_epoch r < epoch) \<longleftrightarrow> fenced v r"
  unfolding replica_owner_epoch_def max_epoch_less fenced_def catalog_all_def by auto

lemma catalog_apply_Inr:
  "catalog_apply hash pid ep mem v r p = Inr (out, v') \<longleftrightarrow>
     catalog_verify r p pid ep mem = Inr () \<and>
     (hash r \<in> cv_record_ids v \<and> out = Duplicate \<and> v' = v \<or>
      hash r \<notin> cv_record_ids v \<and> \<not> fenced v r \<and>
        (\<exists>c. map_of (cv_records v) (cr_deployment_id r) = Some c \<and> cr_owner_epoch c \<le> cr_owner_epoch r \<and>
           cord hash r \<le> cord hash c \<and> out = Superseded \<and> v' = v\<lparr>cv_record_ids := insert (hash r) (cv_record_ids v)\<rparr>) \<or>
      hash r \<notin> cv_record_ids v \<and> \<not> fenced v r \<and>
        (\<forall>c. map_of (cv_records v) (cr_deployment_id r) = Some c \<longrightarrow>
           cr_owner_epoch c \<le> cr_owner_epoch r \<and> cord hash c < cord hash r \<and>
           \<not> (cr_state c = Tombstoned \<and> cr_state r \<noteq> Tombstoned \<and> cr_owner_epoch r = cr_owner_epoch c)) \<and>
        (out, v') = catalog_insert hash v r)"
proof (cases "catalog_verify r p pid ep mem = Inr () \<and> hash r \<notin> cv_record_ids v \<and> \<not> fenced v r")
  case False
  then show ?thesis
    by (auto simp: catalog_apply_def replica_owner_epoch_fenced split: sum.splits)
next
  case True
  then have "catalog_apply hash pid ep mem v r p =
    (case map_of (cv_records v) (cr_deployment_id r) of
       None \<Rightarrow> Inr (catalog_insert hash v r)
     | Some current \<Rightarrow>
         (if cr_owner_epoch r < cr_owner_epoch current then Inl CStaleOwnerEpoch
          else if cord hash r \<le> cord hash current then
            Inr (Superseded, v\<lparr>cv_record_ids := insert (hash r) (cv_record_ids v)\<rparr>)
          else if cr_state current = Tombstoned \<and> cr_state r \<noteq> Tombstoned \<and>
                  cr_owner_epoch r = cr_owner_epoch current then Inl CTombstoneResurrection
          else Inr (catalog_insert hash v r)))"
    by (simp add: catalog_apply_def replica_owner_epoch_fenced)
  with True show ?thesis
    by (cases "map_of (cv_records v) (cr_deployment_id r)") (auto simp: catalog_insert_def not_less not_le)
qed

text \<open>A record that passed verification from a peer passes it again as a verified record.\<close>

lemma catalog_verify_verified: "catalog_verify r p pid ep mem = Inr () \<Longrightarrow> catalog_verify r Verified pid ep mem = Inr ()"
  by (auto simp: catalog_verify_def authenticate_def split: sum.splits if_splits)

lemma catalog_verify_membership: "catalog_verify r Verified pid ep mem = catalog_verify r Verified pid ep mem'"
  by (simp add: catalog_verify_def split: sum.splits)

lemma catalog_apply_verified:
  "catalog_apply hash pid ep mem v r p = Inr x \<Longrightarrow> catalog_apply hash pid ep mem v r Verified = Inr x"
  by (cases x) (auto simp: catalog_apply_Inr dest: catalog_verify_verified)

definition catalog_step ::
  "(CatalogRecord \<Rightarrow> string) \<Rightarrow> string \<Rightarrow> u64 \<Rightarrow> MembershipView \<Rightarrow> CatalogView \<Rightarrow> CatalogRecord \<Rightarrow>
   (CatalogError, Apply \<times> CatalogView) result" where
  "catalog_step hash pid ep mem v r = catalog_apply hash pid ep mem v r Verified"

lemma catalog_replay_verified:
  "replay (\<lambda>v (r, p). catalog_apply hash pid ep mem v r p) v L = Inr w \<Longrightarrow>
   replay (catalog_step hash pid ep mem) v (map fst L) = Inr w"
  by (rule replay_fst [where f = "catalog_apply hash pid ep mem"]) (auto simp: catalog_step_def dest: catalog_apply_verified)

interpretation cview: lww_view "catalog_step hash pid ep mem" catalog_empty cv_records cv_record_ids cr_deployment_id
    hash "cord hash" for hash pid ep mem
proof unfold_locales
  fix v v' w :: CatalogView and r
  assume ap: "catalog_step hash pid ep mem v r = Inr (Applied, v')" and kv: "keyed cr_deployment_id (cv_records v)"
    and kw: "keyed cr_deployment_id (cv_records w)" and le: "map_of (cv_records w) \<subseteq>\<^sub>m map_of (cv_records v)"
    and none: "map_of (cv_records w) (cr_deployment_id r) = None" and id: "hash r \<notin> cv_record_ids w"
  have sub: "set (bt_values (cv_records w)) \<subseteq> set (bt_values (cv_records v))"
    by (rule keyed_values_mono [OF kw kv le])
  have "\<not> fenced w r"
    using ap sub unfolding catalog_step_def catalog_apply_Inr fenced_def catalog_all_def by blast
  then show "\<exists>w'. catalog_step hash pid ep mem w r = Inr (Applied, w')"
    using ap id none unfolding catalog_step_def catalog_apply_Inr by (auto simp: catalog_insert_def)
qed (auto simp: catalog_step_def catalog_apply_Inr catalog_insert_def catalog_empty_def catalog_order_def)

lemma catalog_from_records_step:
  "catalog_from_records hash pid ep mem L = Inr v \<Longrightarrow> replay (catalog_step hash pid ep mem) catalog_empty (map fst L) = Inr v"
  unfolding catalog_from_records_def by (rule catalog_replay_verified)

section \<open>Selection of winners\<close>

text \<open>\<open>m\<close> holds, for every replica of \<open>rs\<close>, a greatest record of that replica.\<close>

definition winners_of :: "CatalogRecord list \<Rightarrow> (string, CatalogRecord) btree_map \<Rightarrow> bool" where
  "winners_of rs m \<longleftrightarrow> keyed cr_replica_id m \<and> set (bt_values m) \<subseteq> set rs \<and>
     (\<forall>r \<in> set rs. \<exists>x. map_of m (cr_replica_id r) = Some x \<and> catalog_record_order r \<le> catalog_record_order x)"

lemma winners_of_keep:
  assumes "winners_of rs m"
  shows "winners_of (rs @ [r]) (keep_winner m r)"
proof (cases "\<exists>x. map_of m (cr_replica_id r) = Some x \<and> catalog_record_order r \<le> catalog_record_order x")
  case True
  then have "keep_winner m r = m" by (auto simp: keep_winner_def not_less)
  with assms True show ?thesis by (auto simp: winners_of_def)
next
  case False
  then have k: "keep_winner m r = bt_insert (cr_replica_id r) r m"
    by (auto simp: keep_winner_def not_le split: option.splits)
  have wf: "bt_wf m" using assms by (simp add: winners_of_def keyed_def)
  have "set (bt_values (keep_winner m r)) \<subseteq> insert r (set rs)"
    using bt.ins_del_vals [OF wf, of "cr_replica_id r" r] assms by (auto simp: k winners_of_def)
  moreover have "\<exists>x. map_of (keep_winner m r) (cr_replica_id s) = Some x \<and> catalog_record_order s \<le> catalog_record_order x"
    if "s \<in> set (rs @ [r])" for s
  proof (cases "cr_replica_id s = cr_replica_id r")
    case True
    have "catalog_record_order s \<le> catalog_record_order r"
    proof (cases "s \<in> set rs")
      case m: True
      with assms obtain x where "map_of m (cr_replica_id s) = Some x" "catalog_record_order s \<le> catalog_record_order x"
        by (auto simp: winners_of_def)
      with False True show ?thesis by force
    qed (use that in simp)
    with True show ?thesis by (simp add: k)
  qed (use assms that in \<open>auto simp: k winners_of_def\<close>)
  ultimately show ?thesis using assms by (auto simp: winners_of_def k keyed_insert)
qed

lemma winners_of_fold: "winners_of rs (foldl keep_winner [] rs)"
proof (induction rs rule: rev_induct)
  case Nil
  show ?case by (simp add: winners_of_def bt_values_def)
next
  case (snoc r rs)
  from winners_of_keep [OF snoc.IH] show ?case by simp
qed

lemma winners_mem:
  assumes inj: "inj_on cr_deployment_id (set rs)"
  shows "x \<in> set (bt_values (foldl keep_winner [] rs)) \<longleftrightarrow>
    x \<in> set rs \<and> (\<forall>r \<in> set rs. cr_replica_id r = cr_replica_id x \<longrightarrow> catalog_record_order r \<le> catalog_record_order x)"
    (is "_ \<in> set (bt_values ?m) \<longleftrightarrow> _")
proof -
  note w = winners_of_fold [of rs, unfolded winners_of_def]
  have k: "keyed cr_replica_id ?m" using w by blast
  have max: "catalog_record_order r \<le> catalog_record_order y"
    if "map_of ?m (cr_replica_id r) = Some y" "r \<in> set rs" for r y
    using w that by force
  show ?thesis
  proof
    assume x: "x \<in> set (bt_values ?m)"
    then have "map_of ?m (cr_replica_id x) = Some x" by (simp only: keyed_values [OF k])
    then show "x \<in> set rs \<and> (\<forall>r \<in> set rs. cr_replica_id r = cr_replica_id x \<longrightarrow> catalog_record_order r \<le> catalog_record_order x)"
      using w x max by force
  next
    assume x: "x \<in> set rs \<and> (\<forall>r \<in> set rs. cr_replica_id r = cr_replica_id x \<longrightarrow> catalog_record_order r \<le> catalog_record_order x)"
    then obtain y where y: "map_of ?m (cr_replica_id x) = Some y" "catalog_record_order x \<le> catalog_record_order y" using w by blast
    have "cr_replica_id y = cr_replica_id x" using k y(1) by (simp add: keyed_def)
    moreover have "y \<in> set rs" using w bt_get_Some_mem [OF y(1)] by blast
    ultimately have "catalog_record_order x = catalog_record_order y" using x y(2) by (intro antisym) auto
    then have "cr_deployment_id x = cr_deployment_id y" by (simp add: catalog_record_order_def)
    with inj x \<open>y \<in> set rs\<close> have "x = y" by (auto dest: inj_onD)
    then show "x \<in> set (bt_values ?m)" using bt_get_Some_mem [OF y(1)] by simp
  qed
qed

lemma keyed_inj_on: "keyed key m \<Longrightarrow> inj_on key (set (bt_values m))"
  by (rule inj_onI) (simp add: keyed_values)

lemma max_by_key_None [simp]: "max_by_key f xs = None \<longleftrightarrow> xs = []"
  by (cases xs) (auto split: option.splits)

lemma max_by_key_Some: "max_by_key f xs = Some x \<Longrightarrow> x \<in> set xs \<and> (\<forall>y \<in> set xs. f y \<le> f x)"
proof (induction xs arbitrary: x)
  case (Cons a xs)
  show ?case
  proof (cases "max_by_key f xs")
    case (Some y)
    with Cons.IH [OF Some] Cons.prems show ?thesis by (auto split: if_splits intro: order.trans less_imp_le)
  qed (use Cons.prems in simp)
qed simp

section \<open>Sample records\<close>

definition demo_deployment :: "string \<Rightarrow> string \<Rightarrow> u64 \<Rightarrow> u64 \<Rightarrow> DeploymentState \<Rightarrow> HealthState \<Rightarrow> CatalogRecord" where
  "demo_deployment replica deployment epoch revision st health =
     \<lparr>cr_project_id = ''p'', cr_recovery_epoch = 1, cr_protocol_version = 1, cr_schema_version = 2,
      cr_service = ''web'', cr_replica_id = replica, cr_owner_node_id = ''a'', cr_owner_epoch = epoch,
      cr_revision = revision, cr_deployment_id = deployment, cr_address = 42, cr_ports = [80], cr_image = ''img'',
      cr_state = st, cr_health = health\<rparr>"

definition demo_catalog_hash :: "CatalogRecord \<Rightarrow> string" where
  "demo_catalog_hash r = cr_deployment_id r @ (if cr_revision r = 1 then ''1'' else ''2'')"

abbreviation web_1 :: CatalogRecord where "web_1 \<equiv> demo_deployment ''r'' ''d1'' 1 1 Active Healthy"
abbreviation web_2 :: CatalogRecord where "web_2 \<equiv> demo_deployment ''r'' ''d2'' 2 2 Active Healthy"

definition demo_catalog :: CatalogView where
  "demo_catalog = \<lparr>cv_records = [(''d1'', web_1), (''d2'', web_2)], cv_record_ids = {''d11'', ''d22''}\<rparr>"

lemma demo_catalog_verify:
  assumes "p = Local \<or> p = Verified"
  shows "catalog_verify web_1 p ''p'' 1 mem = Inr ()" "catalog_verify web_2 p ''p'' 1 mem = Inr ()"
    "catalog_verify (demo_deployment ''r'' ''d3'' 1 1 Active Healthy) p ''p'' 1 mem = Inr ()"
  using assms
  by (auto simp: catalog_verify_def catalog_validate_def demo_deployment_def CATALOG_PROTOCOL_VERSION_def
      CATALOG_SCHEMA_VERSION_def)

lemma demo_catalog_steps:
  assumes "p = Local \<or> p = Verified"
  shows "catalog_apply demo_catalog_hash ''p'' 1 mem catalog_empty web_1 p =
      Inr (Applied, \<lparr>cv_records = [(''d1'', web_1)], cv_record_ids = {''d11''}\<rparr>)"
    "catalog_apply demo_catalog_hash ''p'' 1 mem \<lparr>cv_records = [(''d1'', web_1)], cv_record_ids = {''d11''}\<rparr> web_2 p =
      Inr (Applied, demo_catalog)"
    "catalog_apply demo_catalog_hash ''p'' 1 mem demo_catalog web_1 p = Inr (Duplicate, demo_catalog)"
proof -
  have v: "catalog_verify web_1 p ''p'' 1 mem = Inr ()" "catalog_verify web_2 p ''p'' 1 mem = Inr ()"
    using assms demo_catalog_verify [of p] by auto
  show "catalog_apply demo_catalog_hash ''p'' 1 mem catalog_empty web_1 p =
      Inr (Applied, \<lparr>cv_records = [(''d1'', web_1)], cv_record_ids = {''d11''}\<rparr>)"
    unfolding catalog_apply_Inr
    by (simp add: v catalog_empty_def fenced_def catalog_all_def bt_values_def catalog_insert_def)
      (simp add: demo_deployment_def demo_catalog_hash_def)
  show "catalog_apply demo_catalog_hash ''p'' 1 mem \<lparr>cv_records = [(''d1'', web_1)], cv_record_ids = {''d11''}\<rparr> web_2 p =
      Inr (Applied, demo_catalog)"
    unfolding catalog_apply_Inr
    by (simp add: v fenced_def catalog_all_def bt_values_def catalog_insert_def demo_catalog_def)
      (auto simp: demo_deployment_def demo_catalog_hash_def)
  show "catalog_apply demo_catalog_hash ''p'' 1 mem demo_catalog web_1 p = Inr (Duplicate, demo_catalog)"
    unfolding catalog_apply_Inr by (simp add: v) (simp add: demo_deployment_def demo_catalog_hash_def demo_catalog_def)
qed

lemma demo_catalog_run:
  "catalog_from_records demo_catalog_hash ''p'' 1 mem [(web_1, Local), (web_2, Verified)] = Inr demo_catalog"
  "catalog_from_records demo_catalog_hash ''p'' 1 mem [(web_1, Verified), (web_2, Local), (web_1, Local)] = Inr demo_catalog"
  by (simp_all add: catalog_from_records_def demo_catalog_steps)

section \<open>Properties\<close>

text \<open>C6. The records DNS may answer with are exactly, for each replica, the greatest of its active and healthy
  deployments; there is at most one per replica, the two routines that compute the selection agree, and a
  replica whose overall winner is active and healthy is served by that winner.\<close>

theorem active_healthy_selection:
  assumes "catalog_from_records hash pid ep mem L = Inr v"
  shows "(x \<in> set (active_healthy v) \<longleftrightarrow>
      x \<in> set (catalog_all v) \<and> serving x \<and>
      (\<forall>y \<in> set (catalog_all v). serving y \<and> cr_replica_id y = cr_replica_id x \<longrightarrow> catalog_record_order y \<le> catalog_record_order x)) \<and>
    sorted_wrt (<) (map cr_replica_id (active_healthy v)) \<and>
    active_healthy v = active_healthy_winners (catalog_all v) \<and>
    (catalog_get v k = Some x \<and> serving x \<longrightarrow> x \<in> set (active_healthy v))"
proof -
  let ?rs = "filter serving (bt_values (cv_records v))" and ?m = "foldl keep_winner [] (filter serving (bt_values (cv_records v)))"
  have k: "keyed cr_deployment_id (cv_records v)"
    using cview.replay_facts [OF catalog_from_records_step [OF assms]] by blast
  then have inj: "inj_on cr_deployment_id (set ?rs)"
    by (rule inj_on_subset [OF keyed_inj_on]) auto
  note mem = winners_mem [OF inj, of x]
  have km: "keyed cr_replica_id ?m" using winners_of_fold by (simp add: winners_of_def)
  then have "\<forall>e \<in> set ?m. cr_replica_id (snd e) = fst e" by (auto simp: keyed_def bt_get_mem)
  then have "map cr_replica_id (bt_values ?m) = map fst ?m" by (simp add: bt_values_def)
  then have sorted: "sorted_wrt (<) (map cr_replica_id (active_healthy v))"
    using km by (simp add: active_healthy_def keyed_def bt_wf_def)
  have "x \<in> set (active_healthy v)" if "catalog_get v k = Some x" "serving x"
    using max_by_key_Some [OF that(1) [unfolded catalog_get_def]] that(2) mem by (auto simp: active_healthy_def)
  with mem sorted show ?thesis
    by (auto simp: active_healthy_def active_healthy_winners_def catalog_all_def)
qed

theorem active_healthy_selection_witness:
  "catalog_from_records demo_catalog_hash ''p'' 1 membership_empty [(web_1, Local), (web_2, Verified)] = Inr demo_catalog \<and>
   web_2 \<in> set (active_healthy demo_catalog)"
proof -
  have "web_2 \<in> set (catalog_all demo_catalog) \<and> serving web_2 \<and>
      (\<forall>y \<in> set (catalog_all demo_catalog). serving y \<and> cr_replica_id y = cr_replica_id web_2 \<longrightarrow>
        catalog_record_order y \<le> catalog_record_order web_2)"
    by (simp add: demo_catalog_def catalog_all_def bt_values_def) (simp add: demo_deployment_def catalog_record_order_def)
  then show ?thesis using active_healthy_selection [OF demo_catalog_run(1)] demo_catalog_run(1) by blast
qed

text \<open>Two replicas that accept the same catalog records, in any order and from any sources, hold the same
  catalog, provided distinct records of the log have distinct content hashes.\<close>

theorem catalog_converges:
  assumes "catalog_from_records hash pid ep mem L = Inr v" "catalog_from_records hash pid ep mem' M = Inr w"
    "fst ` set L = fst ` set M" "inj_on hash (fst ` set L)"
  shows "v = w"
proof -
  note L = catalog_from_records_step [OF assms(1)] and M = catalog_from_records_step [OF assms(2)]
  have "catalog_step hash pid ep mem' = catalog_step hash pid ep mem"
    by (intro ext) (simp add: catalog_step_def catalog_apply_def catalog_verify_membership [of _ pid ep mem' mem])
  then have M: "replay (catalog_step hash pid ep mem) catalog_empty (map fst M) = Inr w" using M by simp
  have "cv_records v = cv_records w"
    using cview.replay_converges [OF L M] assms(3,4) by simp
  moreover have "cv_record_ids v = cv_record_ids w"
    using cview.replay_facts [OF L] cview.replay_facts [OF M] assms(3) by simp
  ultimately show ?thesis by simp
qed

theorem catalog_converges_witness:
  "catalog_from_records demo_catalog_hash ''p'' 1 membership_empty [(web_1, Local), (web_2, Verified)] =
   catalog_from_records demo_catalog_hash ''p'' 1 demo_view [(web_1, Verified), (web_2, Local), (web_1, Local)]"
proof -
  have "fst ` set [(web_1, Local), (web_2, Verified)] = fst ` set [(web_1, Verified), (web_2, Local), (web_1, Local)]"
    by auto
  moreover have "inj_on demo_catalog_hash (fst ` set [(web_1, Local), (web_2, Verified)])"
    by (simp add: demo_catalog_hash_def demo_deployment_def)
  ultimately show ?thesis
    using catalog_converges [OF demo_catalog_run(1) demo_catalog_run(2)] demo_catalog_run by simp
qed

text \<open>C7. Fencing in the catalog. A new record whose owner epoch is below that of any record of the same replica
  is refused as stale and changes nothing; an accepted record never lowers the order of a deployment, and
  a tombstoned deployment leaves that state only in a strictly greater owner epoch.\<close>

theorem catalog_fencing:
  assumes "catalog_verify r p pid ep mem = Inr ()" "hash r \<notin> cv_record_ids v"
  shows "((\<exists>c \<in> set (catalog_all v). cr_replica_id c = cr_replica_id r \<and> cr_owner_epoch r < cr_owner_epoch c) \<longrightarrow>
      catalog_apply hash pid ep mem v r p = Inl CStaleOwnerEpoch) \<and>
    (\<forall>out v' d c. catalog_apply hash pid ep mem v r p = Inr (out, v') \<longrightarrow> map_of (cv_records v) d = Some c \<longrightarrow>
      (\<exists>c'. map_of (cv_records v') d = Some c' \<and> catalog_order c (hash c) \<le> catalog_order c' (hash c') \<and>
        (cr_state c = Tombstoned \<and> cr_state c' \<noteq> Tombstoned \<longrightarrow> cr_owner_epoch c < cr_owner_epoch c')))"
proof (intro conjI allI impI)
  assume "\<exists>c \<in> set (catalog_all v). cr_replica_id c = cr_replica_id r \<and> cr_owner_epoch r < cr_owner_epoch c"
  then show "catalog_apply hash pid ep mem v r p = Inl CStaleOwnerEpoch"
    using assms by (simp add: catalog_apply_def replica_owner_epoch_fenced fenced_def)
next
  fix out v' d c
  assume "catalog_apply hash pid ep mem v r p = Inr (out, v')" "map_of (cv_records v) d = Some c"
  then show "\<exists>c'. map_of (cv_records v') d = Some c' \<and> catalog_order c (hash c) \<le> catalog_order c' (hash c') \<and>
      (cr_state c = Tombstoned \<and> cr_state c' \<noteq> Tombstoned \<longrightarrow> cr_owner_epoch c < cr_owner_epoch c')"
    using assms(2) by (auto simp: catalog_apply_Inr catalog_insert_def order_less_imp_le order_neq_le_trans)
qed

theorem catalog_fencing_witness:
  "catalog_apply demo_catalog_hash ''p'' 1 membership_empty demo_catalog
     (demo_deployment ''r'' ''d3'' 1 1 Active Healthy) Local = Inl CStaleOwnerEpoch"
proof -
  let ?r = "demo_deployment ''r'' ''d3'' 1 1 Active Healthy"
  have "demo_catalog_hash ?r \<notin> cv_record_ids demo_catalog"
    by (simp add: demo_catalog_hash_def demo_deployment_def demo_catalog_def)
  note fence = catalog_fencing [where hash = demo_catalog_hash and v = demo_catalog and mem = membership_empty,
      OF demo_catalog_verify(3) [of Local] this]
  have "\<exists>c \<in> set (catalog_all demo_catalog). cr_replica_id c = cr_replica_id ?r \<and> cr_owner_epoch ?r < cr_owner_epoch c"
    by (simp add: demo_catalog_def catalog_all_def bt_values_def demo_deployment_def)
  with fence show ?thesis by simp
qed

end
