(* ===== verification/Desired.thy ===== *)
theory Desired
  imports Catalog
begin

text \<open>
  Replicated desired state, \<^verbatim>\<open>crates/jiji-agent/src/desired.rs\<close>: scale overrides per service, ordered by
  revision and content hash.
\<close>

section \<open>Records\<close>

definition DESIRED_PROTOCOL_VERSION :: nat where
  "DESIRED_PROTOCOL_VERSION = 1"

definition DESIRED_SCHEMA_VERSION :: nat where
  "DESIRED_SCHEMA_VERSION = 2"

definition DESIRED_MIN_SUPPORTED_SCHEMA_VERSION :: nat where
  "DESIRED_MIN_SUPPORTED_SCHEMA_VERSION = 1"

record DesiredStateRecord =
  dr_project_id :: string
  dr_recovery_epoch :: u64
  dr_protocol_version :: nat
  dr_schema_version :: nat
  dr_service :: string
  dr_scale_override :: "u32 option"
  dr_revision :: u64
  dr_author_node_id :: string
  dr_author_epoch :: u64

datatype DesiredError =
    DSerialization
  | DInvalidRecord
  | DProtocolVersion nat
  | DSchemaVersion nat
  | DWrongProject
  | DRecoveryEpoch
  | DUnknownAuthor
  | DNotAuthor
  | DStaleAuthor

definition desired_validate :: "DesiredStateRecord \<Rightarrow> (DesiredError, unit) result" where
  "desired_validate r =
     (if dr_protocol_version r \<noteq> DESIRED_PROTOCOL_VERSION then Inl (DProtocolVersion (dr_protocol_version r))
      else if dr_schema_version r < DESIRED_MIN_SUPPORTED_SCHEMA_VERSION \<or> DESIRED_SCHEMA_VERSION < dr_schema_version r
        then Inl (DSchemaVersion (dr_schema_version r))
      else if dr_project_id r = [] \<or> dr_service r = [] \<or> dr_author_node_id r = [] \<or> dr_revision r = 0 \<or>
              dr_author_epoch r = 0
        then Inl DInvalidRecord
      else Inr ())"

fun desired_from_provenance :: "ProvenanceError \<Rightarrow> DesiredError" where
  "desired_from_provenance UnknownPeer = DUnknownAuthor"
| "desired_from_provenance NotOwner = DNotAuthor"

definition desired_verify ::
  "DesiredStateRecord \<Rightarrow> RecordProvenance \<Rightarrow> string \<Rightarrow> u64 \<Rightarrow> MembershipView \<Rightarrow> (DesiredError, unit) result" where
  "desired_verify r provenance project_id recovery_epoch membership =
     (case desired_validate r of
        Inl e \<Rightarrow> Inl e
      | Inr _ \<Rightarrow>
          (if dr_project_id r \<noteq> project_id then Inl DWrongProject
           else if dr_recovery_epoch r \<noteq> recovery_epoch then Inl DRecoveryEpoch
           else case authenticate membership provenance (dr_author_node_id r) of
                  Inl e \<Rightarrow> Inl (desired_from_provenance e)
                | Inr _ \<Rightarrow>
                    (case membership_get membership (dr_author_node_id r) of
                       None \<Rightarrow> Inl DUnknownAuthor
                     | Some author \<Rightarrow> (if mr_owner_epoch author \<noteq> dr_author_epoch r then Inl DStaleAuthor else Inr ()))))"

definition desired_order :: "DesiredStateRecord \<Rightarrow> string \<Rightarrow> u64 \<times> string" where
  "desired_order r i = (dr_revision r, i)"

section \<open>The view\<close>

record DesiredStateView =
  dv_records :: "(string, DesiredStateRecord) btree_map"
  dv_record_ids :: "string set"

definition desired_empty :: DesiredStateView where
  "desired_empty = \<lparr>dv_records = [], dv_record_ids = {}\<rparr>"

definition desired_apply ::
  "(DesiredStateRecord \<Rightarrow> string) \<Rightarrow> string \<Rightarrow> u64 \<Rightarrow> MembershipView \<Rightarrow> DesiredStateView \<Rightarrow> DesiredStateRecord \<Rightarrow>
   RecordProvenance \<Rightarrow> (DesiredError, Apply \<times> DesiredStateView) result" where
  "desired_apply hash project_id recovery_epoch membership v r provenance =
     (case desired_verify r provenance project_id recovery_epoch membership of
        Inl e \<Rightarrow> Inl e
      | Inr _ \<Rightarrow>
          (if hash r \<in> dv_record_ids v then Inr (Duplicate, v)
           else
             let seen = v\<lparr>dv_record_ids := insert (hash r) (dv_record_ids v)\<rparr>;
                 applied = (Applied, seen\<lparr>dv_records := bt_insert (dr_service r) r (dv_records seen)\<rparr>)
             in case map_of (dv_records seen) (dr_service r) of
                  None \<Rightarrow> Inr applied
                | Some current \<Rightarrow>
                    (if desired_order r (hash r) \<le> desired_order current (hash current) then Inr (Superseded, seen)
                     else Inr applied)))"

definition desired_from_records ::
  "(DesiredStateRecord \<Rightarrow> string) \<Rightarrow> string \<Rightarrow> u64 \<Rightarrow> MembershipView \<Rightarrow> (DesiredStateRecord \<times> RecordProvenance) list \<Rightarrow>
   (DesiredError, DesiredStateView) result" where
  "desired_from_records hash project_id recovery_epoch membership records =
     replay (\<lambda>v (r, p). desired_apply hash project_id recovery_epoch membership v r p) desired_empty records"

definition desired_get :: "DesiredStateView \<Rightarrow> string \<Rightarrow> DesiredStateRecord option" where
  "desired_get v service = map_of (dv_records v) service"

section \<open>The view is a last-writer-wins view\<close>

abbreviation dord :: "(DesiredStateRecord \<Rightarrow> string) \<Rightarrow> DesiredStateRecord \<Rightarrow> u64 \<times> string" where
  "dord hash \<equiv> \<lambda>r. desired_order r (hash r)"

lemma desired_apply_Inr:
  "desired_apply hash pid ep mem v r p = Inr (out, v') \<longleftrightarrow>
     desired_verify r p pid ep mem = Inr () \<and>
     (hash r \<in> dv_record_ids v \<and> out = Duplicate \<and> v' = v \<or>
      hash r \<notin> dv_record_ids v \<and>
        (\<exists>c. map_of (dv_records v) (dr_service r) = Some c \<and> dord hash r \<le> dord hash c) \<and>
        out = Superseded \<and> v' = v\<lparr>dv_record_ids := insert (hash r) (dv_record_ids v)\<rparr> \<or>
      hash r \<notin> dv_record_ids v \<and>
        (\<forall>c. map_of (dv_records v) (dr_service r) = Some c \<longrightarrow> dord hash c < dord hash r) \<and> out = Applied \<and>
        v' = \<lparr>dv_records = bt_insert (dr_service r) r (dv_records v), dv_record_ids = insert (hash r) (dv_record_ids v)\<rparr>)"
  by (cases "map_of (dv_records v) (dr_service r)")
    (auto simp: desired_apply_def Let_def not_le split: sum.splits if_splits)

lemma desired_verify_verified: "desired_verify r p pid ep mem = Inr () \<Longrightarrow> desired_verify r Verified pid ep mem = Inr ()"
  by (auto simp: desired_verify_def split: sum.splits if_splits option.splits)

lemma desired_apply_verified:
  "desired_apply hash pid ep mem v r p = Inr x \<Longrightarrow> desired_apply hash pid ep mem v r Verified = Inr x"
  by (cases x) (auto simp: desired_apply_Inr dest: desired_verify_verified)

definition desired_step ::
  "(DesiredStateRecord \<Rightarrow> string) \<Rightarrow> string \<Rightarrow> u64 \<Rightarrow> MembershipView \<Rightarrow> DesiredStateView \<Rightarrow> DesiredStateRecord \<Rightarrow>
   (DesiredError, Apply \<times> DesiredStateView) result" where
  "desired_step hash pid ep mem v r = desired_apply hash pid ep mem v r Verified"

lemma desired_replay_verified:
  "replay (\<lambda>v (r, p). desired_apply hash pid ep mem v r p) v L = Inr w \<Longrightarrow>
   replay (desired_step hash pid ep mem) v (map fst L) = Inr w"
  by (rule replay_fst [where f = "desired_apply hash pid ep mem"]) (auto simp: desired_step_def dest: desired_apply_verified)

interpretation dview: lww_view "desired_step hash pid ep mem" desired_empty dv_records dv_record_ids dr_service
    hash "dord hash" for hash pid ep mem
  by unfold_locales (auto simp: desired_step_def desired_apply_Inr desired_empty_def desired_order_def)

lemma desired_from_records_step:
  "desired_from_records hash pid ep mem L = Inr v \<Longrightarrow> replay (desired_step hash pid ep mem) desired_empty (map fst L) = Inr v"
  unfolding desired_from_records_def by (rule desired_replay_verified)

text \<open>Every record of a log that replays passed verification against the membership of the replay.\<close>

lemma desired_replay_verifies:
  "replay (\<lambda>v (r, p). desired_apply hash pid ep mem v r p) v L = Inr w \<Longrightarrow> (r, p) \<in> set L \<Longrightarrow>
   desired_verify r p pid ep mem = Inr ()"
proof (induction L arbitrary: v)
  case (Cons a L)
  obtain s q where a: "a = (s, q)" by (cases a)
  with Cons.prems(1) obtain out u where u: "desired_apply hash pid ep mem v s q = Inr (out, u)"
      "replay (\<lambda>v (r, p). desired_apply hash pid ep mem v r p) u L = Inr w"
    by (auto split: sum.splits)
  then show ?case using Cons.IH [OF u(2)] Cons.prems(2) by (auto simp: a desired_apply_Inr)
qed simp

section \<open>Sample records\<close>

definition demo_desired :: "u64 \<Rightarrow> u32 option \<Rightarrow> DesiredStateRecord" where
  "demo_desired revision n =
     \<lparr>dr_project_id = ''p'', dr_recovery_epoch = 1, dr_protocol_version = 1, dr_schema_version = 2, dr_service = ''web'',
      dr_scale_override = n, dr_revision = revision, dr_author_node_id = ''a'', dr_author_epoch = 1\<rparr>"

definition demo_desired_hash :: "DesiredStateRecord \<Rightarrow> string" where
  "demo_desired_hash r = (if dr_revision r = 1 then ''1'' else ''2'')"

lemma demo_desired_run:
  "desired_from_records demo_desired_hash ''p'' 1 demo_view [(demo_desired 2 (Some 3), Verified), (demo_desired 1 None, Local)] =
   Inr \<lparr>dv_records = [(''web'', demo_desired 2 (Some 3))], dv_record_ids = {''1'', ''2''}\<rparr>"
proof -
  have v: "desired_verify (demo_desired k n) p ''p'' 1 demo_view = Inr ()" if "p = Local \<or> p = Verified" "k \<noteq> 0" for k n p
    using that by (auto simp: desired_verify_def desired_validate_def demo_desired_def DESIRED_PROTOCOL_VERSION_def
        DESIRED_SCHEMA_VERSION_def DESIRED_MIN_SUPPORTED_SCHEMA_VERSION_def membership_get_def demo_view_def demo_member_def)
  have "desired_apply demo_desired_hash ''p'' 1 demo_view desired_empty (demo_desired 2 (Some 3)) Verified =
      Inr (Applied, \<lparr>dv_records = [(''web'', demo_desired 2 (Some 3))], dv_record_ids = {''2''}\<rparr>)"
    unfolding desired_apply_Inr by (simp add: v desired_empty_def) (simp add: demo_desired_def demo_desired_hash_def)
  moreover have "desired_apply demo_desired_hash ''p'' 1 demo_view
      \<lparr>dv_records = [(''web'', demo_desired 2 (Some 3))], dv_record_ids = {''2''}\<rparr> (demo_desired 1 None) Local =
      Inr (Superseded, \<lparr>dv_records = [(''web'', demo_desired 2 (Some 3))], dv_record_ids = {''1'', ''2''}\<rparr>)"
    unfolding desired_apply_Inr by (simp add: v) (simp add: demo_desired_def demo_desired_hash_def desired_order_def)
  ultimately show ?thesis by (simp add: desired_from_records_def)
qed

section \<open>Properties\<close>

text \<open>C9. The desired state of a service is its record with the greatest revision, the content hash breaking
  ties, among all records accepted, whatever their order, their sources and the membership at the time;
  the accepted ids are those of the log.\<close>

theorem desired_last_writer_wins:
  assumes "desired_from_records hash pid ep mem L = Inr v" "inj_on hash (fst ` set L)"
  shows "(desired_get v s = Some c \<longleftrightarrow> c \<in> fst ` set L \<and> dr_service c = s \<and>
      (\<forall>r \<in> fst ` set L. dr_service r = s \<longrightarrow> desired_order r (hash r) \<le> desired_order c (hash c))) \<and>
    dv_record_ids v = hash ` fst ` set L"
proof -
  note L = desired_from_records_step [OF assms(1)]
  have "inj_on hash (set (map fst L))" using assms(2) by simp
  from dview.replay_winner_unique [OF L this] dview.replay_facts [OF L] show ?thesis
    by (simp add: desired_get_def)
qed

theorem desired_last_writer_wins_witness:
  "desired_get \<lparr>dv_records = [(''web'', demo_desired 2 (Some 3))], dv_record_ids = {''1'', ''2''}\<rparr> ''web'' =
     Some (demo_desired 2 (Some 3))"
proof -
  have "inj_on demo_desired_hash (fst ` set [(demo_desired 2 (Some 3), Verified), (demo_desired 1 None, Local)])"
    by (simp add: demo_desired_hash_def demo_desired_def)
  note lww = desired_last_writer_wins [OF demo_desired_run this, of "''web''" "demo_desired 2 (Some 3)"]
  show ?thesis
    by (rule lww [THEN conjunct1, THEN iffD2]) (simp add: demo_desired_def desired_order_def)
qed

text \<open>The author's epoch is checked even for records that are only replayed: once a member's owner epoch has
  moved on, a history that contains one of its older records can no longer be replayed, although
  verified records are documented to be trusted unconditionally.\<close>

theorem desired_replay_wedged_by_epoch:
  assumes "(r, Verified) \<in> set L" "membership_get mem (dr_author_node_id r) = Some author"
    "mr_owner_epoch author \<noteq> dr_author_epoch r"
  shows "\<exists>e. desired_from_records hash pid ep mem L = Inl e"
proof (cases "desired_from_records hash pid ep mem L")
  case (Inr v)
  then have "desired_verify r Verified pid ep mem = Inr ()"
    unfolding desired_from_records_def by (rule desired_replay_verifies [OF _ assms(1)])
  then show ?thesis using assms(2,3) by (auto simp: desired_verify_def split: sum.splits if_splits)
qed blast

theorem desired_replay_wedged_by_epoch_witness:
  "\<exists>e. desired_from_records demo_desired_hash ''p'' 1
     \<lparr>mv_records = [(''a'', demo_member ''a'' 10 ''10.0.0.0/24'' 2 1 MActive)], mv_record_ids = {}\<rparr>
     [(demo_desired 1 None, Verified)] = Inl e"
  by (rule desired_replay_wedged_by_epoch
      [where r = "demo_desired 1 None" and author = "demo_member ''a'' 10 ''10.0.0.0/24'' 2 1 MActive"])
    (simp_all add: membership_get_def demo_desired_def demo_member_def)

end
