(* ===== verification/Wireguard.thy ===== *)
theory Wireguard
  imports Membership
begin

text \<open>
  Incremental WireGuard reconciliation, \<^verbatim>\<open>crates/jiji-agent/src/wireguard.rs\<close>: the plan of peer actions that
  brings the kernel from the cached peers to the known membership, and its rendering as commands.
  The outer option of the plan is \<open>None\<close> where the code would panic for want of an endpoint.
\<close>

section \<open>Peers and actions\<close>

record PeerCacheEntry =
  pc_node_id :: string
  pc_wireguard_public_key :: string
  pc_management_address :: string
  pc_container_subnet :: string
  pc_endpoint :: SocketAddr
  pc_owner_epoch :: u64
  pc_revision :: u64

datatype PeerAction =
    SetPeer (pa_node_id: string) (pa_public_key: string) (pa_endpoint: SocketAddr) (pa_allowed_ips: "string list")
  | UpdateEndpoint (pa_node_id: string) (pa_public_key: string) (pa_endpoint: SocketAddr)
  | RemovePeer (pa_node_id: string) (pa_public_key: string) (pa_allowed_ips: "string list")

type_synonym PeerCache = "(string, PeerCacheEntry) btree_map"

record ReconcilePlan =
  rp_actions :: "PeerAction list"
  rp_next_cache :: PeerCache

section \<open>Planning\<close>

definition remove_action :: "string \<Rightarrow> PeerCacheEntry \<Rightarrow> PeerAction" where
  "remove_action node_id previous =
     RemovePeer node_id (pc_wireguard_public_key previous)
       [pc_management_address previous @ ''/32'', pc_container_subnet previous]"

definition choose_endpoint ::
  "(string, SocketAddr) btree_map \<Rightarrow> PeerCacheEntry option \<Rightarrow> MembershipRecord \<Rightarrow> SocketAddr option" where
  "choose_endpoint observed previous r =
     (case map_of observed (mr_wireguard_public_key r) of
        Some e \<Rightarrow> Some e
      | None \<Rightarrow>
          (case (case previous of
                   None \<Rightarrow> None
                 | Some p \<Rightarrow> (if pc_wireguard_public_key p = mr_wireguard_public_key r then Some (pc_endpoint p) else None)) of
             Some e \<Rightarrow> Some e
           | None \<Rightarrow> (case mr_endpoints r of [] \<Rightarrow> None | e # _ \<Rightarrow> Some e)))"

definition next_entry :: "MembershipRecord \<Rightarrow> SocketAddr \<Rightarrow> PeerCacheEntry" where
  "next_entry r endpoint =
     \<lparr>pc_node_id = mr_node_id r, pc_wireguard_public_key = mr_wireguard_public_key r,
      pc_management_address = show_ipv4 (mr_management_address r), pc_container_subnet = mr_container_subnet r,
      pc_endpoint = endpoint, pc_owner_epoch = mr_owner_epoch r, pc_revision = mr_revision r\<rparr>"

definition allowed_ips_unchanged :: "PeerCacheEntry option \<Rightarrow> PeerCacheEntry \<Rightarrow> bool" where
  "allowed_ips_unchanged previous nxt =
     (case previous of
        None \<Rightarrow> False
      | Some p \<Rightarrow> pc_wireguard_public_key p = pc_wireguard_public_key nxt \<and>
                  pc_management_address p = pc_management_address nxt \<and>
                  pc_container_subnet p = pc_container_subnet nxt)"

definition plan_tombstone :: "MembershipRecord \<Rightarrow> ReconcilePlan \<Rightarrow> ReconcilePlan" where
  "plan_tombstone r pl =
     (case map_of (rp_next_cache pl) (mr_node_id r) of
        None \<Rightarrow> pl
      | Some previous \<Rightarrow>
          \<lparr>rp_actions = rp_actions pl @ [remove_action (mr_node_id r) previous],
           rp_next_cache = bt_remove (mr_node_id r) (rp_next_cache pl)\<rparr>)"

definition plan_active ::
  "(string, SocketAddr) btree_map \<Rightarrow> MembershipRecord \<Rightarrow> ReconcilePlan \<Rightarrow> ReconcilePlan option" where
  "plan_active observed r pl =
     (let previous = map_of (rp_next_cache pl) (mr_node_id r);
          removal = (case previous of
                       None \<Rightarrow> []
                     | Some p \<Rightarrow> (if pc_wireguard_public_key p \<noteq> mr_wireguard_public_key r
                                  then [remove_action (mr_node_id r) p] else []))
      in case choose_endpoint observed previous r of
           None \<Rightarrow> None
         | Some endpoint \<Rightarrow>
             (let nxt = next_entry r endpoint;
                  change = (if previous = Some nxt then []
                            else if allowed_ips_unchanged previous nxt then
                              [UpdateEndpoint (mr_node_id r) (mr_wireguard_public_key r) endpoint]
                            else
                              [SetPeer (mr_node_id r) (mr_wireguard_public_key r) endpoint
                                 [show_ipv4 (mr_management_address r) @ ''/32'', mr_container_subnet r]])
              in Some \<lparr>rp_actions = rp_actions pl @ removal @ change,
                       rp_next_cache = bt_insert (mr_node_id r) nxt (rp_next_cache pl)\<rparr>))"

fun plan_records ::
  "string \<Rightarrow> (string, SocketAddr) btree_map \<Rightarrow> MembershipRecord list \<Rightarrow> string set \<Rightarrow> ReconcilePlan \<Rightarrow> ReconcilePlan option" where
  "plan_records local_node observed [] handled pl = Some pl"
| "plan_records local_node observed (r # rs) handled pl =
     (if mr_node_id r = local_node \<or> mr_node_id r \<in> handled then plan_records local_node observed rs handled pl
      else
        case (case mr_state r of MTombstoned \<Rightarrow> Some (plan_tombstone r pl) | MActive \<Rightarrow> plan_active observed r pl) of
          None \<Rightarrow> None
        | Some pl' \<Rightarrow> plan_records local_node observed rs (insert (mr_node_id r) handled) pl')"

definition plan_reconciliation ::
  "string \<Rightarrow> MembershipRecord list \<Rightarrow> PeerCache \<Rightarrow> (string, SocketAddr) btree_map \<Rightarrow> ReconcilePlan option" where
  "plan_reconciliation local_node_id records cache observed =
     plan_records local_node_id observed records {} \<lparr>rp_actions = [], rp_next_cache = cache\<rparr>"

section \<open>Rendering\<close>

text \<open>The text of an IPv6 address is the parameter \<open>show_v6\<close>.\<close>

definition show_socket_addr :: "(128 word \<Rightarrow> string) \<Rightarrow> SocketAddr \<Rightarrow> string" where
  "show_socket_addr show_v6 a =
     (case sa_ip a of
        V4 ip \<Rightarrow> show_ipv4 ip @ '':'' @ show_nat (sa_port a)
      | V6 ip \<Rightarrow> ''['' @ show_v6 ip @ '']:'' @ show_nat (sa_port a))"

fun render_action :: "(128 word \<Rightarrow> string) \<Rightarrow> string \<Rightarrow> PeerAction \<Rightarrow> string list" where
  "render_action show_v6 interface (SetPeer _ public_key endpoint allowed_ips) =
     (''wg set '' @ interface @ '' peer '' @ public_key @ '' endpoint '' @ show_socket_addr show_v6 endpoint @
      '' allowed-ips '' @ join '','' allowed_ips @ '' persistent-keepalive 25'') #
     map (\<lambda>ip. ''ip route replace '' @ ip @ '' dev '' @ interface) allowed_ips"
| "render_action show_v6 interface (UpdateEndpoint _ public_key endpoint) =
     [''wg set '' @ interface @ '' peer '' @ public_key @ '' endpoint '' @ show_socket_addr show_v6 endpoint]"
| "render_action show_v6 interface (RemovePeer _ public_key allowed_ips) =
     (''wg set '' @ interface @ '' peer '' @ public_key @ '' remove'') #
     map (\<lambda>ip. ''ip route del '' @ ip @ '' dev '' @ interface) allowed_ips"

definition render_commands :: "(128 word \<Rightarrow> string) \<Rightarrow> string \<Rightarrow> ReconcilePlan \<Rightarrow> string list" where
  "render_commands show_v6 interface pl = concat (map (render_action show_v6 interface) (rp_actions pl))"

section \<open>A reference description of the plan\<close>

text \<open>The records the loop acts on: the first record of every node other than the local one.\<close>

fun relevant :: "string \<Rightarrow> string set \<Rightarrow> MembershipRecord list \<Rightarrow> MembershipRecord list" where
  "relevant l handled [] = []"
| "relevant l handled (r # rs) =
     (if mr_node_id r = l \<or> mr_node_id r \<in> handled then relevant l handled rs
      else r # relevant l (insert (mr_node_id r) handled) rs)"

text \<open>What becomes of the cache entry of the node of one record, and the actions for that record.\<close>

definition entry_after ::
  "(string, SocketAddr) btree_map \<Rightarrow> PeerCacheEntry option \<Rightarrow> MembershipRecord \<Rightarrow> PeerCacheEntry option" where
  "entry_after observed previous r =
     (case mr_state r of MTombstoned \<Rightarrow> None | MActive \<Rightarrow> map_option (next_entry r) (choose_endpoint observed previous r))"

definition record_actions ::
  "(string, SocketAddr) btree_map \<Rightarrow> PeerCacheEntry option \<Rightarrow> MembershipRecord \<Rightarrow> PeerAction list" where
  "record_actions observed previous r =
     (case previous of
        None \<Rightarrow> []
      | Some p \<Rightarrow> (if mr_state r = MTombstoned \<or> pc_wireguard_public_key p \<noteq> mr_wireguard_public_key r
                   then [remove_action (mr_node_id r) p] else [])) @
     (case entry_after observed previous r of
        None \<Rightarrow> []
      | Some nxt \<Rightarrow>
          (if previous = Some nxt then []
           else if allowed_ips_unchanged previous nxt then
             [UpdateEndpoint (mr_node_id r) (mr_wireguard_public_key r) (pc_endpoint nxt)]
           else [SetPeer (mr_node_id r) (mr_wireguard_public_key r) (pc_endpoint nxt)
                   [show_ipv4 (mr_management_address r) @ ''/32'', mr_container_subnet r]]))"

abbreviation cached :: "ReconcilePlan \<Rightarrow> string \<Rightarrow> PeerCacheEntry option" where
  "cached pl \<equiv> map_of (rp_next_cache pl)"

definition plan_step_ok :: "(string, SocketAddr) btree_map \<Rightarrow> MembershipRecord \<Rightarrow> ReconcilePlan \<Rightarrow> ReconcilePlan \<Rightarrow> bool" where
  "plan_step_ok observed r pl pl' \<longleftrightarrow>
     rp_actions pl' = rp_actions pl @ record_actions observed (cached pl (mr_node_id r)) r \<and>
     cached pl' = (cached pl)(mr_node_id r := entry_after observed (cached pl (mr_node_id r)) r) \<and>
     (bt_wf (rp_next_cache pl) \<longrightarrow> bt_wf (rp_next_cache pl'))"

lemma plan_tombstone_ok: "mr_state r = MTombstoned \<Longrightarrow> plan_step_ok observed r pl (plan_tombstone r pl)"
  by (auto simp: plan_step_ok_def plan_tombstone_def record_actions_def entry_after_def fun_upd_idem split: option.splits)

lemma choose_endpoint_Some: "mr_endpoints r \<noteq> [] \<Longrightarrow> \<exists>e. choose_endpoint observed previous r = Some e"
  by (auto simp: choose_endpoint_def neq_Nil_conv split: option.splits)

lemma plan_active_ok:
  assumes "mr_state r = MActive" "mr_endpoints r \<noteq> []"
  shows "\<exists>pl'. plan_active observed r pl = Some pl' \<and> plan_step_ok observed r pl pl'"
proof -
  obtain e where e: "choose_endpoint observed (cached pl (mr_node_id r)) r = Some e"
    using choose_endpoint_Some [OF assms(2)] by blast
  then have "entry_after observed (cached pl (mr_node_id r)) r = Some (next_entry r e)"
    using assms(1) by (simp add: entry_after_def)
  then show ?thesis using e assms(1)
    by (auto simp: plan_active_def plan_step_ok_def record_actions_def Let_def next_entry_def split: option.splits)
qed

lemma relevant_mem: "r \<in> set (relevant l H rs) \<Longrightarrow> r \<in> set rs \<and> mr_node_id r \<noteq> l \<and> mr_node_id r \<notin> H"
  by (induction l H rs rule: relevant.induct) (auto split: if_splits)

lemma relevant_distinct: "distinct (map mr_node_id (relevant l H rs))"
  by (induction l H rs rule: relevant.induct) (auto dest: relevant_mem)

lemma relevant_node:
  "r \<in> set rs \<Longrightarrow> mr_node_id r \<noteq> l \<Longrightarrow> mr_node_id r \<notin> H \<Longrightarrow> mr_node_id r \<in> mr_node_id ` set (relevant l H rs)"
  by (induction l H rs rule: relevant.induct) auto

lemma plan_records_ok:
  assumes "\<forall>r \<in> set rs. mr_state r = MActive \<longrightarrow> mr_endpoints r \<noteq> []"
  shows "\<exists>pl'. plan_records l observed rs H pl = Some pl' \<and>
    rp_actions pl' = rp_actions pl @
      concat (map (\<lambda>r. record_actions observed (cached pl (mr_node_id r)) r) (relevant l H rs)) \<and>
    (\<forall>r \<in> set (relevant l H rs). cached pl' (mr_node_id r) = entry_after observed (cached pl (mr_node_id r)) r) \<and>
    (\<forall>n. n \<notin> mr_node_id ` set (relevant l H rs) \<longrightarrow> cached pl' n = cached pl n) \<and>
    (bt_wf (rp_next_cache pl) \<longrightarrow> bt_wf (rp_next_cache pl'))"
  using assms
proof (induction rs arbitrary: H pl)
  case (Cons r rs)
  show ?case
  proof (cases "mr_node_id r = l \<or> mr_node_id r \<in> H")
    case True
    then show ?thesis using Cons.IH [of H pl] Cons.prems by auto
  next
    case False
    let ?H = "insert (mr_node_id r) H"
    obtain p1 where p1: "(case mr_state r of MTombstoned \<Rightarrow> Some (plan_tombstone r pl) | MActive \<Rightarrow> plan_active observed r pl) = Some p1"
      and ok: "plan_step_ok observed r pl p1"
      using plan_active_ok [of r observed pl] plan_tombstone_ok [of r observed pl] Cons.prems by (cases "mr_state r") auto
    have same: "cached p1 (mr_node_id x) = cached pl (mr_node_id x)" if "x \<in> set (relevant l ?H rs)" for x
      using ok relevant_mem [OF that] by (auto simp: plan_step_ok_def)
    then have acts: "map (\<lambda>x. record_actions observed (cached p1 (mr_node_id x)) x) (relevant l ?H rs) =
        map (\<lambda>x. record_actions observed (cached pl (mr_node_id x)) x) (relevant l ?H rs)" by simp
    from Cons.IH [of ?H p1] Cons.prems obtain p2 where p2: "plan_records l observed rs ?H p1 = Some p2"
      "rp_actions p2 = rp_actions p1 @ concat (map (\<lambda>r. record_actions observed (cached p1 (mr_node_id r)) r) (relevant l ?H rs))"
      "\<forall>r \<in> set (relevant l ?H rs). cached p2 (mr_node_id r) = entry_after observed (cached p1 (mr_node_id r)) r"
      "\<forall>n. n \<notin> mr_node_id ` set (relevant l ?H rs) \<longrightarrow> cached p2 n = cached p1 n"
      "bt_wf (rp_next_cache p1) \<longrightarrow> bt_wf (rp_next_cache p2)" by auto
    have notin: "mr_node_id r \<notin> mr_node_id ` set (relevant l ?H rs)" using relevant_mem by fastforce
    show ?thesis
      by (rule exI [of _ p2]) (use False p1 p2 ok same notin acts in \<open>auto simp: plan_step_ok_def\<close>)
  qed
qed simp

definition reconcile_ok :: "string \<Rightarrow> MembershipRecord list \<Rightarrow> PeerCache \<Rightarrow> (string, SocketAddr) btree_map \<Rightarrow> ReconcilePlan \<Rightarrow> bool" where
  "reconcile_ok l rs cache observed pl \<longleftrightarrow>
     rp_actions pl = concat (map (\<lambda>r. record_actions observed (map_of cache (mr_node_id r)) r) (relevant l {} rs)) \<and>
     (\<forall>r \<in> set (relevant l {} rs). cached pl (mr_node_id r) = entry_after observed (map_of cache (mr_node_id r)) r) \<and>
     (\<forall>n. n \<notin> mr_node_id ` set (relevant l {} rs) \<longrightarrow> cached pl n = map_of cache n) \<and>
     (bt_wf cache \<longrightarrow> bt_wf (rp_next_cache pl))"

lemma plan_reconciliation_ok:
  assumes "\<forall>r \<in> set rs. mr_state r = MActive \<longrightarrow> mr_endpoints r \<noteq> []"
  shows "\<exists>pl. plan_reconciliation l rs cache observed = Some pl \<and> reconcile_ok l rs cache observed pl"
  using plan_records_ok [OF assms, of l observed "{}" "\<lparr>rp_actions = [], rp_next_cache = cache\<rparr>"]
  by (simp add: plan_reconciliation_def reconcile_ok_def)

lemma choose_endpoint_again:
  "choose_endpoint observed previous r = Some e \<Longrightarrow> choose_endpoint observed (Some (next_entry r e)) r = Some e"
  by (auto simp: choose_endpoint_def next_entry_def split: option.splits)

lemma record_again:
  assumes "mr_state r = MActive \<longrightarrow> mr_endpoints r \<noteq> []"
  shows "record_actions observed (entry_after observed previous r) r = []"
    and "entry_after observed (entry_after observed previous r) r = entry_after observed previous r"
proof -
  show "entry_after observed (entry_after observed previous r) r = entry_after observed previous r"
  proof (cases "mr_state r")
    case MActive
    with assms obtain e where e: "choose_endpoint observed previous r = Some e" using choose_endpoint_Some by blast
    from choose_endpoint_again [OF e] e MActive show ?thesis by (simp add: entry_after_def)
  qed (simp add: entry_after_def)
  note same = this
  show "record_actions observed (entry_after observed previous r) r = []"
  proof (cases "mr_state r")
    case MActive
    with assms obtain e where "choose_endpoint observed previous r = Some e" using choose_endpoint_Some by blast
    then have "entry_after observed previous r = Some (next_entry r e)" using MActive by (simp add: entry_after_def)
    with same MActive show ?thesis by (simp add: record_actions_def next_entry_def)
  qed (simp add: record_actions_def entry_after_def)
qed

lemma plan_again:
  assumes "\<forall>r \<in> set rs. mr_state r = MActive \<longrightarrow> mr_endpoints r \<noteq> []" "bt_wf cache"
  shows "\<exists>pl. plan_reconciliation l rs cache observed = Some pl \<and>
    plan_reconciliation l rs (rp_next_cache pl) observed = Some \<lparr>rp_actions = [], rp_next_cache = rp_next_cache pl\<rparr>"
proof -
  obtain pl where pl: "plan_reconciliation l rs cache observed = Some pl" and ok: "reconcile_ok l rs cache observed pl"
    using plan_reconciliation_ok [OF assms(1)] by blast
  obtain q where q: "plan_reconciliation l rs (rp_next_cache pl) observed = Some q"
    and okq: "reconcile_ok l rs (rp_next_cache pl) observed q"
    using plan_reconciliation_ok [OF assms(1)] by blast
  have ne: "mr_state r = MActive \<longrightarrow> mr_endpoints r \<noteq> []" if "r \<in> set (relevant l {} rs)" for r
    using relevant_mem [OF that] assms(1) by blast
  have entry: "cached pl (mr_node_id r) = entry_after observed (map_of cache (mr_node_id r)) r"
    if "r \<in> set (relevant l {} rs)" for r using ok that by (simp add: reconcile_ok_def)
  have "rp_actions q = []"
    using okq record_again(1) [OF ne] by (simp add: reconcile_ok_def entry)
  moreover have "cached q n = cached pl n" for n
  proof (cases "n \<in> mr_node_id ` set (relevant l {} rs)")
    case True
    then show ?thesis using okq record_again(2) [OF ne] entry by (auto simp: reconcile_ok_def)
  qed (use okq in \<open>simp add: reconcile_ok_def\<close>)
  then have "rp_next_cache q = rp_next_cache pl"
    using ok okq assms(2) by (intro bt_ext) (auto simp: reconcile_ok_def)
  ultimately show ?thesis using pl q by simp
qed

section \<open>Properties\<close>

text \<open>C25. Reconciliation always produces a plan for validated records, and it is idempotent: planning again from
  the cache it leaves, with the same membership and observations, yields no action and the same cache.\<close>

theorem reconciliation_idempotent:
  assumes "\<forall>r \<in> set rs. mr_state r = MActive \<longrightarrow> mr_endpoints r \<noteq> []" "bt_wf cache"
  shows "\<exists>pl. plan_reconciliation l rs cache observed = Some pl \<and>
    plan_reconciliation l rs (rp_next_cache pl) observed = Some \<lparr>rp_actions = [], rp_next_cache = rp_next_cache pl\<rparr>"
  by (rule plan_again [OF assms])

theorem reconciliation_idempotent_witness:
  "\<exists>pl. plan_reconciliation ''c'' [node_a, node_b] [] [] = Some pl \<and>
    plan_reconciliation ''c'' [node_a, node_b] (rp_next_cache pl) [] = Some \<lparr>rp_actions = [], rp_next_cache = rp_next_cache pl\<rparr>"
  by (rule reconciliation_idempotent) (simp_all add: demo_member_def)

text \<open>C26. Absence is never deletion authority: the entry of a node without a record, and of the local node, is
  left alone, every action concerns a node that has a record, and a peer is removed only if a record of
  that node is a tombstone or carries another key than the cached one.\<close>

theorem reconciliation_safe:
  assumes "plan_reconciliation l rs cache observed = Some pl"
    "\<forall>r \<in> set rs. mr_state r = MActive \<longrightarrow> mr_endpoints r \<noteq> []"
  shows "(\<forall>n. n = l \<or> n \<notin> mr_node_id ` set rs \<longrightarrow> map_of (rp_next_cache pl) n = map_of cache n) \<and>
    (\<forall>a \<in> set (rp_actions pl). pa_node_id a \<noteq> l \<and> pa_node_id a \<in> mr_node_id ` set rs) \<and>
    (\<forall>n key ips. RemovePeer n key ips \<in> set (rp_actions pl) \<longrightarrow>
      (\<exists>r \<in> set rs. \<exists>c. mr_node_id r = n \<and> map_of cache n = Some c \<and> pc_wireguard_public_key c = key \<and>
        (mr_state r = MTombstoned \<or> mr_wireguard_public_key r \<noteq> key)))"
proof -
  have ok: "reconcile_ok l rs cache observed pl"
    using plan_reconciliation_ok [OF assms(2), of l cache observed] assms(1) by auto
  have origin: "\<exists>r. r \<in> set rs \<and> mr_node_id r \<noteq> l \<and> a \<in> set (record_actions observed (map_of cache (mr_node_id r)) r)"
    if "a \<in> set (rp_actions pl)" for a
    using ok that by (auto simp: reconcile_ok_def dest: relevant_mem)
  have node: "pa_node_id a = mr_node_id r" if "a \<in> set (record_actions observed (map_of cache (mr_node_id r)) r)" for a r
    using that by (auto simp: record_actions_def remove_action_def split: option.splits if_splits)
  have "map_of (rp_next_cache pl) n = map_of cache n" if "n = l \<or> n \<notin> mr_node_id ` set rs" for n
  proof -
    have "n \<notin> mr_node_id ` set (relevant l {} rs)" using that by (auto dest: relevant_mem)
    then show ?thesis using ok by (simp add: reconcile_ok_def)
  qed
  moreover have "pa_node_id a \<noteq> l \<and> pa_node_id a \<in> mr_node_id ` set rs" if "a \<in> set (rp_actions pl)" for a
    using origin [OF that] node by auto
  moreover have "\<exists>r \<in> set rs. \<exists>c. mr_node_id r = n \<and> map_of cache n = Some c \<and> pc_wireguard_public_key c = key \<and>
        (mr_state r = MTombstoned \<or> mr_wireguard_public_key r \<noteq> key)" if "RemovePeer n key ips \<in> set (rp_actions pl)" for n key ips
  proof -
    from origin [OF that] obtain r where r: "r \<in> set rs"
      "RemovePeer n key ips \<in> set (record_actions observed (map_of cache (mr_node_id r)) r)" by blast
    have "mr_node_id r = n" using node [OF r(2)] by simp
    moreover obtain c where "map_of cache (mr_node_id r) = Some c"
      using r(2) by (cases "map_of cache (mr_node_id r)") (auto simp: record_actions_def split: option.splits if_splits)
    ultimately show ?thesis
      using r by (auto simp: record_actions_def remove_action_def split: option.splits if_splits)
  qed
  ultimately show ?thesis by blast
qed

theorem reconciliation_safe_witness:
  "\<exists>pl. plan_reconciliation ''a'' [node_a, node_b] [(''z'', next_entry node_a (SocketAddr (V4 7) 1))] [] = Some pl \<and>
    map_of (rp_next_cache pl) ''z'' = Some (next_entry node_a (SocketAddr (V4 7) 1))"
proof -
  let ?cache = "[(''z'', next_entry node_a (SocketAddr (V4 7) 1))]"
  have ne: "\<forall>r \<in> set [node_a, node_b]. mr_state r = MActive \<longrightarrow> mr_endpoints r \<noteq> []" by (simp add: demo_member_def)
  obtain pl where "plan_reconciliation ''a'' [node_a, node_b] ?cache [] = Some pl"
    using plan_reconciliation_ok [OF ne] by blast
  with reconciliation_safe [OF this ne] show ?thesis by (auto simp: demo_member_def)
qed

text \<open>When a new node takes over the address and subnet of a tombstoned one and its record comes first, the
  plan sets up the new peer and only then removes the old one with the very same allowed addresses, so
  the rendered commands delete the routes they have just installed.\<close>

theorem reassigned_routes_deleted:
  assumes "mr_state b = MActive" "mr_state a = MTombstoned" "mr_endpoints b = [e]"
    "mr_node_id a \<noteq> mr_node_id b" "mr_node_id a \<noteq> l" "mr_node_id b \<noteq> l"
    "map_of cache (mr_node_id a) = Some (next_entry a ea)" "map_of cache (mr_node_id b) = None"
    "map_of observed (mr_wireguard_public_key b) = None"
    "mr_management_address a = mr_management_address b" "mr_container_subnet a = mr_container_subnet b"
  shows "\<exists>pl. plan_reconciliation l [b, a] cache observed = Some pl \<and>
    rp_actions pl =
      [SetPeer (mr_node_id b) (mr_wireguard_public_key b) e [show_ipv4 (mr_management_address b) @ ''/32'', mr_container_subnet b],
       RemovePeer (mr_node_id a) (mr_wireguard_public_key a) [show_ipv4 (mr_management_address b) @ ''/32'', mr_container_subnet b]] \<and>
    drop 4 (render_commands show_v6 i pl) =
      [''ip route del '' @ (show_ipv4 (mr_management_address b) @ ''/32'') @ '' dev '' @ i,
       ''ip route del '' @ mr_container_subnet b @ '' dev '' @ i]"
proof -
  have "\<forall>r \<in> set [b, a]. mr_state r = MActive \<longrightarrow> mr_endpoints r \<noteq> []" using assms by auto
  then obtain pl where pl: "plan_reconciliation l [b, a] cache observed = Some pl" "reconcile_ok l [b, a] cache observed pl"
    using plan_reconciliation_ok by blast
  then have "rp_actions pl =
      [SetPeer (mr_node_id b) (mr_wireguard_public_key b) e [show_ipv4 (mr_management_address b) @ ''/32'', mr_container_subnet b],
       RemovePeer (mr_node_id a) (mr_wireguard_public_key a) [show_ipv4 (mr_management_address b) @ ''/32'', mr_container_subnet b]]"
    using assms by (simp add: reconcile_ok_def record_actions_def entry_after_def choose_endpoint_def
        allowed_ips_unchanged_def remove_action_def next_entry_def)
  with pl(1) show ?thesis by (simp add: render_commands_def)
qed

theorem reassigned_routes_deleted_witness:
  "\<exists>pl. plan_reconciliation ''l'' [demo_member ''b'' 10 ''10.0.0.0/24'' 1 1 MActive, demo_member ''d'' 10 ''10.0.0.0/24'' 1 2 MTombstoned]
      [(''d'', next_entry (demo_member ''d'' 10 ''10.0.0.0/24'' 1 2 MTombstoned) (SocketAddr (V4 7) 1))] [] = Some pl \<and>
    drop 4 (render_commands (\<lambda>_. []) ''wg0'' pl) =
      [''ip route del '' @ (show_ipv4 10 @ ''/32'') @ '' dev wg0'', ''ip route del 10.0.0.0/24 dev wg0'']"
  using reassigned_routes_deleted [of "demo_member ''b'' 10 ''10.0.0.0/24'' 1 1 MActive"
      "demo_member ''d'' 10 ''10.0.0.0/24'' 1 2 MTombstoned" "SocketAddr (V4 7) 1" "''l''"
      "[(''d'', next_entry (demo_member ''d'' 10 ''10.0.0.0/24'' 1 2 MTombstoned) (SocketAddr (V4 7) 1))]"
      "SocketAddr (V4 7) 1" "[]" "\<lambda>_. []" "''wg0''"]
  by (auto simp: demo_member_def)

end
