(* ===== verification/Cron.thy ===== *)
theory Cron
  imports Membership
begin

text \<open>
  The data of scheduled commands, \<^verbatim>\<open>crates/jiji-agent/src/cron.rs\<close>: job specifications with their canonical
  hash, runs, outcomes and filters.
\<close>

section \<open>Job specifications\<close>

datatype JobOverlap = Forbid

datatype JobMissedRuns = SkipMissed

record CronJobSpec =
  cj_project :: string
  cj_service :: string
  cj_cron_name :: string
  cj_revision :: u64
  cj_canonical_hash :: string
  cj_owner_node_id :: string
  cj_owner_epoch :: u64
  cj_server :: string
  cj_source_deployment_id :: string
  cj_source_replica_id :: string
  cj_image :: string
  cj_schedule :: string
  cj_timezone :: string
  cj_timeout_seconds :: u64
  cj_overlap :: JobOverlap
  cj_missed_runs :: JobMissedRuns
  cj_command :: "string list"
  cj_env_file_path :: string
  cj_mount_args :: "string list"
  cj_resource_args :: "string list"
  cj_bridge_network :: string
  cj_dns_address :: string

record CronSpecContent =
  cc_image :: string
  cc_schedule :: string
  cc_timezone :: string
  cc_timeout_seconds :: u64
  cc_overlap :: JobOverlap
  cc_missed_runs :: JobMissedRuns
  cc_command :: "string list"
  cc_env_file_path :: string
  cc_mount_args :: "string list"
  cc_resource_args :: "string list"
  cc_bridge_network :: string
  cc_dns_address :: string
  cc_source_deployment_id :: string
  cc_source_replica_id :: string

definition cron_spec_content :: "CronJobSpec \<Rightarrow> CronSpecContent" where
  "cron_spec_content s =
     \<lparr>cc_image = cj_image s, cc_schedule = cj_schedule s, cc_timezone = cj_timezone s,
      cc_timeout_seconds = cj_timeout_seconds s, cc_overlap = cj_overlap s, cc_missed_runs = cj_missed_runs s,
      cc_command = cj_command s, cc_env_file_path = cj_env_file_path s, cc_mount_args = cj_mount_args s,
      cc_resource_args = cj_resource_args s, cc_bridge_network = cj_bridge_network s, cc_dns_address = cj_dns_address s,
      cc_source_deployment_id = cj_source_deployment_id s, cc_source_replica_id = cj_source_replica_id s\<rparr>"

definition canonical_hash :: "(string \<Rightarrow> u8 list) \<Rightarrow> (CronSpecContent \<Rightarrow> string) \<Rightarrow> CronJobSpec \<Rightarrow> string" where
  "canonical_hash sha256 json s = content_hash sha256 json (cron_spec_content s)"

datatype CronSpecApplyOutcome = SpecInstalled CronJobSpec | SpecUpdated CronJobSpec | SpecUnchanged CronJobSpec

fun outcome_spec :: "CronSpecApplyOutcome \<Rightarrow> CronJobSpec" where
  "outcome_spec (SpecInstalled s) = s"
| "outcome_spec (SpecUpdated s) = s"
| "outcome_spec (SpecUnchanged s) = s"

datatype CronSpecApplyOutcomeKind = KindInstalled | KindUpdated | KindUnchanged

fun outcome_kind :: "CronSpecApplyOutcome \<Rightarrow> CronSpecApplyOutcomeKind" where
  "outcome_kind (SpecInstalled _) = KindInstalled"
| "outcome_kind (SpecUpdated _) = KindUpdated"
| "outcome_kind (SpecUnchanged _) = KindUnchanged"

section \<open>Runs\<close>

datatype CronRunCause = Scheduled | Manual

datatype CronRunState = RunClaimed | Running | Succeeded | Failed | TimedOut | Skipped

definition run_is_active :: "CronRunState \<Rightarrow> bool" where
  "run_is_active st = (st = RunClaimed \<or> st = Running)"

record CronRun =
  cx_run_id :: string
  cx_project :: string
  cx_service :: string
  cx_cron_name :: string
  cx_cause :: CronRunCause
  cx_scheduled_at :: "u64 option"
  cx_claimed_at :: u64
  cx_started_at :: "u64 option"
  cx_finished_at :: "u64 option"
  cx_state :: CronRunState
  cx_deployment_id :: "string option"
  cx_container_name :: "string option"
  cx_address :: "string option"
  cx_exit_code :: "int option"
  cx_error :: "string option"

datatype CronClaimOutcome =
    ClaimedRun CronRun
  | DuplicateScheduledClaim CronRun
  | OverlapForbidden (active_run_id: string)

record CronSchedulerState =
  cs_service :: string
  cs_cron_name :: string
  cs_last_evaluated_at :: "u64 option"
  cs_next_due_at :: "u64 option"
  cs_skipped_overlap_count :: u64

record CronRunFilter =
  cf_service :: "string option"
  cf_cron_name :: "string option"
  cf_run_id :: "string option"
  cf_since :: "u64 option"
  cf_limit :: "u32 option"

text \<open>The hash depends only on what runs and when, not on identity or ownership.\<close>

lemma canonical_hash_ignores_bookkeeping:
  "canonical_hash sha256 json
     (s\<lparr>cj_project := p, cj_service := sv, cj_cron_name := n, cj_revision := r, cj_canonical_hash := h,
        cj_owner_node_id := o', cj_owner_epoch := e, cj_server := srv\<rparr>) = canonical_hash sha256 json s"
  by (simp add: canonical_hash_def cron_spec_content_def)

lemma outcome_spec_kind: "outcome_spec x = outcome_spec y \<Longrightarrow> outcome_kind x = outcome_kind y \<Longrightarrow> x = y"
  by (cases x; cases y) auto

end
