(* ===== verification/Store.thy ===== *)
theory Store
  imports Desired Wireguard Cron
begin

text \<open>
  The agent's durable store, \<^verbatim>\<open>crates/jiji-agent/src/store.rs\<close>: its tables as one record, and the operations on
  the local tables (idempotency keys, local transactions, checkpoints, observations, peer and component
  status, peer cache, liveness, image retention).
  A table with a text primary key is an ordered map from that key to the row, which is the order in which
  the queries list it; the operation logs are lists in row-id order.
  Columns that hold JSON hold the value itself.
  Statements on a healthy database succeed; the errors that remain are the conversions and constraints
  the code can run into. The clock of a call is the argument \<open>now\<close>, as text where it is stored.
\<close>

section \<open>Errors\<close>

datatype StoreError =
    SDatabase
  | SIo
  | SCorrupted (s_path: string) (s_detail: string)
  | SUnsupportedSchema (s_found: int) (s_supported: int)
  | SMigrationFailed (s_version: int) (s_failure: string)
  | SMembership MembershipError
  | SCatalog CatalogError
  | SDesired DesiredError
  | SQuotaExceeded (s_used_bytes: u64) (s_quota_bytes: u64)
  | SSerialization

text \<open>\<^verbatim>\<open>rusqlite\<close> refuses to bind an unsigned value that does not fit the signed 64-bit integers of SQLite.\<close>

definition bind_u64 :: "u64 \<Rightarrow> (StoreError, u64) result" where
  "bind_u64 x = (if unat x < 2 ^ 63 then Inr x else Inl SDatabase)"

text \<open>\<^verbatim>\<open>x as i64\<close>\<close>

definition as_i64 :: "u64 \<Rightarrow> int" where
  "as_i64 x = sint x"

section \<open>Tables\<close>

record Observation =
  ob_container_id :: string
  ob_name :: string
  ob_image :: string
  ob_labels_json :: string
  ob_state :: string

record observation_row =
  or_observation :: Observation
  or_first_seen_at :: string
  or_last_seen_at :: string

record AddressLease =
  al_deployment_id :: string
  al_replica_id :: string
  al_address :: Ipv4Addr
  al_state :: string
  al_quarantine_until :: "u64 option"

record CompactionResult =
  comp_membership_removed :: nat
  comp_catalog_removed :: nat
  comp_desired_removed :: nat

record PeerSyncStatus =
  ps_node_id :: string
  ps_last_success_at :: "string option"
  ps_consecutive_failures :: nat
  ps_last_error :: "string option"

record OperationCounts =
  oc_membership :: nat
  oc_catalog :: nat
  oc_desired :: nat

record ComponentStatus =
  cst_component :: string
  cst_last_attempt_at :: "string option"
  cst_last_success_at :: "string option"
  cst_consecutive_failures :: nat
  cst_last_error :: "string option"
  cst_next_retry_at :: "string option"

record ImageRetentionSpec =
  ir_service :: string
  ir_repo :: string
  ir_retain :: u32

text \<open>A row of a materialised table: the columns that the schema keeps beside the record.\<close>

record membership_row =
  mw_server_name :: string
  mw_owner_epoch :: u64
  mw_revision :: u64
  mw_state :: string
  mw_operation_id :: string
  mw_record :: MembershipRecord

record catalog_row =
  cw_replica_id :: string
  cw_owner_epoch :: u64
  cw_revision :: u64
  cw_state :: string
  cw_operation_id :: string
  cw_record :: CatalogRecord

record desired_row =
  dw_revision :: u64
  dw_operation_id :: string
  dw_record :: DesiredStateRecord

record cron_spec_row =
  jw_revision :: int
  jw_canonical_hash :: string
  jw_spec :: CronJobSpec

record cron_run_row =
  rw_scheduled_at :: "int option"
  rw_claimed_at :: int
  rw_state :: string
  rw_run :: CronRun

record scheduler_row =
  sw_skipped_overlap_count :: int
  sw_last_evaluated_at :: "u64 option"
  sw_next_due_at :: "u64 option"

record AgentStore =
  as_soft_quota_bytes :: "u64 option"
  as_idempotency_keys :: "(string, string) btree_map"
  as_observations :: "(string, observation_row) btree_map"
  as_checkpoints :: "(string, string) btree_map"
  as_local_state :: "(string, string \<times> int) btree_map"
  as_membership_operations :: "(string \<times> MembershipRecord) list"
  as_membership_records :: "(string, membership_row) btree_map"
  as_peer_cache :: "(string, PeerCacheEntry) btree_map"
  as_catalog_operations :: "(string \<times> CatalogRecord) list"
  as_catalog_records :: "(string, catalog_row) btree_map"
  as_node_liveness :: "(string, string) btree_map"
  as_address_leases :: "(string, AddressLease) btree_map"
  as_desired_operations :: "(string \<times> DesiredStateRecord) list"
  as_desired_records :: "(string, desired_row) btree_map"
  as_peer_sync_status :: "(string, PeerSyncStatus) btree_map"
  as_component_status :: "(string, ComponentStatus) btree_map"
  as_cron_job_specs :: "(string \<times> string, cron_spec_row) btree_map"
  as_cron_runs :: "(string \<times> cron_run_row) list"
  as_cron_scheduler_state :: "(string \<times> string, scheduler_row) btree_map"
  as_image_retention_specs :: "(string, ImageRetentionSpec) btree_map"

definition store_empty :: AgentStore where
  "store_empty =
     \<lparr>as_soft_quota_bytes = None, as_idempotency_keys = [], as_observations = [], as_checkpoints = [],
      as_local_state = [], as_membership_operations = [], as_membership_records = [], as_peer_cache = [],
      as_catalog_operations = [], as_catalog_records = [], as_node_liveness = [], as_address_leases = [],
      as_desired_operations = [], as_desired_records = [], as_peer_sync_status = [], as_component_status = [],
      as_cron_job_specs = [], as_cron_runs = [], as_cron_scheduler_state = [], as_image_retention_specs = []\<rparr>"

section \<open>Quota and counts\<close>

definition set_soft_quota_bytes :: "u64 option \<Rightarrow> AgentStore \<Rightarrow> AgentStore" where
  "set_soft_quota_bytes q st = st\<lparr>as_soft_quota_bytes := q\<rparr>"

text \<open>The number of pages and their size, as the database reports them, are arguments.\<close>

definition database_usage_bytes :: "u64 \<Rightarrow> u64 \<Rightarrow> u64" where
  "database_usage_bytes pages page_size =
     (if unat pages * unat page_size < 2 ^ 64 then pages * page_size else - 1)"

definition ensure_replication_capacity :: "u64 \<Rightarrow> u64 \<Rightarrow> AgentStore \<Rightarrow> (StoreError, unit) result" where
  "ensure_replication_capacity pages page_size st =
     (case as_soft_quota_bytes st of
        None \<Rightarrow> Inr ()
      | Some quota_bytes \<Rightarrow>
          (let used_bytes = database_usage_bytes pages page_size
           in if quota_bytes \<le> used_bytes then Inl (SQuotaExceeded used_bytes quota_bytes) else Inr ()))"

definition operation_counts :: "AgentStore \<Rightarrow> OperationCounts" where
  "operation_counts st =
     \<lparr>oc_membership = length (as_membership_operations st), oc_catalog = length (as_catalog_operations st),
      oc_desired = length (as_desired_operations st)\<rparr>"

section \<open>Peer and component status\<close>

definition record_peer_sync_success :: "string \<Rightarrow> string \<Rightarrow> AgentStore \<Rightarrow> AgentStore" where
  "record_peer_sync_success now node_id st =
     st\<lparr>as_peer_sync_status := bt_insert node_id
         \<lparr>ps_node_id = node_id, ps_last_success_at = Some now, ps_consecutive_failures = 0, ps_last_error = None\<rparr>
         (as_peer_sync_status st)\<rparr>"

definition record_peer_sync_failure :: "string \<Rightarrow> string \<Rightarrow> AgentStore \<Rightarrow> AgentStore" where
  "record_peer_sync_failure node_id error st =
     (let row = (case map_of (as_peer_sync_status st) node_id of
                   None \<Rightarrow> \<lparr>ps_node_id = node_id, ps_last_success_at = None, ps_consecutive_failures = 1, ps_last_error = Some error\<rparr>
                 | Some old \<Rightarrow> old\<lparr>ps_consecutive_failures := ps_consecutive_failures old + 1, ps_last_error := Some error\<rparr>)
      in st\<lparr>as_peer_sync_status := bt_insert node_id row (as_peer_sync_status st)\<rparr>)"

definition delete_peer_sync_status :: "string \<Rightarrow> AgentStore \<Rightarrow> AgentStore" where
  "delete_peer_sync_status node_id st = st\<lparr>as_peer_sync_status := bt_remove node_id (as_peer_sync_status st)\<rparr>"

definition peer_sync_statuses :: "AgentStore \<Rightarrow> PeerSyncStatus list" where
  "peer_sync_statuses st = bt_values (as_peer_sync_status st)"

definition record_component_result ::
  "string \<Rightarrow> string \<Rightarrow> (string, unit) result \<Rightarrow> u64 option \<Rightarrow> AgentStore \<Rightarrow> AgentStore" where
  "record_component_result now component res next_retry_at st =
     (let row =
        (case res of
           Inr _ \<Rightarrow>
             \<lparr>cst_component = component, cst_last_attempt_at = Some now, cst_last_success_at = Some now,
              cst_consecutive_failures = 0, cst_last_error = None, cst_next_retry_at = None\<rparr>
         | Inl error \<Rightarrow>
             (let retry = map_option (\<lambda>v. show_nat (unat v)) next_retry_at
              in case map_of (as_component_status st) component of
                   None \<Rightarrow>
                     \<lparr>cst_component = component, cst_last_attempt_at = Some now, cst_last_success_at = None,
                      cst_consecutive_failures = 1, cst_last_error = Some error, cst_next_retry_at = retry\<rparr>
                 | Some old \<Rightarrow>
                     old\<lparr>cst_last_attempt_at := Some now, cst_consecutive_failures := cst_consecutive_failures old + 1,
                         cst_last_error := Some error, cst_next_retry_at := retry\<rparr>))
      in st\<lparr>as_component_status := bt_insert component row (as_component_status st)\<rparr>)"

definition component_statuses :: "AgentStore \<Rightarrow> ComponentStatus list" where
  "component_statuses st = bt_values (as_component_status st)"

section \<open>Idempotency keys, local transactions and checkpoints\<close>

definition idempotent_get :: "string \<Rightarrow> AgentStore \<Rightarrow> string option" where
  "idempotent_get key st = map_of (as_idempotency_keys st) key"

definition idempotent_put :: "string \<Rightarrow> string \<Rightarrow> AgentStore \<Rightarrow> AgentStore" where
  "idempotent_put key response st =
     (case map_of (as_idempotency_keys st) key of
        None \<Rightarrow> st\<lparr>as_idempotency_keys := bt_insert key response (as_idempotency_keys st)\<rparr>
      | Some _ \<Rightarrow> st)"

definition commit_local_transaction :: "string \<Rightarrow> string \<Rightarrow> AgentStore \<Rightarrow> int \<times> AgentStore" where
  "commit_local_transaction key value st =
     (let previous_revision = (case map_of (as_local_state st) key of None \<Rightarrow> 0 | Some (_, r) \<Rightarrow> r);
          revision = previous_revision + 1
      in (revision, st\<lparr>as_local_state := bt_insert key (value, revision) (as_local_state st)\<rparr>))"

definition read_local_state :: "string \<Rightarrow> AgentStore \<Rightarrow> (string \<times> int) option" where
  "read_local_state key st = map_of (as_local_state st) key"

definition set_checkpoint :: "string \<Rightarrow> string \<Rightarrow> AgentStore \<Rightarrow> AgentStore" where
  "set_checkpoint key value st = st\<lparr>as_checkpoints := bt_insert key value (as_checkpoints st)\<rparr>"

definition get_checkpoint :: "string \<Rightarrow> AgentStore \<Rightarrow> string option" where
  "get_checkpoint key st = map_of (as_checkpoints st) key"

section \<open>Observations\<close>

definition upsert_observation :: "string \<Rightarrow> Observation \<Rightarrow> AgentStore \<Rightarrow> AgentStore" where
  "upsert_observation now ob st =
     (let first_seen = (case map_of (as_observations st) (ob_container_id ob) of None \<Rightarrow> now | Some old \<Rightarrow> or_first_seen_at old)
      in st\<lparr>as_observations := bt_insert (ob_container_id ob)
             \<lparr>or_observation = ob, or_first_seen_at = first_seen, or_last_seen_at = now\<rparr> (as_observations st)\<rparr>)"

fun retain_loop :: "string list \<Rightarrow> string list \<Rightarrow> nat \<Rightarrow> AgentStore \<Rightarrow> nat \<times> AgentStore" where
  "retain_loop current_ids [] removed st = (removed, st)"
| "retain_loop current_ids (i # ids) removed st =
     (if i \<notin> set current_ids then
        retain_loop current_ids ids (removed + 1) (st\<lparr>as_observations := bt_remove i (as_observations st)\<rparr>)
      else retain_loop current_ids ids removed st)"

definition retain_observations :: "string list \<Rightarrow> AgentStore \<Rightarrow> nat \<times> AgentStore" where
  "retain_observations current_ids st = retain_loop current_ids (bt_keys (as_observations st)) 0 st"

definition list_observations :: "AgentStore \<Rightarrow> Observation list" where
  "list_observations st = map or_observation (bt_values (as_observations st))"

definition observation_count :: "AgentStore \<Rightarrow> nat" where
  "observation_count st = length (as_observations st)"

section \<open>Peer cache, liveness and image retention\<close>

fun insert_peers :: "PeerCacheEntry list \<Rightarrow> PeerCache \<Rightarrow> (StoreError, PeerCache) result" where
  "insert_peers [] table = Inr table"
| "insert_peers (e # es) table =
     (case bind_u64 (pc_owner_epoch e) of
        Inl x \<Rightarrow> Inl x
      | Inr _ \<Rightarrow>
          (case bind_u64 (pc_revision e) of
             Inl x \<Rightarrow> Inl x
           | Inr _ \<Rightarrow>
               (if map_of table (pc_node_id e) \<noteq> None then Inl SDatabase
                else insert_peers es (bt_insert (pc_node_id e) e table))))"

definition replace_peer_cache :: "PeerCache \<Rightarrow> AgentStore \<Rightarrow> (StoreError, AgentStore) result" where
  "replace_peer_cache cache st =
     (case insert_peers (bt_values cache) [] of Inl x \<Rightarrow> Inl x | Inr table \<Rightarrow> Inr (st\<lparr>as_peer_cache := table\<rparr>))"

definition peer_cache :: "AgentStore \<Rightarrow> PeerCache" where
  "peer_cache st = foldl (\<lambda>m e. bt_insert (pc_node_id e) e m) [] (bt_values (as_peer_cache st))"

definition mark_node_seen :: "string \<Rightarrow> string \<Rightarrow> AgentStore \<Rightarrow> AgentStore" where
  "mark_node_seen now node_id st = st\<lparr>as_node_liveness := bt_insert node_id now (as_node_liveness st)\<rparr>"

text \<open>\<^verbatim>\<open>last_seen_at.parse().unwrap_or(0)\<close>\<close>

definition parse_u64_or_zero :: "string \<Rightarrow> u64" where
  "parse_u64_or_zero s = (case parse_uint (2 ^ 64 - 1) s of Inl _ \<Rightarrow> 0 | Inr n \<Rightarrow> of_nat n)"

definition node_liveness :: "AgentStore \<Rightarrow> (string, u64) btree_map" where
  "node_liveness st = foldl (\<lambda>m e. bt_insert (fst e) (parse_u64_or_zero (snd e)) m) [] (as_node_liveness st)"

definition apply_image_retention_spec :: "ImageRetentionSpec \<Rightarrow> AgentStore \<Rightarrow> ImageRetentionSpec \<times> AgentStore" where
  "apply_image_retention_spec spec st =
     (spec, st\<lparr>as_image_retention_specs := bt_insert (ir_service spec) spec (as_image_retention_specs st)\<rparr>)"

definition remove_image_retention_spec :: "string \<Rightarrow> AgentStore \<Rightarrow> bool \<times> AgentStore" where
  "remove_image_retention_spec service st =
     (map_of (as_image_retention_specs st) service \<noteq> None,
      st\<lparr>as_image_retention_specs := bt_remove service (as_image_retention_specs st)\<rparr>)"

definition image_retention_specs :: "AgentStore \<Rightarrow> ImageRetentionSpec list" where
  "image_retention_specs st = bt_values (as_image_retention_specs st)"

section \<open>Local tables behave as maps\<close>

lemma idempotent_put_first_wins:
  "idempotent_get k (idempotent_put key response st) =
     (if k = key \<and> idempotent_get key st = None then Some response else idempotent_get k st)"
  by (auto simp: idempotent_get_def idempotent_put_def split: option.splits)

lemma commit_local_transaction_reads:
  "commit_local_transaction key value st = (r, st') \<Longrightarrow>
   read_local_state k st' = (if k = key then Some (value, r) else read_local_state k st) \<and>
   r = (case read_local_state key st of None \<Rightarrow> 0 | Some (_, old) \<Rightarrow> old) + 1"
  by (auto simp: commit_local_transaction_def read_local_state_def Let_def)

lemma get_checkpoint_set [simp]:
  "get_checkpoint k (set_checkpoint key value st) = (if k = key then Some value else get_checkpoint k st)"
  by (simp add: get_checkpoint_def set_checkpoint_def)

lemma retain_loop_spec:
  assumes "distinct ids"
  shows "retain_loop cur ids n st =
    (n + length (filter (\<lambda>i. i \<notin> set cur) ids),
     st\<lparr>as_observations := filter (\<lambda>e. fst e \<in> set cur \<or> fst e \<notin> set ids) (as_observations st)\<rparr>)"
  using assms
proof (induction ids arbitrary: n st)
  case (Cons i ids)
  then show ?case by (auto simp: bt_remove_def intro!: filter_cong arg_cong [of _ _ "\<lambda>x. st\<lparr>as_observations := x\<rparr>"])
qed (simp add: filter_id_conv)

lemma retain_observations_spec:
  assumes "bt_wf (as_observations st)"
  shows "retain_observations cur st =
    (length (filter (\<lambda>i. i \<notin> set cur) (bt_keys (as_observations st))),
     st\<lparr>as_observations := filter (\<lambda>e. fst e \<in> set cur) (as_observations st)\<rparr>)"
proof -
  have "distinct (bt_keys (as_observations st))" using bt_wf_distinct [OF assms] by (simp add: bt_keys_def)
  then show ?thesis
    by (auto simp: retain_observations_def retain_loop_spec bt_keys_def intro!: filter_cong
        arg_cong [of _ _ "\<lambda>x. st\<lparr>as_observations := x\<rparr>"])
qed

lemma insert_peers_Inr:
  assumes "keyed pc_node_id cache" "\<forall>e \<in> set (bt_values cache). unat (pc_owner_epoch e) < 2 ^ 63 \<and> unat (pc_revision e) < 2 ^ 63"
  shows "insert_peers (bt_values cache) [] = Inr cache"
proof -
  have "insert_peers es t = Inr (foldl (\<lambda>m e. bt_insert (pc_node_id e) e m) t es)"
    if "\<forall>e \<in> set es. unat (pc_owner_epoch e) < 2 ^ 63 \<and> unat (pc_revision e) < 2 ^ 63"
      "distinct (map pc_node_id es)" "\<forall>e \<in> set es. map_of t (pc_node_id e) = None" for es t
    using that
  proof (induction es arbitrary: t)
    case (Cons a es)
    then have "\<forall>e \<in> set es. map_of (bt_insert (pc_node_id a) a t) (pc_node_id e) = None" by (auto simp: image_iff)
    from Cons.IH [OF _ _ this] Cons.prems show ?case by (simp add: bind_u64_def)
  qed simp
  moreover have "distinct (map pc_node_id (bt_values cache))"
    using bt_wf_distinct [of cache] keyed_fst [OF assms(1)] assms(1) by (simp add: keyed_def)
  ultimately have "insert_peers (bt_values cache) [] = Inr (foldl (\<lambda>m e. bt_insert (pc_node_id e) e m) [] (bt_values cache))"
    using assms(2) by simp
  then show ?thesis using keyed_rebuild [OF assms(1)] by simp
qed

end
