(* ===== verification/Store_Log.thy ===== *)
theory Store_Log
  imports Store "HOL-Library.Multiset"
begin

text \<open>
  The replicated part of the store: applying membership, catalog and desired-state records to the operation
  logs and their materialised tables, reading the winners back, and compacting the logs.
  The refinement shown here is that the materialised tables always hold exactly what replaying the log
  gives, so that reads, the unique index on active server names and compaction can rely on it.
\<close>

section \<open>Membership\<close>

definition membership_operations :: "AgentStore \<Rightarrow> MembershipRecord list" where
  "membership_operations st = map snd (as_membership_operations st)"

fun membership_state_text :: "MembershipState \<Rightarrow> string" where
  "membership_state_text MActive = ''active''"
| "membership_state_text MTombstoned = ''tombstoned''"

definition membership_row_of :: "string \<Rightarrow> MembershipRecord \<Rightarrow> membership_row" where
  "membership_row_of i r =
     \<lparr>mw_server_name = mr_server_name r, mw_owner_epoch = mr_owner_epoch r, mw_revision = mr_revision r,
      mw_state = membership_state_text (mr_state r), mw_operation_id = i, mw_record = r\<rparr>"

text \<open>The unique index \<^verbatim>\<open>membership_active_server_name\<close>.\<close>

definition active_server_name_free :: "string \<Rightarrow> membership_row \<Rightarrow> (string, membership_row) btree_map \<Rightarrow> bool" where
  "active_server_name_free node_id row table \<longleftrightarrow>
     mw_state row = ''active'' \<longrightarrow>
       (\<forall>(n, old) \<in> set table. n \<noteq> node_id \<and> mw_state old = ''active'' \<longrightarrow> mw_server_name old \<noteq> mw_server_name row)"

definition upsert_membership_record ::
  "string \<Rightarrow> MembershipRecord \<Rightarrow> (string, membership_row) btree_map \<Rightarrow>
   (StoreError, (string, membership_row) btree_map) result" where
  "upsert_membership_record i r table =
     (case bind_u64 (mr_owner_epoch r) of
        Inl e \<Rightarrow> Inl e
      | Inr _ \<Rightarrow>
          (case bind_u64 (mr_revision r) of
             Inl e \<Rightarrow> Inl e
           | Inr _ \<Rightarrow>
               (if active_server_name_free (mr_node_id r) (membership_row_of i r) table
                then Inr (bt_insert (mr_node_id r) (membership_row_of i r) table) else Inl SDatabase)))"

definition apply_membership ::
  "(MembershipRecord \<Rightarrow> string) \<Rightarrow> u64 \<Rightarrow> u64 \<Rightarrow> MembershipScope \<Rightarrow> MembershipRecord \<Rightarrow> AgentStore \<Rightarrow>
   (StoreError, Apply \<times> AgentStore) result" where
  "apply_membership hash pages page_size sc r st =
     (if hash r \<in> fst ` set (as_membership_operations st) then Inr (Duplicate, st)
      else case ensure_replication_capacity pages page_size st of
        Inl e \<Rightarrow> Inl e
      | Inr _ \<Rightarrow>
          (case membership_from_records hash sc (membership_operations st) of
             Inl e \<Rightarrow> Inl (SMembership e)
           | Inr v \<Rightarrow>
               (case membership_apply hash sc v r of
                  Inl e \<Rightarrow> Inl (SMembership e)
                | Inr (outcome, _) \<Rightarrow>
                    (let logged = st\<lparr>as_membership_operations := as_membership_operations st @ [(hash r, r)]\<rparr>
                     in if outcome = Applied then
                          (case upsert_membership_record (hash r) r (as_membership_records st) of
                             Inl e \<Rightarrow> Inl e
                           | Inr table \<Rightarrow> Inr (outcome, logged\<lparr>as_membership_records := table\<rparr>))
                        else Inr (outcome, logged)))))"

definition latest_membership :: "AgentStore \<Rightarrow> MembershipRecord list" where
  "latest_membership st = map mw_record (bt_values (as_membership_records st))"

definition active_membership :: "AgentStore \<Rightarrow> MembershipRecord list" where
  "active_membership st = filter (\<lambda>r. mr_state r = MActive) (latest_membership st)"

section \<open>Catalog\<close>

definition catalog_operations :: "AgentStore \<Rightarrow> CatalogRecord list" where
  "catalog_operations st = map snd (as_catalog_operations st)"

fun deployment_state_text :: "DeploymentState \<Rightarrow> string" where
  "deployment_state_text Candidate = ''candidate''"
| "deployment_state_text Active = ''active''"
| "deployment_state_text Draining = ''draining''"
| "deployment_state_text Stopped = ''stopped''"
| "deployment_state_text Tombstoned = ''tombstoned''"

definition catalog_row_of :: "string \<Rightarrow> CatalogRecord \<Rightarrow> catalog_row" where
  "catalog_row_of i r =
     \<lparr>cw_replica_id = cr_replica_id r, cw_owner_epoch = cr_owner_epoch r, cw_revision = cr_revision r,
      cw_state = deployment_state_text (cr_state r), cw_operation_id = i, cw_record = r\<rparr>"

definition upsert_catalog_record ::
  "string \<Rightarrow> CatalogRecord \<Rightarrow> (string, catalog_row) btree_map \<Rightarrow> (StoreError, (string, catalog_row) btree_map) result" where
  "upsert_catalog_record i r table =
     (case bind_u64 (cr_owner_epoch r) of
        Inl e \<Rightarrow> Inl e
      | Inr _ \<Rightarrow>
          (case bind_u64 (cr_revision r) of
             Inl e \<Rightarrow> Inl e
           | Inr _ \<Rightarrow> Inr (bt_insert (cr_deployment_id r) (catalog_row_of i r) table)))"

definition apply_catalog ::
  "(CatalogRecord \<Rightarrow> string) \<Rightarrow> u64 \<Rightarrow> u64 \<Rightarrow> string \<Rightarrow> u64 \<Rightarrow> MembershipView \<Rightarrow> CatalogRecord \<Rightarrow> RecordProvenance \<Rightarrow>
   AgentStore \<Rightarrow> (StoreError, Apply \<times> AgentStore) result" where
  "apply_catalog hash pages page_size project_id recovery_epoch membership r provenance st =
     (if hash r \<in> fst ` set (as_catalog_operations st) then Inr (Duplicate, st)
      else case ensure_replication_capacity pages page_size st of
        Inl e \<Rightarrow> Inl e
      | Inr _ \<Rightarrow>
          (case catalog_from_records hash project_id recovery_epoch membership
                  (map (\<lambda>x. (x, Verified)) (catalog_operations st)) of
             Inl e \<Rightarrow> Inl (SCatalog e)
           | Inr v \<Rightarrow>
               (case catalog_apply hash project_id recovery_epoch membership v r provenance of
                  Inl e \<Rightarrow> Inl (SCatalog e)
                | Inr (outcome, _) \<Rightarrow>
                    (let logged = st\<lparr>as_catalog_operations := as_catalog_operations st @ [(hash r, r)]\<rparr>
                     in if outcome = Applied then
                          (case upsert_catalog_record (hash r) r (as_catalog_records st) of
                             Inl e \<Rightarrow> Inl e
                           | Inr table \<Rightarrow> Inr (outcome, logged\<lparr>as_catalog_records := table\<rparr>))
                        else Inr (outcome, logged)))))"

definition latest_catalog :: "AgentStore \<Rightarrow> CatalogRecord list" where
  "latest_catalog st =
     map (cw_record \<circ> snd) (sort_key (\<lambda>(d, row). (cw_replica_id row, d)) (as_catalog_records st))"

section \<open>Desired state\<close>

definition desired_operations :: "AgentStore \<Rightarrow> DesiredStateRecord list" where
  "desired_operations st = map snd (as_desired_operations st)"

definition desired_row_of :: "string \<Rightarrow> DesiredStateRecord \<Rightarrow> desired_row" where
  "desired_row_of i r = \<lparr>dw_revision = dr_revision r, dw_operation_id = i, dw_record = r\<rparr>"

definition upsert_desired_record ::
  "string \<Rightarrow> DesiredStateRecord \<Rightarrow> (string, desired_row) btree_map \<Rightarrow> (StoreError, (string, desired_row) btree_map) result" where
  "upsert_desired_record i r table =
     (case bind_u64 (dr_revision r) of
        Inl e \<Rightarrow> Inl e
      | Inr _ \<Rightarrow> Inr (bt_insert (dr_service r) (desired_row_of i r) table))"

definition apply_desired ::
  "(DesiredStateRecord \<Rightarrow> string) \<Rightarrow> u64 \<Rightarrow> u64 \<Rightarrow> string \<Rightarrow> u64 \<Rightarrow> MembershipView \<Rightarrow> DesiredStateRecord \<Rightarrow>
   RecordProvenance \<Rightarrow> AgentStore \<Rightarrow> (StoreError, Apply \<times> AgentStore) result" where
  "apply_desired hash pages page_size project_id recovery_epoch membership r provenance st =
     (if hash r \<in> fst ` set (as_desired_operations st) then Inr (Duplicate, st)
      else case ensure_replication_capacity pages page_size st of
        Inl e \<Rightarrow> Inl e
      | Inr _ \<Rightarrow>
          (case desired_from_records hash project_id recovery_epoch membership
                  (map (\<lambda>x. (x, Verified)) (desired_operations st)) of
             Inl e \<Rightarrow> Inl (SDesired e)
           | Inr v \<Rightarrow>
               (case desired_apply hash project_id recovery_epoch membership v r provenance of
                  Inl e \<Rightarrow> Inl (SDesired e)
                | Inr (outcome, _) \<Rightarrow>
                    (let logged = st\<lparr>as_desired_operations := as_desired_operations st @ [(hash r, r)]\<rparr>
                     in if outcome = Applied then
                          (case upsert_desired_record (hash r) r (as_desired_records st) of
                             Inl e \<Rightarrow> Inl e
                           | Inr table \<Rightarrow> Inr (outcome, logged\<lparr>as_desired_records := table\<rparr>))
                        else Inr (outcome, logged)))))"

definition desired_snapshot_operations :: "AgentStore \<Rightarrow> DesiredStateRecord list" where
  "desired_snapshot_operations st = map dw_record (bt_values (as_desired_records st))"

definition desired_state :: "string \<Rightarrow> AgentStore \<Rightarrow> DesiredStateRecord option" where
  "desired_state service st = map_option dw_record (map_of (as_desired_records st) service)"

section \<open>Compaction\<close>

definition compact_log :: "string list \<Rightarrow> (string \<times> 'r) list \<Rightarrow> (string \<times> 'r) list" where
  "compact_log winners log = filter (\<lambda>(i, _). i \<in> set winners) log"

definition compact_operations :: "AgentStore \<Rightarrow> CompactionResult \<times> AgentStore" where
  "compact_operations st =
     (let m = compact_log (map mw_operation_id (bt_values (as_membership_records st))) (as_membership_operations st);
          c = compact_log (map cw_operation_id (bt_values (as_catalog_records st))) (as_catalog_operations st);
          d = compact_log (map dw_operation_id (bt_values (as_desired_records st))) (as_desired_operations st)
      in (\<lparr>comp_membership_removed = length (as_membership_operations st) - length m,
           comp_catalog_removed = length (as_catalog_operations st) - length c,
           comp_desired_removed = length (as_desired_operations st) - length d\<rparr>,
          st\<lparr>as_membership_operations := m, as_catalog_operations := c, as_desired_operations := d\<rparr>))"

section \<open>The stored views are materialised logs\<close>

abbreviation mrow :: "(MembershipRecord \<Rightarrow> string) \<Rightarrow> MembershipRecord \<Rightarrow> membership_row" where
  "mrow hash \<equiv> \<lambda>r. membership_row_of (hash r) r"

abbreviation crow :: "(CatalogRecord \<Rightarrow> string) \<Rightarrow> CatalogRecord \<Rightarrow> catalog_row" where
  "crow hash \<equiv> \<lambda>r. catalog_row_of (hash r) r"

abbreviation drow :: "(DesiredStateRecord \<Rightarrow> string) \<Rightarrow> DesiredStateRecord \<Rightarrow> desired_row" where
  "drow hash \<equiv> \<lambda>r. desired_row_of (hash r) r"

interpretation mlog: materialised_log "membership_apply hash sc" membership_empty mv_records mv_record_ids mr_node_id hash
    "mord hash" "mrow hash" mw_operation_id for hash sc
  by unfold_locales (simp add: membership_row_of_def)

interpretation clog: materialised_log "catalog_step hash pid ep mem" catalog_empty cv_records cv_record_ids cr_deployment_id
    hash "cord hash" "crow hash" cw_operation_id for hash pid ep mem
  by unfold_locales (simp add: catalog_row_of_def)

interpretation dlog: materialised_log "desired_step hash pid ep mem" desired_empty dv_records dv_record_ids dr_service
    hash "dord hash" "drow hash" dw_operation_id for hash pid ep mem
  by unfold_locales (simp add: desired_row_of_def)

definition membership_store_inv :: "(MembershipRecord \<Rightarrow> string) \<Rightarrow> MembershipScope \<Rightarrow> AgentStore \<Rightarrow> bool" where
  "membership_store_inv hash sc st \<longleftrightarrow>
     log_ok (membership_apply hash sc) membership_empty mv_records hash (mrow hash)
       (as_membership_operations st) (as_membership_records st)"

definition catalog_store_inv :: "(CatalogRecord \<Rightarrow> string) \<Rightarrow> string \<Rightarrow> u64 \<Rightarrow> MembershipView \<Rightarrow> AgentStore \<Rightarrow> bool" where
  "catalog_store_inv hash pid ep mem st \<longleftrightarrow>
     log_ok (catalog_step hash pid ep mem) catalog_empty cv_records hash (crow hash)
       (as_catalog_operations st) (as_catalog_records st)"

definition desired_store_inv :: "(DesiredStateRecord \<Rightarrow> string) \<Rightarrow> string \<Rightarrow> u64 \<Rightarrow> MembershipView \<Rightarrow> AgentStore \<Rightarrow> bool" where
  "desired_store_inv hash pid ep mem st \<longleftrightarrow>
     log_ok (desired_step hash pid ep mem) desired_empty dv_records hash (drow hash)
       (as_desired_operations st) (as_desired_records st)"

lemma membership_store_view:
  assumes "membership_store_inv hash sc st"
  obtains v where "membership_from_records hash sc (membership_operations st) = Inr v"
    "as_membership_records st = bt_map (mrow hash) (mv_records v)" "latest_membership st = membership_all v"
    "membership_inv sc v"
proof -
  obtain v where v: "replay (membership_apply hash sc) membership_empty (map snd (as_membership_operations st)) = Inr v"
    "as_membership_records st = bt_map (mrow hash) (mv_records v)"
    using assms unfolding membership_store_inv_def log_ok_def by blast
  then show thesis
    using that [of v] membership_inv_from_records [OF v(1)]
    by (simp add: membership_from_records_def membership_operations_def latest_membership_def membership_all_def
        membership_row_of_def comp_def)
qed

text \<open>Replaying verified catalog and desired records is replaying their steps.\<close>

lemma replay_map_pair: "replay (\<lambda>v (r, p). f v r p) v (map (\<lambda>x. (x, q)) L) = replay (\<lambda>v r. f v r q) v L"
  by (induction L arbitrary: v) (auto split: sum.splits)

lemma catalog_from_verified:
  "catalog_from_records hash pid ep mem (map (\<lambda>x. (x, Verified)) L) = replay (catalog_step hash pid ep mem) catalog_empty L"
  unfolding catalog_from_records_def replay_map_pair by (simp add: catalog_step_def [abs_def])

lemma desired_from_verified:
  "desired_from_records hash pid ep mem (map (\<lambda>x. (x, Verified)) L) = replay (desired_step hash pid ep mem) desired_empty L"
  unfolding desired_from_records_def replay_map_pair by (simp add: desired_step_def [abs_def])

text \<open>The unique index never refuses what the view accepts.\<close>

lemma membership_index_free:
  assumes "membership_inv sc v" "membership_apply hash sc v r = Inr (Applied, v')"
  shows "active_server_name_free (mr_node_id r) (membership_row_of i r) (bt_map (mrow hash) (mv_records v))"
proof -
  have coll: "mr_server_name old \<noteq> mr_server_name r"
    if "mr_state r = MActive" "old \<in> set (bt_values (mv_records v))" "mr_state old = MActive" "mr_node_id old \<noteq> mr_node_id r" for old
    using assms(2) that unfolding membership_apply_Inr reject_claim_collisions_Inr no_claim_collision_def by blast
  have k: "keyed mr_node_id (mv_records v)" using assms(1) by (simp add: membership_inv_def)
  have active_text: "membership_state_text s = ''active'' \<longleftrightarrow> s = MActive" for s by (cases s) auto
  have "mr_server_name old \<noteq> mr_server_name r"
    if "mr_state r = MActive" "(n, old) \<in> set (mv_records v)" "mr_state old = MActive" "n \<noteq> mr_node_id r" for n old
  proof -
    have "mr_node_id old = n" using k that(2) by (auto simp: keyed_def bt_get_mem)
    moreover have "old \<in> set (bt_values (mv_records v))" using that(2) by (force simp: bt_values_def)
    ultimately show ?thesis using coll that by blast
  qed
  then show ?thesis by (auto simp: active_server_name_free_def bt_map_def membership_row_of_def active_text)
qed

lemma bind_u64_Inl: "bind_u64 x = Inl e \<longleftrightarrow> e = SDatabase \<and> 2 ^ 63 \<le> unat x"
  by (auto simp: bind_u64_def)

lemma bind_u64_Inr: "bind_u64 x = Inr y \<longleftrightarrow> y = x \<and> unat x < 2 ^ 63"
  by (auto simp: bind_u64_def)

lemma upsert_membership_record_cases:
  assumes "active_server_name_free (mr_node_id r) (membership_row_of i r) table"
  shows "upsert_membership_record i r table =
    (if unat (mr_owner_epoch r) < 2 ^ 63 \<and> unat (mr_revision r) < 2 ^ 63
     then Inr (bt_insert (mr_node_id r) (membership_row_of i r) table) else Inl SDatabase)"
  using assms by (auto simp: upsert_membership_record_def bind_u64_def)

text \<open>What the store does with a record whose id it has not logged, in terms of the view.\<close>

lemma apply_membership_new:
  assumes inv: "membership_store_inv hash sc st" and new: "hash r \<notin> fst ` set (as_membership_operations st)"
    and cap: "ensure_replication_capacity pages page_size st = Inr ()"
    and v: "membership_from_records hash sc (membership_operations st) = Inr v"
  shows "apply_membership hash pages page_size sc r st =
    (case membership_apply hash sc v r of
       Inl e \<Rightarrow> Inl (SMembership e)
     | Inr (out, _) \<Rightarrow>
         if out = Applied \<and> \<not> (unat (mr_owner_epoch r) < 2 ^ 63 \<and> unat (mr_revision r) < 2 ^ 63) then Inl SDatabase
         else Inr (out, st\<lparr>as_membership_operations := as_membership_operations st @ [(hash r, r)],
                as_membership_records := (if out = Applied then bt_insert (mr_node_id r) (mrow hash r) (as_membership_records st)
                                          else as_membership_records st)\<rparr>))"
proof (cases "membership_apply hash sc v r")
  case (Inl e)
  with new cap v show ?thesis by (simp add: apply_membership_def)
next
  case (Inr ov)
  obtain out v' where ov: "ov = (out, v')" by (cases ov)
  obtain u where u: "membership_from_records hash sc (membership_operations st) = Inr u"
    "as_membership_records st = bt_map (mrow hash) (mv_records u)" "membership_inv sc u"
    using membership_store_view [OF inv] by blast
  then have "u = v" using v by simp
  then have "active_server_name_free (mr_node_id r) (membership_row_of (hash r) r) (as_membership_records st)"
    if "out = Applied"
    using membership_index_free [OF u(3), of hash r v' "hash r"] u(2) Inr ov that by simp
  then show ?thesis
    using new cap v Inr ov by (auto simp: apply_membership_def upsert_membership_record_cases Let_def)
qed

lemma membership_store_inv_apply:
  assumes inv: "membership_store_inv hash sc st" and ap: "apply_membership hash pages page_size sc r st = Inr (out, st')"
  shows "membership_store_inv hash sc st' \<and>
    (out = Duplicate \<and> st' = st \<or>
     (\<exists>v v'. membership_from_records hash sc (membership_operations st) = Inr v \<and> membership_apply hash sc v r = Inr (out, v') \<and>
       membership_from_records hash sc (membership_operations st') = Inr v'))"
proof (cases "hash r \<in> fst ` set (as_membership_operations st)")
  case True
  with ap inv show ?thesis by (simp add: apply_membership_def)
next
  case False
  have cap: "ensure_replication_capacity pages page_size st = Inr ()"
    using ap False by (auto simp: apply_membership_def split: sum.splits)
  obtain v where v: "membership_from_records hash sc (membership_operations st) = Inr v"
    using membership_store_view [OF inv] by blast
  note new = apply_membership_new [OF inv False cap v]
  obtain v' where v': "membership_apply hash sc v r = Inr (out, v')"
    using ap new by (auto split: sum.splits if_splits)
  have st': "st' = st\<lparr>as_membership_operations := as_membership_operations st @ [(hash r, r)],
      as_membership_records := (if out = Applied then bt_insert (mr_node_id r) (mrow hash r) (as_membership_records st)
                                else as_membership_records st)\<rparr>"
    using ap unfolding new v' by (simp split: if_splits)
  have run: "replay (membership_apply hash sc) membership_empty (map snd (as_membership_operations st)) = Inr v"
    using v by (simp add: membership_from_records_def membership_operations_def)
  note app = mlog.log_ok_append [OF inv [unfolded membership_store_inv_def] run v' False]
  then show ?thesis
    using v v' by (auto simp: st' membership_store_inv_def membership_from_records_def membership_operations_def)
qed

text \<open>The catalog log replays the same under every membership.\<close>

lemma catalog_step_membership: "catalog_step hash pid ep mem = catalog_step hash pid ep mem'"
  by (intro ext) (simp add: catalog_step_def catalog_apply_def catalog_verify_membership [of _ pid ep mem mem'])

lemma catalog_store_inv_membership: "catalog_store_inv hash pid ep mem st = catalog_store_inv hash pid ep mem' st"
  by (simp add: catalog_store_inv_def catalog_step_membership [of hash pid ep mem mem'])

lemma latest_catalog_mset:
  "as_catalog_records st = bt_map (crow hash) m \<Longrightarrow> mset (latest_catalog st) = mset (bt_values m)"
  by (simp add: latest_catalog_def mset_map comp_def bt_map_def bt_values_def multiset.map_comp split_def catalog_row_of_def)

lemma catalog_stored:
  "catalog_from_records hash pid ep mem (map (\<lambda>x. (x, Verified)) (catalog_operations st)) =
   replay (catalog_step hash pid ep mem) catalog_empty (map snd (as_catalog_operations st))"
  unfolding catalog_from_verified catalog_operations_def ..

abbreviation verified :: "'r list \<Rightarrow> ('r \<times> RecordProvenance) list" where
  "verified rs \<equiv> map (\<lambda>x. (x, Verified)) rs"

lemma catalog_store_view:
  assumes "catalog_store_inv hash pid ep mem0 st"
  obtains v where "catalog_from_records hash pid ep mem (verified (catalog_operations st)) = Inr v"
    "mset (latest_catalog st) = mset (catalog_all v)"
proof -
  have "catalog_store_inv hash pid ep mem st" using assms catalog_store_inv_membership by blast
  then obtain v where v: "replay (catalog_step hash pid ep mem) catalog_empty (map snd (as_catalog_operations st)) = Inr v"
    "as_catalog_records st = bt_map (crow hash) (cv_records v)"
    unfolding catalog_store_inv_def log_ok_def by blast
  show thesis
    by (rule that [of v], unfold catalog_stored) (use v latest_catalog_mset [OF v(2)] in \<open>simp_all add: catalog_all_def\<close>)
qed

lemma apply_membership_outcome:
  assumes inv: "membership_store_inv hash sc st" and new: "hash r \<notin> fst ` set (as_membership_operations st)"
    and cap: "ensure_replication_capacity pages page_size st = Inr ()"
    and v: "membership_from_records hash sc (membership_operations st) = Inr v"
  shows "case membership_apply hash sc v r of
      Inl e \<Rightarrow> apply_membership hash pages page_size sc r st = Inl (SMembership e)
    | Inr (out, v') \<Rightarrow>
        (if out = Applied \<and> (2 ^ 63 \<le> unat (mr_owner_epoch r) \<or> 2 ^ 63 \<le> unat (mr_revision r))
         then apply_membership hash pages page_size sc r st = Inl SDatabase
         else \<exists>st'. apply_membership hash pages page_size sc r st = Inr (out, st') \<and> membership_store_inv hash sc st' \<and>
            membership_operations st' = membership_operations st @ [r] \<and>
            membership_from_records hash sc (membership_operations st') = Inr v' \<and> latest_membership st' = membership_all v')"
proof (cases "membership_apply hash sc v r")
  case (Inl e)
  then show ?thesis by (simp add: apply_membership_new [OF inv new cap v])
next
  case (Inr ov)
  obtain out v' where ov: "membership_apply hash sc v r = Inr (out, v')" using Inr by (cases ov) auto
  show ?thesis
  proof (cases "out = Applied \<and> (2 ^ 63 \<le> unat (mr_owner_epoch r) \<or> 2 ^ 63 \<le> unat (mr_revision r))")
    case True
    then show ?thesis by (auto simp: apply_membership_new [OF inv new cap v] ov)
  next
    case False
    then obtain st' where ap: "apply_membership hash pages page_size sc r st = Inr (out, st')"
      and ops: "membership_operations st' = membership_operations st @ [r]"
      by (auto simp: apply_membership_new [OF inv new cap v] ov not_le membership_operations_def)
    have "membership_store_inv hash sc st'" using membership_store_inv_apply [OF inv ap] by blast
    moreover have "membership_from_records hash sc (membership_operations st') = Inr v'"
      using v ov unfolding ops membership_from_records_def by (simp add: replay_append)
    moreover have "latest_membership st' = membership_all v'"
      using membership_store_view [OF calculation(1)] calculation(2) by auto
    ultimately show ?thesis using False ap ov ops by simp
  qed
qed

lemma apply_catalog_new:
  assumes new: "hash r \<notin> fst ` set (as_catalog_operations st)"
    and cap: "ensure_replication_capacity pages page_size st = Inr ()"
    and v: "catalog_from_records hash pid ep mem (verified (catalog_operations st)) = Inr v"
  shows "apply_catalog hash pages page_size pid ep mem r p st =
    (case catalog_apply hash pid ep mem v r p of
       Inl e \<Rightarrow> Inl (SCatalog e)
     | Inr (out, _) \<Rightarrow>
         if out = Applied \<and> \<not> (unat (cr_owner_epoch r) < 2 ^ 63 \<and> unat (cr_revision r) < 2 ^ 63) then Inl SDatabase
         else Inr (out, st\<lparr>as_catalog_operations := as_catalog_operations st @ [(hash r, r)],
                as_catalog_records := (if out = Applied then bt_insert (cr_deployment_id r) (crow hash r) (as_catalog_records st)
                                       else as_catalog_records st)\<rparr>))"
proof (cases "catalog_apply hash pid ep mem v r p")
  case (Inl e)
  with assms show ?thesis by (simp add: apply_catalog_def)
next
  case (Inr ov)
  with assms show ?thesis
    by (cases ov) (auto simp: apply_catalog_def upsert_catalog_record_def bind_u64_def Let_def)
qed

lemma catalog_store_inv_apply:
  assumes inv: "catalog_store_inv hash pid ep mem st" and ap: "apply_catalog hash pages page_size pid ep mem r p st = Inr (out, st')"
  shows "catalog_store_inv hash pid ep mem st' \<and>
    (out = Duplicate \<and> st' = st \<or>
     (\<exists>v v'. catalog_from_records hash pid ep mem (verified (catalog_operations st)) = Inr v \<and>
       catalog_apply hash pid ep mem v r p = Inr (out, v') \<and>
       catalog_from_records hash pid ep mem (verified (catalog_operations st')) = Inr v'))"
proof (cases "hash r \<in> fst ` set (as_catalog_operations st)")
  case True
  with ap inv show ?thesis by (simp add: apply_catalog_def)
next
  case False
  have cap: "ensure_replication_capacity pages page_size st = Inr ()"
    using ap False by (auto simp: apply_catalog_def split: sum.splits)
  obtain v where v: "catalog_from_records hash pid ep mem (verified (catalog_operations st)) = Inr v"
    using catalog_store_view [OF inv] by blast
  note new = apply_catalog_new [OF False cap v]
  obtain v' where v': "catalog_apply hash pid ep mem v r p = Inr (out, v')"
    using ap new by (auto split: sum.splits if_splits)
  have st': "st' = st\<lparr>as_catalog_operations := as_catalog_operations st @ [(hash r, r)],
      as_catalog_records := (if out = Applied then bt_insert (cr_deployment_id r) (crow hash r) (as_catalog_records st)
                             else as_catalog_records st)\<rparr>"
    using ap unfolding new v' by (simp split: if_splits)
  have run: "replay (catalog_step hash pid ep mem) catalog_empty (map snd (as_catalog_operations st)) = Inr v"
    using v unfolding catalog_stored .
  have step: "catalog_step hash pid ep mem v r = Inr (out, v')"
    unfolding catalog_step_def by (rule catalog_apply_verified [OF v'])
  note app = clog.log_ok_append [OF inv [unfolded catalog_store_inv_def] run step False]
  then show ?thesis
    using v' run unfolding catalog_stored by (auto simp: st' catalog_store_inv_def)
qed

lemma apply_catalog_outcome:
  assumes inv: "catalog_store_inv hash pid ep mem st" and new: "hash r \<notin> fst ` set (as_catalog_operations st)"
    and cap: "ensure_replication_capacity pages page_size st = Inr ()"
    and v: "catalog_from_records hash pid ep mem (verified (catalog_operations st)) = Inr v"
  shows "case catalog_apply hash pid ep mem v r p of
      Inl e \<Rightarrow> apply_catalog hash pages page_size pid ep mem r p st = Inl (SCatalog e)
    | Inr (out, v') \<Rightarrow>
        (if out = Applied \<and> (2 ^ 63 \<le> unat (cr_owner_epoch r) \<or> 2 ^ 63 \<le> unat (cr_revision r))
         then apply_catalog hash pages page_size pid ep mem r p st = Inl SDatabase
         else \<exists>st'. apply_catalog hash pages page_size pid ep mem r p st = Inr (out, st') \<and> catalog_store_inv hash pid ep mem st' \<and>
            catalog_operations st' = catalog_operations st @ [r] \<and>
            catalog_from_records hash pid ep mem (verified (catalog_operations st')) = Inr v' \<and>
            mset (latest_catalog st') = mset (catalog_all v'))"
proof (cases "catalog_apply hash pid ep mem v r p")
  case (Inl e)
  then show ?thesis by (simp add: apply_catalog_new [OF new cap v])
next
  case (Inr ov)
  obtain out v' where ov: "catalog_apply hash pid ep mem v r p = Inr (out, v')" using Inr by (cases ov) auto
  show ?thesis
  proof (cases "out = Applied \<and> (2 ^ 63 \<le> unat (cr_owner_epoch r) \<or> 2 ^ 63 \<le> unat (cr_revision r))")
    case True
    then show ?thesis by (auto simp: apply_catalog_new [OF new cap v] ov)
  next
    case False
    then obtain st' where ap: "apply_catalog hash pages page_size pid ep mem r p st = Inr (out, st')"
      and ops: "catalog_operations st' = catalog_operations st @ [r]" "map snd (as_catalog_operations st') = map snd (as_catalog_operations st) @ [r]"
      by (auto simp: apply_catalog_new [OF new cap v] ov not_le catalog_operations_def)
    have inv': "catalog_store_inv hash pid ep mem st'" using catalog_store_inv_apply [OF inv ap] by blast
    moreover have view: "catalog_from_records hash pid ep mem (verified (catalog_operations st')) = Inr v'"
      using v catalog_apply_verified [OF ov] unfolding catalog_stored ops(2) by (simp add: replay_append catalog_step_def)
    moreover have "mset (latest_catalog st') = mset (catalog_all v')"
    proof -
      obtain w where w: "catalog_from_records hash pid ep mem (verified (catalog_operations st')) = Inr w"
        "mset (latest_catalog st') = mset (catalog_all w)" using catalog_store_view [OF inv', of mem] by blast
      from w(1) view have "w = v'" by simp
      with w(2) show ?thesis by simp
    qed
    ultimately show ?thesis using False ap ov ops(1) by simp
  qed
qed

lemma catalog_store_ids: "\<lbrakk>catalog_store_inv hash pid ep mem st; (i, r) \<in> set (as_catalog_operations st)\<rbrakk> \<Longrightarrow> i = hash r"
  by (auto simp: catalog_store_inv_def log_ok_def)

lemma desired_stored:
  "desired_from_records hash pid ep mem (map (\<lambda>x. (x, Verified)) (desired_operations st)) =
   replay (desired_step hash pid ep mem) desired_empty (map snd (as_desired_operations st))"
  unfolding desired_from_verified desired_operations_def ..

lemma desired_store_view:
  assumes "desired_store_inv hash pid ep mem st"
  obtains v where "desired_from_records hash pid ep mem (verified (desired_operations st)) = Inr v"
    "\<forall>s. desired_state s st = desired_get v s"
proof -
  obtain v where v: "replay (desired_step hash pid ep mem) desired_empty (map snd (as_desired_operations st)) = Inr v"
    "as_desired_records st = bt_map (drow hash) (dv_records v)"
    using assms unfolding desired_store_inv_def log_ok_def by blast
  show thesis
    by (rule that [of v], unfold desired_stored)
      (use v in \<open>simp_all add: desired_state_def desired_get_def desired_row_of_def option.map_comp comp_def option.map_ident\<close>)
qed

lemma apply_desired_new:
  assumes new: "hash r \<notin> fst ` set (as_desired_operations st)"
    and cap: "ensure_replication_capacity pages page_size st = Inr ()"
    and v: "desired_from_records hash pid ep mem (verified (desired_operations st)) = Inr v"
  shows "apply_desired hash pages page_size pid ep mem r p st =
    (case desired_apply hash pid ep mem v r p of
       Inl e \<Rightarrow> Inl (SDesired e)
     | Inr (out, _) \<Rightarrow>
         if out = Applied \<and> \<not> unat (dr_revision r) < 2 ^ 63 then Inl SDatabase
         else Inr (out, st\<lparr>as_desired_operations := as_desired_operations st @ [(hash r, r)],
                as_desired_records := (if out = Applied then bt_insert (dr_service r) (drow hash r) (as_desired_records st)
                                       else as_desired_records st)\<rparr>))"
proof (cases "desired_apply hash pid ep mem v r p")
  case (Inl e)
  with assms show ?thesis by (simp add: apply_desired_def)
next
  case (Inr ov)
  with assms show ?thesis
    by (cases ov) (auto simp: apply_desired_def upsert_desired_record_def bind_u64_def Let_def)
qed

lemma desired_store_inv_apply:
  assumes inv: "desired_store_inv hash pid ep mem st" and ap: "apply_desired hash pages page_size pid ep mem r p st = Inr (out, st')"
  shows "desired_store_inv hash pid ep mem st'"
proof (cases "hash r \<in> fst ` set (as_desired_operations st)")
  case True
  with ap inv show ?thesis by (simp add: apply_desired_def)
next
  case False
  have cap: "ensure_replication_capacity pages page_size st = Inr ()"
    using ap False by (auto simp: apply_desired_def split: sum.splits)
  obtain v where v: "desired_from_records hash pid ep mem (verified (desired_operations st)) = Inr v"
    using desired_store_view [OF inv] by blast
  note new = apply_desired_new [OF False cap v]
  obtain v' where v': "desired_apply hash pid ep mem v r p = Inr (out, v')"
    using ap new by (auto split: sum.splits if_splits)
  have fits: "\<not> (out = Applied \<and> \<not> unat (dr_revision r) < 2 ^ 63)"
  proof
    assume over: "out = Applied \<and> \<not> unat (dr_revision r) < 2 ^ 63"
    from ap show False unfolding new v' sum.case prod.case if_P [OF over] by simp
  qed
  have st': "st' = st\<lparr>as_desired_operations := as_desired_operations st @ [(hash r, r)],
      as_desired_records := (if out = Applied then bt_insert (dr_service r) (drow hash r) (as_desired_records st)
                             else as_desired_records st)\<rparr>"
    using ap unfolding new v' sum.case prod.case if_not_P [OF fits] by simp
  have run: "replay (desired_step hash pid ep mem) desired_empty (map snd (as_desired_operations st)) = Inr v"
    using v unfolding desired_stored .
  have step: "desired_step hash pid ep mem v r = Inr (out, v')"
    unfolding desired_step_def by (rule desired_apply_verified [OF v'])
  from dlog.log_ok_append(1) [OF inv [unfolded desired_store_inv_def] run step False] show ?thesis
    by (simp add: st' desired_store_inv_def)
qed

section \<open>Sample stores\<close>

definition demo_store :: AgentStore where
  "demo_store = store_empty\<lparr>
     as_membership_operations := [(''a1'', node_a), (''b1'', node_b), (''a2'', node_a_gone)],
     as_membership_records := [(''a'', membership_row_of ''a2'' node_a_gone), (''b'', membership_row_of ''b1'' node_b)]\<rparr>"

lemma store_empty_inv:
  "membership_store_inv mh sc store_empty" "catalog_store_inv ch pid ep mem store_empty" "desired_store_inv dh pid ep mem store_empty"
  by (simp_all add: membership_store_inv_def catalog_store_inv_def desired_store_inv_def store_empty_def
      mlog.log_ok_empty clog.log_ok_empty dlog.log_ok_empty)

lemma demo_store_inv:
  "membership_store_inv demo_hash demo_scope demo_store" "catalog_store_inv ch pid ep mem demo_store"
  "desired_store_inv dh pid ep mem demo_store"
proof -
  have ids: "''a1'' = demo_hash node_a" "''b1'' = demo_hash node_b" "''a2'' = demo_hash node_a_gone"
    by (simp_all add: demo_hash_def demo_member_def)
  show "membership_store_inv demo_hash demo_scope demo_store"
    unfolding membership_store_inv_def log_ok_def demo_store_def
    by (simp add: demo_steps bt_map_def ids [symmetric])
  show "catalog_store_inv ch pid ep mem demo_store" "desired_store_inv dh pid ep mem demo_store"
    using store_empty_inv by (simp_all add: catalog_store_inv_def desired_store_inv_def demo_store_def)
qed

section \<open>Properties\<close>

text \<open>C2. The store refines the membership view. From a store whose table matches its log, a record whose id is
  logged is a duplicate and changes nothing, whatever the quota. Any other record has exactly the outcome of the view: without
  quota the request fails; with the view's own error the store fails with that error; and otherwise the store answers with
  the view's outcome, appends the record to the log, and is left with a log that replays to the resulting view and a table
  that lists exactly its winners. The one further error is a winning record with an epoch or revision beyond the 63 bits SQLite
  can hold; the unique index on active server names is never violated.\<close>

theorem apply_membership_refines:
  assumes "membership_store_inv hash sc st"
  shows "\<exists>v. membership_from_records hash sc (membership_operations st) = Inr v \<and> latest_membership st = membership_all v \<and>
    (if hash r \<in> set (map fst (as_membership_operations st)) then apply_membership hash pages page_size sc r st = Inr (Duplicate, st)
     else case ensure_replication_capacity pages page_size st of
       Inl e \<Rightarrow> apply_membership hash pages page_size sc r st = Inl e
     | Inr _ \<Rightarrow>
         (case membership_apply hash sc v r of
            Inl e \<Rightarrow> apply_membership hash pages page_size sc r st = Inl (SMembership e)
          | Inr (out, v') \<Rightarrow>
              (if out = Applied \<and> (2 ^ 63 \<le> unat (mr_owner_epoch r) \<or> 2 ^ 63 \<le> unat (mr_revision r))
               then apply_membership hash pages page_size sc r st = Inl SDatabase
               else \<exists>st'. apply_membership hash pages page_size sc r st = Inr (out, st') \<and> membership_store_inv hash sc st' \<and>
                  membership_operations st' = membership_operations st @ [r] \<and>
                  membership_from_records hash sc (membership_operations st') = Inr v' \<and> latest_membership st' = membership_all v')))"
proof -
  obtain v where v: "membership_from_records hash sc (membership_operations st) = Inr v" "latest_membership st = membership_all v"
    using membership_store_view [OF assms] by blast
  show ?thesis
  proof (cases "hash r \<in> fst ` set (as_membership_operations st)")
    case True
    with v show ?thesis by (simp add: apply_membership_def)
  next
    case new: False
    show ?thesis
    proof (cases "ensure_replication_capacity pages page_size st")
      case (Inl e)
      with new v show ?thesis by (simp add: apply_membership_def)
    next
      case (Inr u)
      then have cap: "ensure_replication_capacity pages page_size st = Inr ()" by simp
      from apply_membership_outcome [OF assms new cap v(1)] new cap v show ?thesis
        by (auto split: sum.splits prod.splits)
    qed
  qed
qed

theorem apply_membership_refines_witness:
  "apply_membership demo_hash 0 0 demo_scope node_a demo_store = Inr (Duplicate, demo_store) \<and>
   (\<exists>st'. apply_membership demo_hash 0 0 demo_scope node_a store_empty = Inr (Applied, st') \<and> latest_membership st' = [node_a])"
proof
  have "demo_hash node_a \<in> set (map fst (as_membership_operations demo_store))"
    by (simp add: demo_store_def demo_hash_def demo_member_def)
  then show "apply_membership demo_hash 0 0 demo_scope node_a demo_store = Inr (Duplicate, demo_store)"
    using apply_membership_refines [OF demo_store_inv(1), of node_a 0 0] by (simp only: if_True) blast
  have "membership_from_records demo_hash demo_scope (membership_operations store_empty) = Inr membership_empty"
    by (simp add: membership_from_records_def membership_operations_def store_empty_def)
  moreover have "ensure_replication_capacity 0 0 store_empty = Inr ()"
    by (simp add: ensure_replication_capacity_def store_empty_def)
  moreover have "demo_hash node_a \<notin> set (map fst (as_membership_operations store_empty))" by (simp add: store_empty_def)
  moreover have "\<not> (2 ^ 63 \<le> unat (mr_owner_epoch node_a) \<or> 2 ^ 63 \<le> unat (mr_revision node_a))" by (simp add: demo_member_def)
  ultimately show "\<exists>st'. apply_membership demo_hash 0 0 demo_scope node_a store_empty = Inr (Applied, st') \<and> latest_membership st' = [node_a]"
    using apply_membership_refines [OF store_empty_inv(1) [of demo_hash demo_scope], of node_a 0 0]
    unfolding sum.inject by (elim exE conjE) (simp add: demo_steps(1) membership_all_def bt_values_def, blast)
qed

text \<open>C27. The store refines the catalog view in the same way, whatever the membership was before: a logged record
  changes nothing, any other has the outcome of the view under the present membership, the log replays to the
  resulting view, and the table lists exactly its winners. Nothing that happens to the membership can make the stored catalog unreadable.\<close>

theorem apply_catalog_refines:
  assumes "catalog_store_inv hash pid ep mem0 st"
  shows "\<exists>v. catalog_from_records hash pid ep mem (verified (catalog_operations st)) = Inr v \<and>
    mset (latest_catalog st) = mset (catalog_all v) \<and>
    (if hash r \<in> set (map fst (as_catalog_operations st)) then apply_catalog hash pages page_size pid ep mem r p st = Inr (Duplicate, st)
     else case ensure_replication_capacity pages page_size st of
       Inl e \<Rightarrow> apply_catalog hash pages page_size pid ep mem r p st = Inl e
     | Inr _ \<Rightarrow>
         (case catalog_apply hash pid ep mem v r p of
            Inl e \<Rightarrow> apply_catalog hash pages page_size pid ep mem r p st = Inl (SCatalog e)
          | Inr (out, v') \<Rightarrow>
              (if out = Applied \<and> (2 ^ 63 \<le> unat (cr_owner_epoch r) \<or> 2 ^ 63 \<le> unat (cr_revision r))
               then apply_catalog hash pages page_size pid ep mem r p st = Inl SDatabase
               else \<exists>st'. apply_catalog hash pages page_size pid ep mem r p st = Inr (out, st') \<and>
                  catalog_store_inv hash pid ep mem0 st' \<and> catalog_operations st' = catalog_operations st @ [r] \<and>
                  catalog_from_records hash pid ep mem (verified (catalog_operations st')) = Inr v' \<and>
                  mset (latest_catalog st') = mset (catalog_all v'))))"
proof -
  have inv: "catalog_store_inv hash pid ep mem st" using assms catalog_store_inv_membership by blast
  obtain v where v: "catalog_from_records hash pid ep mem (verified (catalog_operations st)) = Inr v"
    "mset (latest_catalog st) = mset (catalog_all v)"
    using catalog_store_view [OF inv] by blast
  show ?thesis
  proof (cases "hash r \<in> fst ` set (as_catalog_operations st)")
    case True
    with v show ?thesis by (simp add: apply_catalog_def)
  next
    case new: False
    show ?thesis
    proof (cases "ensure_replication_capacity pages page_size st")
      case (Inl e)
      with new v show ?thesis by (simp add: apply_catalog_def)
    next
      case (Inr u)
      then have cap: "ensure_replication_capacity pages page_size st = Inr ()" by simp
      from apply_catalog_outcome [OF inv new cap v(1), of p] new cap v catalog_store_inv_membership [of hash pid ep mem _ mem0] show ?thesis
        by (auto split: sum.splits prod.splits)
    qed
  qed
qed

theorem apply_catalog_refines_witness:
  "\<exists>st'. apply_catalog demo_catalog_hash 0 0 ''p'' 1 membership_empty web_1 Local store_empty = Inr (Applied, st') \<and>
     latest_catalog st' = [web_1] \<and> apply_catalog demo_catalog_hash 0 0 ''p'' 1 membership_empty web_1 Local st' = Inr (Duplicate, st')"
proof -
  have "catalog_from_records demo_catalog_hash ''p'' 1 membership_empty (verified (catalog_operations store_empty)) = Inr catalog_empty"
    by (simp add: catalog_from_records_def catalog_operations_def store_empty_def)
  moreover have "demo_catalog_hash web_1 \<notin> set (map fst (as_catalog_operations store_empty))" by (simp add: store_empty_def)
  moreover have "ensure_replication_capacity 0 0 store_empty = Inr ()"
    by (simp add: ensure_replication_capacity_def store_empty_def)
  ultimately obtain st' where st': "apply_catalog demo_catalog_hash 0 0 ''p'' 1 membership_empty web_1 Local store_empty = Inr (Applied, st')"
    "catalog_store_inv demo_catalog_hash ''p'' 1 membership_empty st'"
    "mset (latest_catalog st') = mset (catalog_all \<lparr>cv_records = [(''d1'', web_1)], cv_record_ids = {''d11''}\<rparr>)"
    "catalog_operations st' = catalog_operations store_empty @ [web_1]"
    using apply_catalog_refines [OF store_empty_inv(2) [of demo_catalog_hash "''p''" 1 membership_empty],
        of membership_empty web_1 0 0 Local]
    by (elim exE conjE) (simp add: demo_catalog_steps(1) [of Local membership_empty], auto simp: demo_deployment_def)
  have one: "latest_catalog st' = [web_1]" using st'(3) by (simp add: catalog_all_def bt_values_def)
  have "snd ` set (as_catalog_operations st') = {web_1}"
    using arg_cong [OF st'(4), of set] by (simp add: catalog_operations_def store_empty_def)
  then obtain i where "(i, web_1) \<in> set (as_catalog_operations st')" by force
  then have "demo_catalog_hash web_1 \<in> set (map fst (as_catalog_operations st'))"
    using catalog_store_ids [OF st'(2)] by force
  then have "apply_catalog demo_catalog_hash 0 0 ''p'' 1 membership_empty web_1 Local st' = Inr (Duplicate, st')"
    using apply_catalog_refines [OF st'(2), of membership_empty web_1 0 0 Local] by (simp only: if_True) blast
  with st'(1) one show ?thesis by blast
qed

text \<open>C28. Compaction changes no reading of the store: the tables stay, all three logs still replay to the same
  winners, later records meet the same fences, and compacting again removes nothing.\<close>

theorem compaction_preserves_views:
  assumes "membership_store_inv mh sc st" "catalog_store_inv ch pid ep mem st" "desired_store_inv dh pid ep mem st"
    "compact_operations st = (res, st')"
  shows "membership_store_inv mh sc st' \<and> catalog_store_inv ch pid ep mem st' \<and> desired_store_inv dh pid ep mem st' \<and>
    latest_membership st' = latest_membership st \<and> latest_catalog st' = latest_catalog st \<and>
    desired_snapshot_operations st' = desired_snapshot_operations st \<and>
    compact_operations st' = (\<lparr>comp_membership_removed = 0, comp_catalog_removed = 0, comp_desired_removed = 0\<rparr>, st')"
proof -
  have st': "st' = snd (compact_operations st)" using assms(4) by simp
  have tables: "as_membership_records st' = as_membership_records st" "as_catalog_records st' = as_catalog_records st"
    "as_desired_records st' = as_desired_records st" by (simp_all add: st' compact_operations_def Let_def)
  have logs: "as_membership_operations st' = filter (\<lambda>(i, _). i \<in> set (map mw_operation_id (bt_values (as_membership_records st)))) (as_membership_operations st)"
    "as_catalog_operations st' = filter (\<lambda>(i, _). i \<in> set (map cw_operation_id (bt_values (as_catalog_records st)))) (as_catalog_operations st)"
    "as_desired_operations st' = filter (\<lambda>(i, _). i \<in> set (map dw_operation_id (bt_values (as_desired_records st)))) (as_desired_operations st)"
    by (simp_all add: st' compact_operations_def compact_log_def Let_def)
  have "membership_store_inv mh sc st'"
    using mlog.log_ok_compact [OF assms(1) [unfolded membership_store_inv_def]] by (simp only: membership_store_inv_def logs tables)
  moreover have "catalog_store_inv ch pid ep mem st'"
    using clog.log_ok_compact [OF assms(2) [unfolded catalog_store_inv_def]] by (simp only: catalog_store_inv_def logs tables)
  moreover have "desired_store_inv dh pid ep mem st'"
    using dlog.log_ok_compact [OF assms(3) [unfolded desired_store_inv_def]] by (simp only: desired_store_inv_def logs tables)
  moreover have "compact_operations st' = (\<lparr>comp_membership_removed = 0, comp_catalog_removed = 0, comp_desired_removed = 0\<rparr>, st')"
    by (simp add: compact_operations_def [of st'] compact_log_def Let_def tables logs)
  ultimately show ?thesis
    by (simp add: latest_membership_def latest_catalog_def desired_snapshot_operations_def tables)
qed

theorem compaction_preserves_views_witness:
  "membership_store_inv demo_hash demo_scope (snd (compact_operations demo_store)) \<and>
   comp_membership_removed (fst (compact_operations demo_store)) = 1"
proof -
  have "compact_operations demo_store = (fst (compact_operations demo_store), snd (compact_operations demo_store))" by simp
  from compaction_preserves_views [OF demo_store_inv(1) demo_store_inv(2,3) this]
  have "membership_store_inv demo_hash demo_scope (snd (compact_operations demo_store))" by blast
  then show ?thesis
    by (simp add: compact_operations_def compact_log_def demo_store_def bt_values_def membership_row_of_def Let_def)
qed

text \<open>The store refines the desired-state view under a fixed membership: reading a service gives the view's
  record, an accepted record keeps the table in step with the log, and it fails only for want of quota,
  with the view's own error, or because its revision exceeds the 63 bits SQLite can hold.\<close>

theorem apply_desired_refines:
  assumes "desired_store_inv hash pid ep mem st"
  shows "\<exists>v. desired_from_records hash pid ep mem (verified (desired_operations st)) = Inr v \<and>
    (\<forall>s. desired_state s st = desired_get v s) \<and>
    (case apply_desired hash pages page_size pid ep mem r p st of
       Inr (out, st') \<Rightarrow> desired_store_inv hash pid ep mem st'
     | Inl e \<Rightarrow>
         ensure_replication_capacity pages page_size st = Inl e \<or>
         (\<exists>de. desired_apply hash pid ep mem v r p = Inl de \<and> e = SDesired de) \<or>
         e = SDatabase \<and> 2 ^ 63 \<le> unat (dr_revision r))"
proof -
  obtain v where v: "desired_from_records hash pid ep mem (verified (desired_operations st)) = Inr v"
    "\<forall>s. desired_state s st = desired_get v s"
    using desired_store_view [OF assms] by blast
  show ?thesis
  proof (cases "apply_desired hash pages page_size pid ep mem r p st")
    case (Inl e)
    have new: "hash r \<notin> fst ` set (as_desired_operations st)" using Inl by (intro notI) (simp add: apply_desired_def)
    show ?thesis
    proof (cases "ensure_replication_capacity pages page_size st")
      case (Inl e')
      with \<open>apply_desired hash pages page_size pid ep mem r p st = Inl e\<close> new v show ?thesis by (simp add: apply_desired_def)
    next
      case (Inr _)
      then have cap: "ensure_replication_capacity pages page_size st = Inr ()" by simp
      from apply_desired_new [OF new cap v(1)] Inl v show ?thesis
        by (cases "desired_apply hash pid ep mem v r p") (auto simp: not_less split: if_splits)
    qed
  next
    case (Inr os)
    with v desired_store_inv_apply [OF assms] show ?thesis by (cases os) auto
  qed
qed

theorem apply_desired_refines_witness:
  "\<exists>v. desired_from_records demo_desired_hash ''p'' 1 membership_empty (verified (desired_operations store_empty)) = Inr v \<and>
     desired_state ''web'' store_empty = desired_get v ''web''"
  using apply_desired_refines [OF store_empty_inv(3) [of demo_desired_hash "''p''" 1 membership_empty],
      of 0 0 "demo_desired 1 None" Local] by blast

end
