(* ===== verification/Leases.thy ===== *)
theory Leases
  imports Store_Log
begin

text \<open>
  Deployment address leases: the lease table of \<^verbatim>\<open>crates/jiji-agent/src/store.rs\<close> and the allocator of
  \<^verbatim>\<open>crates/jiji-agent/src/leases.rs\<close>.
  The label of a container that names its deployment is read from JSON text by \<^verbatim>\<open>serde_json\<close>; that reading
  is the parameter \<open>deployment_label\<close>. The outer option of the allocator is \<open>None\<close> where the code
  would panic because a lease it has just claimed cannot be read back.
\<close>

section \<open>The lease table\<close>

definition address_lease :: "string \<Rightarrow> AgentStore \<Rightarrow> AddressLease option" where
  "address_lease deployment_id st = map_of (as_address_leases st) deployment_id"

text \<open>The addresses are stored and ordered as text.\<close>

definition address_leases :: "AgentStore \<Rightarrow> AddressLease list" where
  "address_leases st = sort_key (show_ipv4 \<circ> al_address) (bt_values (as_address_leases st))"

definition active_lease :: "string \<Rightarrow> string \<Rightarrow> Ipv4Addr \<Rightarrow> AddressLease" where
  "active_lease deployment_id replica_id a =
     \<lparr>al_deployment_id = deployment_id, al_replica_id = replica_id, al_address = a, al_state = ''active'',
      al_quarantine_until = None\<rparr>"

text \<open>The column \<^verbatim>\<open>address\<close> is unique: an insertion that repeats one fails.\<close>

definition claim_address_lease ::
  "string \<Rightarrow> string \<Rightarrow> Ipv4Addr \<Rightarrow> AgentStore \<Rightarrow> (StoreError, bool \<times> AgentStore) result" where
  "claim_address_lease deployment_id replica_id a st =
     (case address_lease deployment_id st of
        None \<Rightarrow>
          (if a \<in> al_address ` set (bt_values (as_address_leases st)) then Inl SDatabase
           else Inr (True, st\<lparr>as_address_leases :=
                  bt_insert deployment_id (active_lease deployment_id replica_id a) (as_address_leases st)\<rparr>))
      | Some l \<Rightarrow> Inr (al_replica_id l = replica_id \<and> al_address l = a, st))"

definition recover_address_lease :: "string \<Rightarrow> string \<Rightarrow> Ipv4Addr \<Rightarrow> AgentStore \<Rightarrow> bool \<times> AgentStore" where
  "recover_address_lease deployment_id replica_id a st =
     (case address_lease deployment_id st of
        Some l \<Rightarrow>
          (if al_replica_id l \<noteq> replica_id \<or> al_address l \<noteq> a then (False, st)
           else (True, st\<lparr>as_address_leases :=
                   bt_insert deployment_id (l\<lparr>al_state := ''active'', al_quarantine_until := None\<rparr>) (as_address_leases st)\<rparr>))
      | None \<Rightarrow>
          (if a \<in> al_address ` set (bt_values (as_address_leases st)) then (False, st)
           else (True, st\<lparr>as_address_leases :=
                   bt_insert deployment_id (active_lease deployment_id replica_id a) (as_address_leases st)\<rparr>)))"

definition quarantine_address_lease :: "string \<Rightarrow> u64 \<Rightarrow> AgentStore \<Rightarrow> (StoreError, bool \<times> AgentStore) result" where
  "quarantine_address_lease deployment_id quarantine_until st =
     (case bind_u64 quarantine_until of
        Inl e \<Rightarrow> Inl e
      | Inr until \<Rightarrow>
          (case address_lease deployment_id st of
             None \<Rightarrow> Inr (False, st)
           | Some l \<Rightarrow>
               Inr (True, st\<lparr>as_address_leases :=
                      bt_insert deployment_id (l\<lparr>al_state := ''quarantined'', al_quarantine_until := Some until\<rparr>)
                        (as_address_leases st)\<rparr>)))"

definition lease_expired :: "u64 \<Rightarrow> AddressLease \<Rightarrow> bool" where
  "lease_expired timestamp l =
     (al_state l = ''quarantined'' \<and> (case al_quarantine_until l of None \<Rightarrow> False | Some until \<Rightarrow> until \<le> timestamp))"

definition claimed_deployments :: "(string \<Rightarrow> string option) \<Rightarrow> AgentStore \<Rightarrow> string list" where
  "claimed_deployments deployment_label st =
     concat (map (\<lambda>ob. case deployment_label (ob_labels_json ob) of
                         None \<Rightarrow> [] | Some d \<Rightarrow> (if d = [] then [] else [d])) (list_observations st))"

fun collect_loop :: "u64 \<Rightarrow> string list \<Rightarrow> string list \<Rightarrow> nat \<Rightarrow> (string, AddressLease) btree_map \<Rightarrow>
    nat \<times> (string, AddressLease) btree_map" where
  "collect_loop timestamp claimed [] removed table = (removed, table)"
| "collect_loop timestamp claimed (d # ds) removed table =
     (if d \<in> set claimed then collect_loop timestamp claimed ds removed table
      else case map_of table d of
             None \<Rightarrow> collect_loop timestamp claimed ds removed table
           | Some l \<Rightarrow>
               (if lease_expired timestamp l then collect_loop timestamp claimed ds (removed + 1) (bt_remove d table)
                else collect_loop timestamp claimed ds removed table))"

definition collect_expired_address_leases ::
  "(string \<Rightarrow> string option) \<Rightarrow> u64 \<Rightarrow> AgentStore \<Rightarrow> (StoreError, nat \<times> AgentStore) result" where
  "collect_expired_address_leases deployment_label timestamp st =
     (if get_checkpoint ''last_discovery_at'' st = None then Inr (0, st)
      else case bind_u64 timestamp of
        Inl e \<Rightarrow> Inl e
      | Inr _ \<Rightarrow>
          (let expired = map fst (filter (\<lambda>(_, l). lease_expired timestamp l) (as_address_leases st));
               (removed, table) = collect_loop timestamp (claimed_deployments deployment_label st) expired 0 (as_address_leases st)
           in Inr (removed, st\<lparr>as_address_leases := table\<rparr>)))"

section \<open>The allocator\<close>

definition DEFAULT_QUARANTINE_SECONDS :: u64 where
  "DEFAULT_QUARANTINE_SECONDS = 30"

datatype LeaseError =
    DeploymentConflict (le_deployment_id: string) (le_actual: Ipv4Addr) (le_requested: Ipv4Addr)
  | Exhausted (le_subnet: Ipv4Cidr)
  | LeaseStore StoreError

definition cron_replica_id :: "string \<Rightarrow> string \<Rightarrow> string" where
  "cron_replica_id service cron_name = ''cron/'' @ service @ ''/'' @ cron_name"

record AddressAllocator =
  aa_subnet :: Ipv4Cidr
  aa_reserved :: "Ipv4Addr set"

definition allocator_new :: "Ipv4Cidr \<Rightarrow> Ipv4Addr list \<Rightarrow> AddressAllocator" where
  "allocator_new sub reserved =
     \<lparr>aa_subnet = sub,
      aa_reserved = insert (network sub) (set reserved) \<union>
        (case address sub (u64_saturating_sub (address_count sub) 1) of None \<Rightarrow> {} | Some broadcast \<Rightarrow> {broadcast})\<rparr>"

fun alloc_loop ::
  "AddressAllocator \<Rightarrow> string \<Rightarrow> string \<Rightarrow> Ipv4Addr set \<Rightarrow> u64 list \<Rightarrow> AgentStore \<Rightarrow>
   ((LeaseError, AddressLease) result \<times> AgentStore) option" where
  "alloc_loop al deployment_id replica_id used [] st = Some (Inl (Exhausted (aa_subnet al)), st)"
| "alloc_loop al deployment_id replica_id used (off # offs) st =
     (case address (aa_subnet al) off of
        None \<Rightarrow> alloc_loop al deployment_id replica_id used offs st
      | Some a \<Rightarrow>
          (if a \<in> aa_reserved al \<or> a \<in> used then alloc_loop al deployment_id replica_id used offs st
           else case claim_address_lease deployment_id replica_id a st of
                  Inl e \<Rightarrow> Some (Inl (LeaseStore e), st)
                | Inr (claimed, st') \<Rightarrow>
                    (if claimed then
                       (case address_lease deployment_id st' of None \<Rightarrow> None | Some l \<Rightarrow> Some (Inr l, st'))
                     else alloc_loop al deployment_id replica_id used offs st')))"

text \<open>\<^verbatim>\<open>1..self.subnet.address_count().saturating_sub(1)\<close>\<close>

definition host_offsets :: "Ipv4Cidr \<Rightarrow> u64 list" where
  "host_offsets sub = map of_nat [1..<unat (u64_saturating_sub (address_count sub) 1)]"

definition allocate ::
  "(string \<Rightarrow> string option) \<Rightarrow> AddressAllocator \<Rightarrow> string \<Rightarrow> string \<Rightarrow> u64 \<Rightarrow> AgentStore \<Rightarrow>
   ((LeaseError, AddressLease) result \<times> AgentStore) option" where
  "allocate deployment_label al deployment_id replica_id timestamp st =
     (case collect_expired_address_leases deployment_label timestamp st of
        Inl e \<Rightarrow> Some (Inl (LeaseStore e), st)
      | Inr (_, st') \<Rightarrow>
          (case address_lease deployment_id st' of
             Some existing \<Rightarrow> Some (Inr existing, st')
           | None \<Rightarrow>
               alloc_loop al deployment_id replica_id (al_address ` set (address_leases st'))
                 (host_offsets (aa_subnet al)) st'))"

definition release :: "string \<Rightarrow> u64 \<Rightarrow> u64 \<Rightarrow> AgentStore \<Rightarrow> (LeaseError, bool \<times> AgentStore) result" where
  "release deployment_id timestamp quarantine_seconds st =
     (case quarantine_address_lease deployment_id (u64_saturating_add timestamp quarantine_seconds) st of
        Inl e \<Rightarrow> Inl (LeaseStore e)
      | Inr x \<Rightarrow> Inr x)"

section \<open>The invariant of the lease table\<close>

definition lease_inv :: "AgentStore \<Rightarrow> bool" where
  "lease_inv st \<longleftrightarrow> keyed al_deployment_id (as_address_leases st) \<and>
     inj_on al_address (set (bt_values (as_address_leases st)))"

abbreviation leased :: "AgentStore \<Rightarrow> Ipv4Addr set" where
  "leased st \<equiv> al_address ` set (bt_values (as_address_leases st))"

text \<open>Replacing or adding the lease of a deployment at an address no other deployment holds.\<close>

lemma lease_inv_insert:
  assumes inv: "lease_inv st" and d: "al_deployment_id l = d"
    and free: "\<forall>x \<in> set (bt_values (as_address_leases st)). al_address x = al_address l \<longrightarrow> al_deployment_id x = d"
  shows "lease_inv (st\<lparr>as_address_leases := bt_insert d l (as_address_leases st)\<rparr>)"
proof -
  let ?m = "as_address_leases st" and ?m' = "bt_insert d l (as_address_leases st)"
  have k: "keyed al_deployment_id ?m" using inv by (simp add: lease_inv_def)
  have k': "keyed al_deployment_id ?m'" using keyed_insert [OF k, of l] d by simp
  have old: "x = l \<or> x \<in> set (bt_values ?m) \<and> al_deployment_id x \<noteq> d" if "x \<in> set (bt_values ?m')" for x
  proof -
    have "((map_of ?m)(d \<mapsto> l)) (al_deployment_id x) = Some x"
      using that unfolding keyed_values [OF k'] unfolding bt_get_insert .
    then show ?thesis unfolding keyed_values [OF k] by (cases "al_deployment_id x = d") simp_all
  qed
  have "inj_on al_address (set (bt_values ?m'))"
  proof (rule inj_onI)
    fix x y assume x: "x \<in> set (bt_values ?m')" and y: "y \<in> set (bt_values ?m')" and eq: "al_address x = al_address y"
    from old [OF x] old [OF y] show "x = y"
      using free eq inv unfolding lease_inv_def by (auto dest: inj_onD)
  qed
  with k' show ?thesis by (simp add: lease_inv_def)
qed

lemma lease_inv_lookup:
  assumes "lease_inv st" "address_lease d st = Some l"
  shows "al_deployment_id l = d" "l \<in> set (bt_values (as_address_leases st))"
  using assms bt_get_Some_mem by (auto simp: lease_inv_def keyed_def address_lease_def)

lemma lease_inv_claim:
  assumes "lease_inv st" "claim_address_lease d r a st = Inr (ok, st')"
  shows "lease_inv st'"
  using assms by (auto simp: claim_address_lease_def active_lease_def image_iff split: option.splits if_splits
      intro!: lease_inv_insert)

lemma lease_inv_update:
  assumes inv: "lease_inv st" and l: "address_lease d st = Some l"
    and same: "al_deployment_id l' = al_deployment_id l" "al_address l' = al_address l"
  shows "lease_inv (st\<lparr>as_address_leases := bt_insert d l' (as_address_leases st)\<rparr>)"
proof (rule lease_inv_insert [OF inv])
  note lk = lease_inv_lookup [OF inv l]
  show "al_deployment_id l' = d" using lk same by simp
  have "x = l" if "x \<in> set (bt_values (as_address_leases st))" "al_address x = al_address l" for x
    using inv that lk(2) unfolding lease_inv_def by (blast dest: inj_onD)
  then show "\<forall>x \<in> set (bt_values (as_address_leases st)). al_address x = al_address l' \<longrightarrow> al_deployment_id x = d"
    using lk same by auto
qed

lemma lease_inv_recover:
  assumes "lease_inv st" "recover_address_lease d r a st = (ok, st')"
  shows "lease_inv st'"
proof (cases "address_lease d st")
  case None
  with assms show ?thesis
    by (auto simp: recover_address_lease_def active_lease_def image_iff split: if_splits intro!: lease_inv_insert)
next
  case (Some l)
  then show ?thesis using assms lease_inv_update [OF assms(1) Some]
    by (auto simp: recover_address_lease_def split: if_splits)
qed

lemma lease_inv_quarantine:
  assumes "lease_inv st" "quarantine_address_lease d until st = Inr (ok, st')"
  shows "lease_inv st'"
proof (cases "address_lease d st")
  case None
  with assms show ?thesis by (auto simp: quarantine_address_lease_def split: sum.splits)
next
  case (Some l)
  then show ?thesis using assms lease_inv_update [OF assms(1) Some]
    by (auto simp: quarantine_address_lease_def split: sum.splits)
qed

section \<open>Collection\<close>

lemma collect_loop_spec:
  assumes "bt_wf table" "distinct ds"
  shows "snd (collect_loop ts claimed ds n table) =
    filter (\<lambda>(d, l). \<not> (d \<in> set ds \<and> d \<notin> set claimed \<and> lease_expired ts l)) table"
  using assms
proof (induction ds arbitrary: n table)
  case Nil
  then show ?case by (simp add: split_def)
next
  case (Cons d ds)
  show ?case
  proof (cases "d \<notin> set claimed \<and> (\<exists>l. map_of table d = Some l \<and> lease_expired ts l)")
    case True
    then obtain l where l: "map_of table d = Some l" "lease_expired ts l" "d \<notin> set claimed" by blast
    have "l' = l" if "(d, l') \<in> set table" for l'
      using that l(1) unfolding bt_get_mem [OF Cons.prems(1), symmetric] by simp
    then have "filter (\<lambda>(e, l). \<not> (e \<in> set ds \<and> e \<notin> set claimed \<and> lease_expired ts l)) (bt_remove d table) =
        filter (\<lambda>(e, l). \<not> (e \<in> set (d # ds) \<and> e \<notin> set claimed \<and> lease_expired ts l)) table"
      unfolding bt_remove_def filter_filter using l(2,3) by (intro filter_cong) auto
    then show ?thesis using Cons.IH [of "bt_remove d table" "n + 1"] Cons.prems l by (simp add: split_def)
  next
    case False
    then have "collect_loop ts claimed (d # ds) n table = collect_loop ts claimed ds n table"
      by (auto split: option.splits)
    moreover have "filter (\<lambda>(e, l). \<not> (e \<in> set ds \<and> e \<notin> set claimed \<and> lease_expired ts l)) table =
        filter (\<lambda>(e, l). \<not> (e \<in> set (d # ds) \<and> e \<notin> set claimed \<and> lease_expired ts l)) table"
      using False bt_get_mem [OF Cons.prems(1)] by (intro filter_cong) auto
    ultimately show ?thesis using Cons.IH [of table n] Cons.prems by simp
  qed
qed

text \<open>The leases that stay, in closed form.\<close>

definition collected :: "(string \<Rightarrow> string option) \<Rightarrow> u64 \<Rightarrow> AgentStore \<Rightarrow> (string, AddressLease) btree_map" where
  "collected deployment_label ts st =
     (if get_checkpoint ''last_discovery_at'' st = None then as_address_leases st
      else filter (\<lambda>(d, l). d \<in> set (claimed_deployments deployment_label st) \<or> \<not> lease_expired ts l) (as_address_leases st))"

lemma collect_expired_Inr:
  assumes "lease_inv st" "unat ts < 2 ^ 63"
  shows "\<exists>n. collect_expired_address_leases lab ts st = Inr (n, st\<lparr>as_address_leases := collected lab ts st\<rparr>)"
proof (cases "get_checkpoint ''last_discovery_at'' st = None")
  case True
  then show ?thesis by (simp add: collect_expired_address_leases_def collected_def)
next
  case False
  let ?ds = "map fst (filter (\<lambda>(_, l). lease_expired ts l) (as_address_leases st))"
    and ?cl = "claimed_deployments lab st"
  have wf: "bt_wf (as_address_leases st)" using assms(1) by (simp add: lease_inv_def keyed_def)
  have "bt_wf (filter (\<lambda>(_, l). lease_expired ts l) (as_address_leases st))" using wf by simp
  then have d: "distinct ?ds" by (rule bt_wf_distinct)
  obtain n table where loop: "collect_loop ts ?cl ?ds 0 (as_address_leases st) = (n, table)"
    by (cases "collect_loop ts ?cl ?ds 0 (as_address_leases st)")
  have "table = filter (\<lambda>(d, l). \<not> (d \<in> set ?ds \<and> d \<notin> set ?cl \<and> lease_expired ts l)) (as_address_leases st)"
    using collect_loop_spec [OF wf d, of ts ?cl 0] loop by simp
  also have "\<dots> = filter (\<lambda>(d, l). d \<in> set ?cl \<or> \<not> lease_expired ts l) (as_address_leases st)"
    by (intro filter_cong) force+
  finally have "table = collected lab ts st" unfolding collected_def if_not_P [OF False] .
  with loop show ?thesis
    unfolding collect_expired_address_leases_def if_not_P [OF False] using assms(2) by (simp add: bind_u64_def Let_def)
qed

lemma collected_sub: "set (collected lab ts st) \<subseteq> set (as_address_leases st)"
  by (auto simp: collected_def)

lemma lease_inv_collected:
  assumes "lease_inv st"
  shows "lease_inv (st\<lparr>as_address_leases := collected lab ts st\<rparr>)"
proof -
  have wf: "bt_wf (as_address_leases st)" "bt_wf (collected lab ts st)"
    using assms by (auto simp: lease_inv_def keyed_def collected_def)
  have "set (bt_values (collected lab ts st)) \<subseteq> set (bt_values (as_address_leases st))"
    using collected_sub by (force simp: bt_values_def)
  moreover have "keyed al_deployment_id (collected lab ts st)"
    using assms wf collected_sub [of lab ts st] unfolding lease_inv_def keyed_def by (auto simp: bt_get_mem)
  ultimately show ?thesis using assms inj_on_subset by (auto simp: lease_inv_def)
qed

section \<open>Allocation\<close>

lemma alloc_loop_spec:
  assumes "address_lease d st = None"
  shows "alloc_loop al d r (leased st) offs st =
    (case find (\<lambda>off. \<exists>a. address (aa_subnet al) off = Some a \<and> a \<notin> aa_reserved al \<and> a \<notin> leased st) offs of
       None \<Rightarrow> Some (Inl (Exhausted (aa_subnet al)), st)
     | Some off \<Rightarrow>
         let l = active_lease d r (the (address (aa_subnet al) off))
         in Some (Inr l, st\<lparr>as_address_leases := bt_insert d l (as_address_leases st)\<rparr>))"
  using assms
  by (induction offs) (auto simp: claim_address_lease_def address_lease_def Let_def split: option.splits)

lemma host_offsets_mem:
  "off \<in> set (host_offsets sub) \<longleftrightarrow> 0 < unat off \<and> unat off < 2 ^ (32 - prefix sub) - 1"
proof -
  have n: "unat (u64_saturating_sub (address_count sub) 1) = 2 ^ (32 - prefix sub) - 1"
    by (simp add: unat_u64_saturating_sub unat_address_count)
  have lt: "(2::nat) ^ (32 - prefix sub) \<le> 2 ^ 32" by (rule power_increasing) simp_all
  have small: "unat (of_nat k :: u64) = k" if "k < 2 ^ (32 - prefix sub)" for k
    using that lt by (simp add: unat_of_nat)
  show ?thesis
    unfolding host_offsets_def n set_map set_upt
    by (auto simp: small image_iff intro: bexI [of _ "unat off"])
qed

section \<open>Allocation\<close>

lemma allocate_total:
  assumes inv: "lease_inv st" and wf: "cidr_wf sub" and ts: "unat ts < 2 ^ 63"
  shows "\<exists>res st'. allocate lab (allocator_new sub reserved) d r ts st = Some (res, st') \<and> lease_inv st' \<and>
    (case res of
       Inr l \<Rightarrow> address_lease d st' = Some l \<and> al_deployment_id l = d \<and>
         (address_lease d st = Some l \<or>
            l = active_lease d r (al_address l) \<and> contains sub (al_address l) \<and> al_address l \<notin> set reserved \<and>
            al_address l \<noteq> network sub \<and> address sub (address_count sub - 1) \<noteq> Some (al_address l) \<and>
            (\<forall>d' l'. address_lease d' st' = Some l' \<and> d' \<noteq> d \<longrightarrow> al_address l' \<noteq> al_address l))
     | Inl e \<Rightarrow> e = Exhausted sub \<and> (\<forall>a. contains sub a \<longrightarrow> a \<in> aa_reserved (allocator_new sub reserved) \<or> a \<in> leased st'))"
proof -
  define al where "al = allocator_new sub reserved"
  define s1 where "s1 = st\<lparr>as_address_leases := collected lab ts st\<rparr>"
  have inv1: "lease_inv s1" unfolding s1_def by (rule lease_inv_collected [OF inv])
  have coll: "\<exists>n. collect_expired_address_leases lab ts st = Inr (n, s1)"
    unfolding s1_def by (rule collect_expired_Inr [OF inv ts])
  have sub: "aa_subnet al = sub" by (simp add: al_def allocator_new_def)
  have last: "u64_saturating_sub (address_count sub) 1 = address_count sub - 1"
    using unat_address_count [of sub] by (auto simp: u64_saturating_sub_def word_le_nat_alt)
  then have res: "aa_reserved al = insert (network sub) (set reserved) \<union>
      (case address sub (address_count sub - 1) of None \<Rightarrow> {} | Some b \<Rightarrow> {b})"
    by (simp add: al_def allocator_new_def)
  show ?thesis
  proof (cases "address_lease d s1")
    case (Some l)
    have "allocate lab al d r ts st = Some (Inr l, s1)" using coll Some by (auto simp: allocate_def)
    moreover have "address_lease d st = Some l"
    proof -
      have "(d, l) \<in> set (as_address_leases s1)" using Some by (simp add: address_lease_def map_of_SomeD)
      then have "(d, l) \<in> set (as_address_leases st)" using collected_sub by (auto simp: s1_def)
      then show ?thesis using inv by (simp add: address_lease_def lease_inv_def keyed_def bt_get_mem [symmetric])
    qed
    ultimately show ?thesis using inv1 Some lease_inv_lookup(1) [OF inv1 Some] by (auto simp: al_def)
  next
    case None
    let ?P = "\<lambda>off. \<exists>a. address sub off = Some a \<and> a \<notin> aa_reserved al \<and> a \<notin> leased s1"
    have al: "allocate lab al d r ts st = alloc_loop al d r (leased s1) (host_offsets sub) s1"
      using coll None by (auto simp: allocate_def address_leases_def sub)
    note loop = alloc_loop_spec [OF None, of al r "host_offsets sub", unfolded sub]
    show ?thesis
    proof (cases "find ?P (host_offsets sub)")
      case (Some off)
      then obtain a where a: "address sub off = Some a" "a \<notin> aa_reserved al" "a \<notin> leased s1"
        by (auto simp: find_Some_iff)
      let ?l = "active_lease d r a" and ?s2 = "s1\<lparr>as_address_leases := bt_insert d (active_lease d r a) (as_address_leases s1)\<rparr>"
      have run: "allocate lab al d r ts st = Some (Inr ?l, ?s2)" using al loop Some a(1) by (simp add: Let_def)
      have inv2: "lease_inv ?s2"
        by (rule lease_inv_insert [OF inv1]) (use a(3) in \<open>auto simp: active_lease_def image_iff\<close>)
      have "al_address l' \<noteq> a" if "address_lease d' ?s2 = Some l'" "d' \<noteq> d" for d' l'
        using that a(3) bt_get_Some_mem [of "as_address_leases s1" d' l'] by (auto simp: address_lease_def)
      moreover have "contains sub a" by (rule address_contained [OF wf a(1)])
      ultimately show ?thesis
        using run inv2 a(2) unfolding res al_def [symmetric]
        by (auto simp: address_lease_def active_lease_def split: option.splits)
    next
      case none: None
      have run: "allocate lab al d r ts st = Some (Inl (Exhausted sub), s1)" using al loop none by simp
      have "a \<in> aa_reserved al \<or> a \<in> leased s1" if "contains sub a" for a
      proof (rule ccontr)
        assume free: "\<not> (a \<in> aa_reserved al \<or> a \<in> leased s1)"
        obtain off where off: "address sub off = Some a" using address_surj [OF wf \<open>contains sub a\<close>] .
        have "off \<notin> set (host_offsets sub)" using none off free by (auto simp: find_None_iff)
        moreover have "off \<noteq> 0" using off free res by (auto simp: address_def split: if_splits)
        moreover have "off \<noteq> address_count sub - 1" using off free res by auto
        moreover have "unat off < 2 ^ (32 - prefix sub)" by (rule address_SomeD(1) [OF wf off])
        moreover have "unat (address_count sub - 1) = 2 ^ (32 - prefix sub) - 1"
          using last unat_u64_saturating_sub [of "address_count sub" 1] by (simp add: unat_address_count)
        ultimately show False by (auto simp: host_offsets_mem word_unat_eq_iff)
      qed
      then show ?thesis using run inv1 by (auto simp: al_def)
    qed
  qed
qed

section \<open>Properties\<close>

text \<open>C29. Allocation never panics and keeps the lease table consistent. It returns the lease of the deployment,
  which is then stored; a new one is active, lies in the subnet, and is neither reserved, nor the network
  or broadcast address, nor held by any other deployment. It reports exhaustion only when every address
  of the subnet that is not reserved is leased.\<close>

theorem allocate_correct:
  assumes inv: "lease_inv st" and wf: "cidr_wf sub" and ts: "unat ts < 2 ^ 63"
  shows "\<exists>res st'. allocate lab (allocator_new sub reserved) d r ts st = Some (res, st') \<and> lease_inv st' \<and>
    (case res of
       Inr l \<Rightarrow> address_lease d st' = Some l \<and> al_deployment_id l = d \<and>
         (address_lease d st = Some l \<or>
            l = active_lease d r (al_address l) \<and> contains sub (al_address l) \<and> al_address l \<notin> set reserved \<and>
            al_address l \<noteq> network sub \<and> address sub (address_count sub - 1) \<noteq> Some (al_address l) \<and>
            (\<forall>d' l'. address_lease d' st' = Some l' \<and> d' \<noteq> d \<longrightarrow> al_address l' \<noteq> al_address l))
     | Inl e \<Rightarrow> e = Exhausted sub \<and> (\<forall>a. contains sub a \<longrightarrow> a \<in> aa_reserved (allocator_new sub reserved) \<or> a \<in> leased st'))"
  by (rule allocate_total [OF assms])

theorem allocate_correct_witness:
  "\<exists>res st'. allocate (\<lambda>_. None) (allocator_new (Ipv4Cidr 0 30) []) ''d'' ''r'' 7 store_empty = Some (res, st') \<and> lease_inv st'"
proof -
  have "lease_inv store_empty" by (simp add: lease_inv_def store_empty_def bt_values_def)
  moreover have "cidr_wf (Ipv4Cidr 0 30)" by (simp add: cidr_wf_def)
  ultimately show ?thesis using allocate_correct [of store_empty "Ipv4Cidr 0 30" 7 "\<lambda>_. None" "[]" "''d''" "''r''"] by auto
qed

text \<open>C30. Collection removes a lease only on evidence: an inventory has been recorded, the lease is quarantined, its
  quarantine has ended, and no observed container claims the deployment. Every such lease is removed,
  every other one stays, and the addresses stay unique.\<close>

theorem collection_exact:
  assumes "lease_inv st" "unat ts < 2 ^ 63"
  shows "\<exists>n st'. collect_expired_address_leases lab ts st = Inr (n, st') \<and> lease_inv st' \<and>
    (\<forall>d l. address_lease d st' = Some l \<longleftrightarrow> address_lease d st = Some l \<and>
      \<not> (get_checkpoint ''last_discovery_at'' st \<noteq> None \<and> al_state l = ''quarantined'' \<and>
         (\<exists>until. al_quarantine_until l = Some until \<and> until \<le> ts) \<and>
         (\<forall>ob \<in> set (list_observations st). d = [] \<or> lab (ob_labels_json ob) \<noteq> Some d)))"
proof -
  define s1 where "s1 = st\<lparr>as_address_leases := collected lab ts st\<rparr>"
  obtain n where n: "collect_expired_address_leases lab ts st = Inr (n, s1)"
    using collect_expired_Inr [OF assms] unfolding s1_def by blast
  have wf: "bt_wf (as_address_leases st)" "bt_wf (collected lab ts st)"
    using assms(1) by (auto simp: lease_inv_def keyed_def collected_def)
  have claimed: "d \<in> set (claimed_deployments lab st) \<longleftrightarrow>
      (\<exists>ob \<in> set (list_observations st). d \<noteq> [] \<and> lab (ob_labels_json ob) = Some d)" for d
  proof -
    have "d \<in> set (case x of None \<Rightarrow> [] | Some e \<Rightarrow> (if e = [] then [] else [e])) \<longleftrightarrow> d \<noteq> [] \<and> x = Some d" for x :: "string option"
      by (cases x) auto
    then show ?thesis by (simp add: claimed_deployments_def)
  qed
  have "address_lease d s1 = Some l \<longleftrightarrow> address_lease d st = Some l \<and>
      \<not> (get_checkpoint ''last_discovery_at'' st \<noteq> None \<and> al_state l = ''quarantined'' \<and>
         (\<exists>until. al_quarantine_until l = Some until \<and> until \<le> ts) \<and>
         (\<forall>ob \<in> set (list_observations st). d = [] \<or> lab (ob_labels_json ob) \<noteq> Some d))" for d l
  proof -
    have ex: "lease_expired ts l \<longleftrightarrow> al_state l = ''quarantined'' \<and> (\<exists>until. al_quarantine_until l = Some until \<and> until \<le> ts)"
      by (auto simp: lease_expired_def split: option.splits)
    have "address_lease d s1 = Some l \<longleftrightarrow> (d, l) \<in> set (collected lab ts st)"
      by (simp add: address_lease_def s1_def bt_get_mem [OF wf(2)])
    also have "\<dots> \<longleftrightarrow> (d, l) \<in> set (as_address_leases st) \<and>
        \<not> (get_checkpoint ''last_discovery_at'' st \<noteq> None \<and> lease_expired ts l \<and> d \<notin> set (claimed_deployments lab st))"
      unfolding collected_def by (cases "get_checkpoint ''last_discovery_at'' st = None") auto
    also have "(d, l) \<in> set (as_address_leases st) \<longleftrightarrow> address_lease d st = Some l"
      by (simp add: address_lease_def bt_get_mem [OF wf(1)])
    finally show ?thesis unfolding ex claimed by blast
  qed
  then show ?thesis using n lease_inv_collected [OF assms(1)] unfolding s1_def by blast
qed

theorem collection_exact_witness:
  "\<exists>n st'. collect_expired_address_leases (\<lambda>_. None) 7
       (store_empty\<lparr>as_checkpoints := [(''last_discovery_at'', ''5'')],
          as_address_leases := [(''d'', (active_lease ''d'' ''r'' 1)\<lparr>al_state := ''quarantined'', al_quarantine_until := Some 6\<rparr>)]\<rparr>) =
       Inr (n, st') \<and> address_lease ''d'' st' = None"
proof -
  let ?l = "(active_lease ''d'' ''r'' 1)\<lparr>al_state := ''quarantined'', al_quarantine_until := Some 6\<rparr>"
  let ?st = "store_empty\<lparr>as_checkpoints := [(''last_discovery_at'', ''5'')], as_address_leases := [(''d'', ?l)]\<rparr>"
  have "lease_inv ?st" by (simp add: lease_inv_def keyed_def bt_values_def active_lease_def)
  from collection_exact [OF this, of 7 "\<lambda>_. None"] obtain n st' where st':
    "collect_expired_address_leases (\<lambda>_. None) 7 ?st = Inr (n, st')"
    "\<And>l. address_lease ''d'' st' = Some l \<Longrightarrow> address_lease ''d'' ?st = Some l \<and>
      \<not> (get_checkpoint ''last_discovery_at'' ?st \<noteq> None \<and> al_state l = ''quarantined'' \<and>
         (\<exists>until. al_quarantine_until l = Some until \<and> until \<le> 7))"
    by (auto simp: list_observations_def store_empty_def bt_values_def)
  have "address_lease ''d'' st' = None"
    using st'(2) by (cases "address_lease ''d'' st'") (auto simp: address_lease_def get_checkpoint_def)
  with st'(1) show ?thesis by blast
qed

end
