(* ===== verification/Runtime.thy ===== *)
theory Runtime
  imports Leases
begin

text \<open>
  The mesh runtime of the agent, \<^verbatim>\<open>crates/jiji-agent/src/runtime.rs\<close> and \<^verbatim>\<open>engine.rs\<close>: its configuration, the
  peers it replicates with, the bookkeeping of one replication round, and one WireGuard repair pass.
  The commands \<^verbatim>\<open>wg\<close> and \<^verbatim>\<open>ip\<close> are outside: their output and whether they succeed are arguments.
\<close>

section \<open>Container engine\<close>

datatype Engine = EDocker | EPodman

fun engine_as_str :: "Engine \<Rightarrow> string" where
  "engine_as_str EDocker = ''docker''"
| "engine_as_str EPodman = ''podman''"

definition engine_from_str :: "string \<Rightarrow> (string, Engine) result" where
  "engine_from_str v = (if v = ''docker'' then Inr EDocker else if v = ''podman'' then Inr EPodman else Inl v)"

lemma engine_round_trip: "engine_from_str (engine_as_str e) = Inr e"
  by (cases e) (simp_all add: engine_from_str_def)

section \<open>Configuration\<close>

definition REACHABILITY_TIMEOUT_INTERVALS :: u64 where
  "REACHABILITY_TIMEOUT_INTERVALS = 3"

definition DEFAULT_STORE_SOFT_QUOTA_BYTES :: u64 where
  "DEFAULT_STORE_SOFT_QUOTA_BYTES = 64 * 1024 * 1024"

definition DEFAULT_COMPACTION_INTERVAL_SECS :: u64 where
  "DEFAULT_COMPACTION_INTERVAL_SECS = 300"

record ProxyRouteSpec =
  pr_host :: string
  pr_path_prefix :: "string option"
  pr_name :: string
  pr_port :: u16
  pr_apply_args :: "string list"

record TcpRouteSpec =
  tr_listen_port :: u16
  tr_name :: string
  tr_port :: u16
  tr_apply_args :: "string list"

record LocalRuntimeConfig =
  lr_bridge_network :: string
  lr_bridge_interface :: string
  lr_proxy_address :: Ipv4Addr
  lr_proxy_routes :: "ProxyRouteSpec list"
  lr_tcp_routes :: "TcpRouteSpec list"
  lr_container_subnet :: Ipv4Cidr
  lr_bridge_gateway :: Ipv4Addr
  lr_container_cidr :: Ipv4Cidr
  lr_wireguard_port :: u16
  lr_peer_public_ips :: "Ipv4Addr list"
  lr_public_host :: string

record MeshConfig =
  mc_project_id :: string
  mc_recovery_epoch :: u64
  mc_node_id :: string
  mc_wireguard_interface :: string
  mc_wireguard_private_key_path :: string
  mc_replication_bind :: SocketAddr
  mc_dns_bind_address :: Ipv4Addr
  mc_local_runtime :: LocalRuntimeConfig
  mc_reconcile_interval_secs :: u64
  mc_store_soft_quota_bytes :: u64
  mc_compaction_interval_secs :: u64
  mc_dns_forwarders :: "Ipv4Addr list"

definition default_interval :: u64 where
  "default_interval = 10"

definition default_mesh_dns_forwarders :: "Ipv4Addr list" where
  "default_mesh_dns_forwarders = [ipv4_of_octets 1 1 1 1, ipv4_of_octets 8 8 8 8]"

datatype RuntimeError =
    RIo
  | RInvalidConfig
  | RWrongProject
  | RSerialization
  | RStore StoreError
  | RLockPoisoned
  | RWireGuardInspect string
  | RWireGuardApply string
  | RCatalogReplication string
  | RDns string
  | RPeerSyncTask string

definition u64_saturating_mul :: "u64 \<Rightarrow> u64 \<Rightarrow> u64" where
  "u64_saturating_mul a b = (if unat a * unat b < 2 ^ 64 then a * b else - 1)"

definition peer_reachability_timeout_secs :: "MeshConfig \<Rightarrow> u64" where
  "peer_reachability_timeout_secs c = u64_saturating_mul (mc_reconcile_interval_secs c) REACHABILITY_TIMEOUT_INTERVALS"

definition mesh_validate :: "string \<Rightarrow> MeshConfig \<Rightarrow> (RuntimeError, unit) result" where
  "mesh_validate expected_project c =
     (if mc_project_id c \<noteq> expected_project then Inl RWrongProject
      else if mc_project_id c = [] \<or> mc_node_id c = [] \<or> mc_wireguard_interface c = [] \<or>
              mc_wireguard_private_key_path c = [] \<or> lr_bridge_network (mc_local_runtime c) = [] \<or>
              lr_bridge_interface (mc_local_runtime c) = [] \<or> lr_wireguard_port (mc_local_runtime c) = 0 \<or>
              lr_public_host (mc_local_runtime c) = [] \<or> mc_recovery_epoch c = 0 \<or> mc_reconcile_interval_secs c = 0 \<or>
              mc_store_soft_quota_bytes c = 0 \<or> mc_compaction_interval_secs c = 0
        then Inl RInvalidConfig
      else Inr ())"

text \<open>\<open>None\<close> where the code would panic: the mesh is IPv4 only.\<close>

definition management_address :: "MeshConfig \<Rightarrow> Ipv4Addr option" where
  "management_address c = (case sa_ip (mc_replication_bind c) of V4 a \<Rightarrow> Some a | V6 _ \<Rightarrow> None)"

definition identity :: "MeshConfig \<Rightarrow> NodeIdentity" where
  "identity c = \<lparr>ni_project_id = mc_project_id c, ni_recovery_epoch = mc_recovery_epoch c, ni_node_id = mc_node_id c\<rparr>"

definition mesh_scope :: "MeshConfig \<Rightarrow> MembershipScope" where
  "mesh_scope c = \<lparr>ms_project_id = mc_project_id c, ms_recovery_epoch = mc_recovery_epoch c\<rparr>"

section \<open>Replication rounds\<close>

definition replication_targets :: "MeshConfig \<Rightarrow> AgentStore \<Rightarrow> (string, SocketAddr) btree_map" where
  "replication_targets c st =
     foldl (\<lambda>peers r. if mr_node_id r \<noteq> mc_node_id c
                      then bt_insert (mr_node_id r) (SocketAddr (V4 (mr_management_address r)) (sa_port (mc_replication_bind c))) peers
                      else peers) [] (active_membership st)"

text \<open>Statuses of nodes that are no longer peers are dropped.\<close>

definition prune_peer_status :: "string set \<Rightarrow> AgentStore \<Rightarrow> AgentStore" where
  "prune_peer_status current st =
     foldl (\<lambda>s status. if ps_node_id status \<notin> current then delete_peer_sync_status (ps_node_id status) s else s)
       st (peer_sync_statuses st)"

text \<open>What one finished exchange leaves in the store; \<open>Inl\<close> is the text of its error.\<close>

definition record_sync :: "string \<Rightarrow> string \<Rightarrow> (string, unit) result \<Rightarrow> AgentStore \<Rightarrow> AgentStore" where
  "record_sync now node_id exchange st =
     (case exchange of
        Inr _ \<Rightarrow> record_peer_sync_success now node_id (mark_node_seen now node_id st)
      | Inl error \<Rightarrow> record_peer_sync_failure node_id (''catalog: '' @ error) st)"

section \<open>WireGuard repair\<close>

text \<open>
  The lines of \<^verbatim>\<open>wg show <interface> endpoints\<close>, split into words; the resolution of an endpoint text is the
  parameter \<open>resolve\<close>.
\<close>

fun collect_endpoints :: "(string \<Rightarrow> SocketAddr option) \<Rightarrow> string list list \<Rightarrow> (string, SocketAddr) btree_map \<Rightarrow>
    (string, SocketAddr) btree_map" where
  "collect_endpoints resolve [] m = m"
| "collect_endpoints resolve (line # ls) m =
     (case line of
        public_key # endpoint # _ \<Rightarrow>
          (if endpoint = ''(none)'' then collect_endpoints resolve ls m
           else case resolve endpoint of
                  None \<Rightarrow> collect_endpoints resolve ls m
                | Some a \<Rightarrow> collect_endpoints resolve ls (bt_insert public_key a m))
      | _ \<Rightarrow> collect_endpoints resolve ls m)"

text \<open>
  How a command ended: it could not be started, it failed with a trimmed error output, or it succeeded.
\<close>

datatype command_outcome = Not_Started | Exit_Failure string | Exit_Success

definition observed_endpoints :: "(string \<Rightarrow> SocketAddr option) \<Rightarrow> command_outcome \<times> string list list \<Rightarrow>
    (RuntimeError, (string, SocketAddr) btree_map) result" where
  "observed_endpoints resolve output =
     (case fst output of
        Not_Started \<Rightarrow> Inl RIo
      | Exit_Failure stderr \<Rightarrow> Inl (RWireGuardInspect stderr)
      | Exit_Success \<Rightarrow> Inr (collect_endpoints resolve (snd output) []))"

text \<open>
  The external effect of an action: the argument vectors of the commands it runs, each with the text that
  precedes its error output when its failure is fatal, or \<open>None\<close> when its failure is ignored.
\<close>

definition apply_action_commands :: "(128 word \<Rightarrow> string) \<Rightarrow> string \<Rightarrow> PeerAction \<Rightarrow> (string list \<times> string option) list" where
  "apply_action_commands show_v6 interface action =
     (case action of
        SetPeer _ public_key endpoint allowed_ips \<Rightarrow>
          ([''wg'', ''set'', interface, ''peer'', public_key, ''endpoint'', show_socket_addr show_v6 endpoint,
            ''allowed-ips'', join '','' allowed_ips, ''persistent-keepalive'', ''25''], Some []) #
          map (\<lambda>ip. ([''ip'', ''route'', ''replace'', ip, ''dev'', interface],
                     Some (''could not install route for '' @ ip @ '' via '' @ interface @ '': ''))) allowed_ips
      | UpdateEndpoint _ public_key endpoint \<Rightarrow>
          [([''wg'', ''set'', interface, ''peer'', public_key, ''endpoint'', show_socket_addr show_v6 endpoint], Some [])]
      | RemovePeer _ public_key allowed_ips \<Rightarrow>
          ([''wg'', ''set'', interface, ''peer'', public_key, ''remove''], Some []) #
          map (\<lambda>ip. ([''ip'', ''route'', ''del'', ip, ''dev'', interface], None)) allowed_ips)"

text \<open>Running commands until a fatal one fails.\<close>

fun run_commands :: "(string list \<Rightarrow> command_outcome) \<Rightarrow> (string list \<times> string option) list \<Rightarrow>
    string list list \<times> (RuntimeError, unit) result" where
  "run_commands exec [] = ([], Inr ())"
| "run_commands exec ((cmd, fatal) # cs) =
     (case (exec cmd, fatal) of
        (Not_Started, Some _) \<Rightarrow> ([cmd], Inl RIo)
      | (Exit_Failure stderr, Some lead) \<Rightarrow> ([cmd], Inl (RWireGuardApply (lead @ stderr)))
      | _ \<Rightarrow> (let (ran, res) = run_commands exec cs in (cmd # ran, res)))"

text \<open>
  One repair pass: the commands run after the inspection, and the store or the error. \<open>output\<close> is what the
  inspection command gave; the outer option is the panic of the plan.
\<close>

definition reconcile_once ::
  "(string \<Rightarrow> SocketAddr option) \<Rightarrow> (128 word \<Rightarrow> string) \<Rightarrow> (string list \<Rightarrow> command_outcome) \<Rightarrow>
   command_outcome \<times> string list list \<Rightarrow> MeshConfig \<Rightarrow>
   AgentStore \<Rightarrow> (string list list \<times> (RuntimeError, AgentStore) result) option" where
  "reconcile_once resolve show_v6 exec output c st =
     (case observed_endpoints resolve output of
        Inl e \<Rightarrow> Some ([], Inl e)
      | Inr endpoints \<Rightarrow>
          (case plan_reconciliation (mc_node_id c) (latest_membership st) (peer_cache st) endpoints of
             None \<Rightarrow> None
           | Some pl \<Rightarrow>
               (let (ran, res) = run_commands exec
                      (concat (map (apply_action_commands show_v6 (mc_wireguard_interface c)) (rp_actions pl)))
                in case res of
                     Inl e \<Rightarrow> Some (ran, Inl e)
                   | Inr _ \<Rightarrow>
                       (case replace_peer_cache (rp_next_cache pl) st of
                          Inl e \<Rightarrow> Some (ran, Inl (RStore e))
                        | Inr st' \<Rightarrow> Some (ran, Inr st')))))"

section \<open>The stored peer cache\<close>

lemma peer_cache_read: "keyed pc_node_id (as_peer_cache st) \<Longrightarrow> peer_cache st = as_peer_cache st"
  by (simp add: peer_cache_def keyed_rebuild)

lemma insert_peers_bounds:
  "insert_peers es t = Inr t' \<Longrightarrow> \<forall>e \<in> set es. unat (pc_owner_epoch e) < 2 ^ 63 \<and> unat (pc_revision e) < 2 ^ 63"
proof (induction es arbitrary: t)
  case (Cons e es)
  show ?case
  proof (cases "unat (pc_owner_epoch e) < 2 ^ 63 \<and> unat (pc_revision e) < 2 ^ 63 \<and> map_of t (pc_node_id e) = None")
    case True
    then have "insert_peers es (bt_insert (pc_node_id e) e t) = Inr t'" using Cons.prems by (simp add: bind_u64_def)
    from Cons.IH [OF this] True show ?thesis by simp
  next
    case False
    then have "\<exists>x. insert_peers (e # es) t = Inl x"
      by (cases "unat (pc_owner_epoch e) < 2 ^ 63"; cases "unat (pc_revision e) < 2 ^ 63") (auto simp: bind_u64_def)
    with Cons.prems show ?thesis by simp
  qed
qed simp

lemma replace_peer_cache_Inr:
  assumes "keyed pc_node_id cache"
  shows "replace_peer_cache cache st = Inr st' \<longleftrightarrow>
    st' = st\<lparr>as_peer_cache := cache\<rparr> \<and>
    (\<forall>e \<in> set (bt_values cache). unat (pc_owner_epoch e) < 2 ^ 63 \<and> unat (pc_revision e) < 2 ^ 63)"
proof
  assume a: "replace_peer_cache cache st = Inr st'"
  then obtain t where t: "insert_peers (bt_values cache) [] = Inr t" "st' = st\<lparr>as_peer_cache := t\<rparr>"
    by (auto simp: replace_peer_cache_def split: sum.splits)
  note b = insert_peers_bounds [OF t(1)]
  from insert_peers_Inr [OF assms b] t b show "st' = st\<lparr>as_peer_cache := cache\<rparr> \<and>
    (\<forall>e \<in> set (bt_values cache). unat (pc_owner_epoch e) < 2 ^ 63 \<and> unat (pc_revision e) < 2 ^ 63)" by simp
next
  assume "st' = st\<lparr>as_peer_cache := cache\<rparr> \<and>
    (\<forall>e \<in> set (bt_values cache). unat (pc_owner_epoch e) < 2 ^ 63 \<and> unat (pc_revision e) < 2 ^ 63)"
  then show "replace_peer_cache cache st = Inr st'" using insert_peers_Inr [OF assms] by (simp add: replace_peer_cache_def)
qed

lemma entry_after_node: "entry_after observed previous r = Some e \<Longrightarrow> pc_node_id e = mr_node_id r"
  by (auto simp: entry_after_def next_entry_def split: MembershipState.splits)

lemma reconcile_ok_keyed:
  assumes "reconcile_ok l rs cache observed pl" "keyed pc_node_id cache"
  shows "keyed pc_node_id (rp_next_cache pl)"
proof -
  have "pc_node_id e = n" if e: "cached pl n = Some e" for n e
  proof (cases "n \<in> mr_node_id ` set (relevant l {} rs)")
    case True
    then obtain r where r: "r \<in> set (relevant l {} rs)" "n = mr_node_id r" by blast
    then have "entry_after observed (map_of cache (mr_node_id r)) r = Some e" using assms(1) e by (simp add: reconcile_ok_def)
    then show ?thesis using entry_after_node r(2) by blast
  next
    case False
    then show ?thesis using assms e by (simp add: reconcile_ok_def keyed_def)
  qed
  then show ?thesis using assms by (simp add: keyed_def reconcile_ok_def)
qed

section \<open>Properties\<close>

text \<open>C32. A repair pass that succeeds reaches a fixed point: with the membership and the observed endpoints
  unchanged, the next pass runs no command at all and leaves the store as it is. The peer cache read
  back from the store is the one the plan produced.\<close>

theorem reconcile_once_converges:
  assumes "\<forall>r \<in> set (latest_membership st). mr_state r = MActive \<longrightarrow> mr_endpoints r \<noteq> []"
    "keyed pc_node_id (as_peer_cache st)"
    "reconcile_once resolve show_v6 exec output c st = Some (cmds, Inr st')"
  shows "reconcile_once resolve show_v6 exec' output c st' = Some ([], Inr st') \<and>
    (\<exists>endpoints pl. observed_endpoints resolve output = Inr endpoints \<and>
      plan_reconciliation (mc_node_id c) (latest_membership st) (as_peer_cache st) endpoints = Some pl \<and>
      peer_cache st' = rp_next_cache pl)"
proof -
  let ?n = "mc_node_id c" and ?rs = "latest_membership st"
  obtain endpoints where obs: "observed_endpoints resolve output = Inr endpoints"
    using assms(3) by (cases "observed_endpoints resolve output") (simp_all add: reconcile_once_def)
  obtain pl where pl: "plan_reconciliation ?n ?rs (as_peer_cache st) endpoints = Some pl"
    and ok: "reconcile_ok ?n ?rs (as_peer_cache st) endpoints pl"
    using plan_reconciliation_ok [OF assms(1)] by blast
  have k: "keyed pc_node_id (rp_next_cache pl)" by (rule reconcile_ok_keyed [OF ok assms(2)])
  have "replace_peer_cache (rp_next_cache pl) st = Inr st'"
    using assms(3) pl obs by (auto simp: reconcile_once_def peer_cache_read [OF assms(2)] split: prod.splits sum.splits)
  then have st': "st' = st\<lparr>as_peer_cache := rp_next_cache pl\<rparr>"
    and bounds: "\<forall>e \<in> set (bt_values (rp_next_cache pl)). unat (pc_owner_epoch e) < 2 ^ 63 \<and> unat (pc_revision e) < 2 ^ 63"
    unfolding replace_peer_cache_Inr [OF k] by blast+
  have read: "peer_cache st' = rp_next_cache pl" using k by (simp add: peer_cache_read st')
  have same: "latest_membership st' = ?rs" by (simp add: latest_membership_def st')
  have wf: "bt_wf (as_peer_cache st)" using assms(2) by (simp add: keyed_def)
  have "plan_reconciliation ?n ?rs (rp_next_cache pl) endpoints = Some \<lparr>rp_actions = [], rp_next_cache = rp_next_cache pl\<rparr>"
    using plan_again [OF assms(1) wf, of ?n endpoints] pl by simp
  moreover have "replace_peer_cache (rp_next_cache pl) st' = Inr st'"
    unfolding replace_peer_cache_Inr [OF k] using bounds by (simp add: st')
  ultimately have "reconcile_once resolve show_v6 exec' output c st' = Some ([], Inr st')"
    by (simp add: reconcile_once_def read same obs)
  with obs pl read show ?thesis by blast
qed

theorem reconcile_once_converges_witness:
  "\<exists>cmds st' c. reconcile_once (\<lambda>_. None) (\<lambda>_. []) (\<lambda>_. Exit_Success) (Exit_Success, []) c demo_store = Some (cmds, Inr st') \<and>
     reconcile_once (\<lambda>_. None) (\<lambda>_. []) (\<lambda>_. Not_Started) (Exit_Success, []) c st' = Some ([], Inr st')"
proof -
  define c where "c = \<lparr>mc_project_id = ''p'', mc_recovery_epoch = 1, mc_node_id = ''l'', mc_wireguard_interface = ''wg0'',
    mc_wireguard_private_key_path = ''k'', mc_replication_bind = SocketAddr (V4 1) 2, mc_dns_bind_address = 3,
    mc_local_runtime = \<lparr>lr_bridge_network = ''b'', lr_bridge_interface = ''b'', lr_proxy_address = 4, lr_proxy_routes = [],
      lr_tcp_routes = [], lr_container_subnet = Ipv4Cidr 0 24, lr_bridge_gateway = 5, lr_container_cidr = Ipv4Cidr 0 16,
      lr_wireguard_port = 6, lr_peer_public_ips = [], lr_public_host = ''h''\<rparr>,
    mc_reconcile_interval_secs = 10, mc_store_soft_quota_bytes = 1, mc_compaction_interval_secs = 1, mc_dns_forwarders = []\<rparr>"
  have ms: "latest_membership demo_store = [node_a_gone, node_b]"
    by (simp add: latest_membership_def demo_store_def bt_values_def membership_row_of_def)
  have pc: "peer_cache demo_store = []" by (simp add: peer_cache_def demo_store_def store_empty_def bt_values_def)
  have node: "mc_node_id c = ''l''" by (simp add: c_def)
  have ends: "\<forall>r \<in> set (latest_membership demo_store). mr_state r = MActive \<longrightarrow> mr_endpoints r \<noteq> []"
    by (simp add: ms demo_member_def)
  have key: "keyed pc_node_id (as_peer_cache demo_store)" by (simp add: demo_store_def store_empty_def)
  have "run_commands (\<lambda>_. Exit_Success) cs = (map fst cs, Inr ())" for cs by (induction cs) auto
  then have "\<exists>cmds st'. reconcile_once (\<lambda>_. None) (\<lambda>_. []) (\<lambda>_. Exit_Success) (Exit_Success, []) c demo_store = Some (cmds, Inr st')"
    using pc node by (simp add: reconcile_once_def observed_endpoints_def ms plan_reconciliation_def plan_tombstone_def plan_active_def choose_endpoint_def
        bt_values_def demo_member_def next_entry_def replace_peer_cache_def bind_u64_def Let_def)
  then show ?thesis using reconcile_once_converges [OF ends key] by blast
qed

end
