(* ===== verification/Cron_Runs.thy ===== *)
theory Cron_Runs
  imports Runtime
begin

text \<open>
  Scheduled commands: the cron tables of \<^verbatim>\<open>crates/jiji-agent/src/store.rs\<close>, the part of \<^verbatim>\<open>cron_exec.rs\<close> that decides
  and records (names, labels, leases, results, recovery), and the scheduler tick of \<^verbatim>\<open>scheduler.rs\<close>.
  The next occurrence of a schedule is computed by the \<^verbatim>\<open>jiff\<close> packages and is the parameter
  \<open>next_due_at\<close>; the order in which the database lists rows of equal claim time is the
  parameter \<open>newest_first\<close>.
\<close>

section \<open>Specifications\<close>

abbreviation job :: "CronRun \<Rightarrow> string \<times> string" where
  "job run \<equiv> (cx_service run, cx_cron_name run)"

definition cron_spec :: "string \<Rightarrow> string \<Rightarrow> AgentStore \<Rightarrow> CronJobSpec option" where
  "cron_spec service cron_name st = map_option jw_spec (map_of (as_cron_job_specs st) (service, cron_name))"

definition cron_specs :: "AgentStore \<Rightarrow> CronJobSpec list" where
  "cron_specs st = map jw_spec (bt_values (as_cron_job_specs st))"

definition apply_cron_spec :: "CronJobSpec \<Rightarrow> AgentStore \<Rightarrow> CronSpecApplyOutcome \<times> AgentStore" where
  "apply_cron_spec spec st =
     (let existing = map_of (as_cron_job_specs st) (cj_service spec, cj_cron_name spec);
          unchanged = (case existing of
                         None \<Rightarrow> False
                       | Some row \<Rightarrow> jw_revision row = as_i64 (cj_revision spec) \<and> jw_canonical_hash row = cj_canonical_hash spec);
          row = \<lparr>jw_revision = as_i64 (cj_revision spec), jw_canonical_hash = cj_canonical_hash spec, jw_spec = spec\<rparr>
      in (if unchanged then SpecUnchanged spec else if existing \<noteq> None then SpecUpdated spec else SpecInstalled spec,
          st\<lparr>as_cron_job_specs := bt_insert (cj_service spec, cj_cron_name spec) row (as_cron_job_specs st)\<rparr>))"

definition remove_cron_spec :: "string \<Rightarrow> string \<Rightarrow> AgentStore \<Rightarrow> bool \<times> AgentStore" where
  "remove_cron_spec service cron_name st =
     (map_of (as_cron_job_specs st) (service, cron_name) \<noteq> None,
      st\<lparr>as_cron_job_specs := bt_remove (service, cron_name) (as_cron_job_specs st)\<rparr>)"

section \<open>Runs\<close>

fun run_state_text :: "CronRunState \<Rightarrow> string" where
  "run_state_text RunClaimed = ''claimed''"
| "run_state_text Running = ''running''"
| "run_state_text Succeeded = ''succeeded''"
| "run_state_text Failed = ''failed''"
| "run_state_text TimedOut = ''timed_out''"
| "run_state_text Skipped = ''skipped''"

definition row_of_job :: "string \<Rightarrow> string \<Rightarrow> cron_run_row \<Rightarrow> bool" where
  "row_of_job service cron_name row \<longleftrightarrow> cx_service (rw_run row) = service \<and> cx_cron_name (rw_run row) = cron_name"

definition row_active :: "cron_run_row \<Rightarrow> bool" where
  "row_active row \<longleftrightarrow> rw_state row \<in> {''claimed'', ''running''}"

definition row_completed :: "cron_run_row \<Rightarrow> bool" where
  "row_completed row \<longleftrightarrow> rw_state row \<in> {''succeeded'', ''failed'', ''timed_out'', ''skipped''}"

definition cron_run :: "string \<Rightarrow> AgentStore \<Rightarrow> CronRun option" where
  "cron_run run_id st = map_option rw_run (map_of (as_cron_runs st) run_id)"

text \<open>The row that the query for the active run of a job selects, with its key column.\<close>

definition active_row :: "string \<Rightarrow> string \<Rightarrow> AgentStore \<Rightarrow> (string \<times> cron_run_row) option" where
  "active_row service cron_name st =
     find (\<lambda>(_, row). row_of_job service cron_name row \<and> row_active row) (as_cron_runs st)"

definition active_cron_run :: "string \<Rightarrow> string \<Rightarrow> AgentStore \<Rightarrow> CronRun option" where
  "active_cron_run service cron_name st = map_option (rw_run \<circ> snd) (active_row service cron_name st)"

definition bump_skipped_overlap :: "string \<Rightarrow> string \<Rightarrow> AgentStore \<Rightarrow> AgentStore" where
  "bump_skipped_overlap service cron_name st =
     (let row = (case map_of (as_cron_scheduler_state st) (service, cron_name) of
                   None \<Rightarrow> \<lparr>sw_skipped_overlap_count = 1, sw_last_evaluated_at = None, sw_next_due_at = None\<rparr>
                 | Some old \<Rightarrow> old\<lparr>sw_skipped_overlap_count := sw_skipped_overlap_count old + 1\<rparr>)
      in st\<lparr>as_cron_scheduler_state := bt_insert (service, cron_name) row (as_cron_scheduler_state st)\<rparr>)"

definition new_run :: "string \<Rightarrow> string \<Rightarrow> string \<Rightarrow> CronRunCause \<Rightarrow> u64 option \<Rightarrow> string \<Rightarrow> u64 \<Rightarrow> CronRun" where
  "new_run project service cron_name cause scheduled_at run_id timestamp =
     \<lparr>cx_run_id = run_id, cx_project = project, cx_service = service, cx_cron_name = cron_name, cx_cause = cause,
      cx_scheduled_at = scheduled_at, cx_claimed_at = timestamp, cx_started_at = None, cx_finished_at = None,
      cx_state = RunClaimed, cx_deployment_id = None, cx_container_name = None, cx_address = None,
      cx_exit_code = None, cx_error = None\<rparr>"

definition run_row :: "CronRun \<Rightarrow> cron_run_row" where
  "run_row run =
     \<lparr>rw_scheduled_at = map_option as_i64 (cx_scheduled_at run), rw_claimed_at = as_i64 (cx_claimed_at run),
      rw_state = run_state_text (cx_state run), rw_run = run\<rparr>"

text \<open>The run of the same job that was claimed for the same scheduled time.\<close>

definition scheduled_run :: "string \<Rightarrow> string \<Rightarrow> u64 option \<Rightarrow> AgentStore \<Rightarrow> CronRun option" where
  "scheduled_run service cron_name scheduled_at st =
     (case scheduled_at of
        None \<Rightarrow> None
      | Some due \<Rightarrow>
          map_option (rw_run \<circ> snd)
            (find (\<lambda>(_, row). row_of_job service cron_name row \<and> rw_scheduled_at row = Some (as_i64 due)) (as_cron_runs st)))"

definition claim_cron_run ::
  "string \<Rightarrow> string \<Rightarrow> string \<Rightarrow> CronRunCause \<Rightarrow> u64 option \<Rightarrow> string \<Rightarrow> u64 \<Rightarrow> AgentStore \<Rightarrow>
   (StoreError, CronClaimOutcome \<times> AgentStore) result" where
  "claim_cron_run project service cron_name cause scheduled_at run_id timestamp st =
     (case scheduled_run service cron_name scheduled_at st of
        Some existing \<Rightarrow> Inr (DuplicateScheduledClaim existing, st)
      | None \<Rightarrow>
          (case active_row service cron_name st of
             Some (active, _) \<Rightarrow> Inr (OverlapForbidden active, bump_skipped_overlap service cron_name st)
           | None \<Rightarrow>
               (let run = new_run project service cron_name cause scheduled_at run_id timestamp
                in if map_of (as_cron_runs st) run_id \<noteq> None then Inl SDatabase
                   else Inr (ClaimedRun run, st\<lparr>as_cron_runs := as_cron_runs st @ [(run_id, run_row run)]\<rparr>))))"

text \<open>The order in which the database lists the selected rows, newest claim first.\<close>

type_synonym run_order = "(string \<times> cron_run_row) list \<Rightarrow> (string \<times> cron_run_row) list"

definition filter_matches :: "CronRunFilter \<Rightarrow> string \<times> cron_run_row \<Rightarrow> bool" where
  "filter_matches f x =
     ((case cf_service f of None \<Rightarrow> True | Some s \<Rightarrow> cx_service (rw_run (snd x)) = s) \<and>
      (case cf_cron_name f of None \<Rightarrow> True | Some n \<Rightarrow> cx_cron_name (rw_run (snd x)) = n) \<and>
      (case cf_run_id f of None \<Rightarrow> True | Some i \<Rightarrow> fst x = i) \<and>
      (case cf_since f of None \<Rightarrow> True | Some t \<Rightarrow> as_i64 t \<le> rw_claimed_at (snd x)))"

definition cron_runs :: "run_order \<Rightarrow> CronRunFilter \<Rightarrow> AgentStore \<Rightarrow> CronRun list" where
  "cron_runs newest_first f st =
     (let rows = newest_first (filter (filter_matches f) (as_cron_runs st))
      in map (rw_run \<circ> snd) (case cf_limit f of None \<Rightarrow> rows | Some n \<Rightarrow> take (unat n) rows))"

definition update_run :: "string \<Rightarrow> (CronRun \<Rightarrow> CronRun) \<Rightarrow> CronRunState \<Rightarrow> AgentStore \<Rightarrow> bool \<times> AgentStore" where
  "update_run run_id f state st =
     (case cron_run run_id st of
        None \<Rightarrow> (False, st)
      | Some run \<Rightarrow>
          (True, st\<lparr>as_cron_runs :=
             map (\<lambda>(i, row). if i = run_id then (i, row\<lparr>rw_state := run_state_text state, rw_run := f run\<rparr>) else (i, row))
               (as_cron_runs st)\<rparr>))"

definition start_cron_run :: "string \<Rightarrow> u64 \<Rightarrow> string \<Rightarrow> string \<Rightarrow> string \<Rightarrow> AgentStore \<Rightarrow> bool \<times> AgentStore" where
  "start_cron_run run_id started_at deployment_id container_name addr st =
     update_run run_id
       (\<lambda>run. run\<lparr>cx_state := Running, cx_started_at := Some started_at, cx_deployment_id := Some deployment_id,
                  cx_container_name := Some container_name, cx_address := Some addr\<rparr>) Running st"

definition finish_cron_run :: "string \<Rightarrow> CronRunState \<Rightarrow> u64 \<Rightarrow> int option \<Rightarrow> string option \<Rightarrow> AgentStore \<Rightarrow> bool \<times> AgentStore" where
  "finish_cron_run run_id state finished_at exit_code error st =
     update_run run_id
       (\<lambda>run. run\<lparr>cx_state := state, cx_finished_at := Some finished_at, cx_exit_code := exit_code, cx_error := error\<rparr>) state st"

definition cron_scheduler_state :: "string \<Rightarrow> string \<Rightarrow> AgentStore \<Rightarrow> CronSchedulerState option" where
  "cron_scheduler_state service cron_name st =
     map_option (\<lambda>row.
       \<lparr>cs_service = service, cs_cron_name = cron_name, cs_last_evaluated_at = sw_last_evaluated_at row,
        cs_next_due_at = sw_next_due_at row, cs_skipped_overlap_count = of_int (max 0 (sw_skipped_overlap_count row))\<rparr>)
       (map_of (as_cron_scheduler_state st) (service, cron_name))"

definition set_cron_scheduler_state :: "string \<Rightarrow> string \<Rightarrow> u64 option \<Rightarrow> u64 option \<Rightarrow> AgentStore \<Rightarrow> AgentStore" where
  "set_cron_scheduler_state service cron_name last_evaluated_at next_due st =
     (let row = (case map_of (as_cron_scheduler_state st) (service, cron_name) of
                   None \<Rightarrow> \<lparr>sw_skipped_overlap_count = 0, sw_last_evaluated_at = last_evaluated_at, sw_next_due_at = next_due\<rparr>
                 | Some old \<Rightarrow> old\<lparr>sw_last_evaluated_at := last_evaluated_at, sw_next_due_at := next_due\<rparr>)
      in st\<lparr>as_cron_scheduler_state := bt_insert (service, cron_name) row (as_cron_scheduler_state st)\<rparr>)"

text \<open>The completed rows of a job ranked beyond the first \<open>keep_latest\<close>, newest first.\<close>

definition ranked_out :: "run_order \<Rightarrow> nat \<Rightarrow> string \<Rightarrow> string \<Rightarrow> AgentStore \<Rightarrow> string list" where
  "ranked_out newest_first keep_latest service cron_name st =
     map fst
       (drop keep_latest
         (newest_first (filter (\<lambda>(_, row). row_of_job service cron_name row \<and> row_completed row) (as_cron_runs st))))"

definition retain_cron_runs ::
  "run_order \<Rightarrow> u64 \<Rightarrow> u64 \<Rightarrow> u32 \<Rightarrow> AgentStore \<Rightarrow> nat \<times> AgentStore" where
  "retain_cron_runs newest_first now_ts keep_seconds keep_latest st =
     (let cutoff = as_i64 (u64_saturating_sub now_ts keep_seconds);
          gone = (\<lambda>(i, row). row_completed row \<and> rw_claimed_at row < cutoff \<and>
                    i \<in> set (ranked_out newest_first (unat keep_latest) (cx_service (rw_run row)) (cx_cron_name (rw_run row)) st))
      in (length (filter gone (as_cron_runs st)), st\<lparr>as_cron_runs := filter (\<lambda>x. \<not> gone x) (as_cron_runs st)\<rparr>))"

section \<open>The invariant of the run table\<close>

lemma as_i64_eq: "as_i64 a = as_i64 b \<longleftrightarrow> a = b"
  unfolding as_i64_def by (metis scast_eq scast_id)

definition row_job :: "cron_run_row \<Rightarrow> string \<times> string" where
  "row_job row = job (rw_run row)"

definition run_row_ok :: "string \<Rightarrow> cron_run_row \<Rightarrow> bool" where
  "run_row_ok i row \<longleftrightarrow> cx_run_id (rw_run row) = i \<and> rw_state row = run_state_text (cx_state (rw_run row)) \<and>
     rw_scheduled_at row = map_option as_i64 (cx_scheduled_at (rw_run row)) \<and>
     rw_claimed_at row = as_i64 (cx_claimed_at (rw_run row))"

text \<open>
  Keys are unique and the columns repeat the stored run; a job has at most one active row, and at most one
  row for a scheduled time.
\<close>

definition rows_clash :: "cron_run_row \<Rightarrow> cron_run_row \<Rightarrow> bool" where
  "rows_clash r r' \<longleftrightarrow> row_job r = row_job r' \<and>
     (row_active r \<and> row_active r' \<or> rw_scheduled_at r \<noteq> None \<and> rw_scheduled_at r = rw_scheduled_at r')"

lemma rows_clash_sym: "rows_clash r r' \<Longrightarrow> rows_clash r' r"
  by (auto simp: rows_clash_def)

definition runs_inv :: "AgentStore \<Rightarrow> bool" where
  "runs_inv st \<longleftrightarrow> distinct (map fst (as_cron_runs st)) \<and>
     (\<forall>i row. (i, row) \<in> set (as_cron_runs st) \<longrightarrow> run_row_ok i row) \<and>
     (\<forall>i row i' row'. (i, row) \<in> set (as_cron_runs st) \<longrightarrow> (i', row') \<in> set (as_cron_runs st) \<longrightarrow> rows_clash row row' \<longrightarrow> i = i')"

lemma runs_invD:
  assumes "runs_inv st"
  shows "distinct (map fst (as_cron_runs st))"
    and "(i, row) \<in> set (as_cron_runs st) \<Longrightarrow> run_row_ok i row"
    and "(i, row) \<in> set (as_cron_runs st) \<Longrightarrow> (i', row') \<in> set (as_cron_runs st) \<Longrightarrow> rows_clash row row' \<Longrightarrow> i = i'"
  using assms unfolding runs_inv_def by blast+

lemma runs_get: "runs_inv st \<Longrightarrow> map_of (as_cron_runs st) i = Some row \<longleftrightarrow> (i, row) \<in> set (as_cron_runs st)"
  by (simp add: runs_invD(1))

lemma runs_unique: "runs_inv st \<Longrightarrow> (i, row) \<in> set (as_cron_runs st) \<Longrightarrow> (i, row') \<in> set (as_cron_runs st) \<Longrightarrow> row' = row"
  by (metis runs_get option.inject)

lemma runs_inv_empty [simp]: "as_cron_runs st = [] \<Longrightarrow> runs_inv st"
  by (simp add: runs_inv_def)

lemma runs_inv_cong: "as_cron_runs st' = as_cron_runs st \<Longrightarrow> runs_inv st' = runs_inv st"
  by (simp add: runs_inv_def)

lemma row_of_job_eq: "row_of_job s n row \<longleftrightarrow> row_job row = (s, n)"
  by (simp add: row_of_job_def row_job_def)

lemma state_text_active [simp]: "run_state_text s \<in> {''claimed'', ''running''} \<longleftrightarrow> run_is_active s"
  by (cases s) (simp_all add: run_is_active_def)

lemma state_text_completed [simp]:
  "run_state_text s \<in> {''succeeded'', ''failed'', ''timed_out'', ''skipped''} \<longleftrightarrow> \<not> run_is_active s"
  by (cases s) (simp_all add: run_is_active_def)

lemma row_ok_active: "run_row_ok i row \<Longrightarrow> row_active row \<longleftrightarrow> run_is_active (cx_state (rw_run row))"
  unfolding run_row_ok_def row_active_def by (elim conjE) (simp only: state_text_active)

lemma row_ok_completed: "run_row_ok i row \<Longrightarrow> row_completed row \<longleftrightarrow> \<not> row_active row"
  unfolding run_row_ok_def row_active_def row_completed_def by (elim conjE) (simp only: state_text_active state_text_completed)

subsection \<open>Looking up the active and the scheduled run\<close>

lemma active_row_Some:
  "active_row s n st = Some (i, row) \<Longrightarrow> (i, row) \<in> set (as_cron_runs st) \<and> row_job row = (s, n) \<and> row_active row"
  by (auto simp: active_row_def find_Some_iff row_of_job_eq) (metis nth_mem)

lemma active_row_None:
  "active_row s n st = None \<longleftrightarrow> (\<forall>i row. (i, row) \<in> set (as_cron_runs st) \<longrightarrow> row_job row = (s, n) \<longrightarrow> \<not> row_active row)"
  by (auto simp: active_row_def find_None_iff row_of_job_eq)

lemma active_row_eq:
  assumes "runs_inv st"
  shows "active_row s n st = Some (i, row) \<longleftrightarrow> (i, row) \<in> set (as_cron_runs st) \<and> row_job row = (s, n) \<and> row_active row"
proof
  assume r: "(i, row) \<in> set (as_cron_runs st) \<and> row_job row = (s, n) \<and> row_active row"
  then obtain i' row' where a: "active_row s n st = Some (i', row')"
    using active_row_None [of s n st] by (cases "active_row s n st") auto
  note mem = active_row_Some [OF a]
  have "i' = i" using runs_invD(3) [OF assms, of i' row' i row] r mem by (simp add: rows_clash_def)
  moreover have "row' = row" using r mem runs_unique [OF assms] \<open>i' = i\<close> by blast
  ultimately show "active_row s n st = Some (i, row)" using a by simp
qed (rule active_row_Some)

lemma scheduled_run_None:
  "scheduled_run s n (Some t) st = None \<longleftrightarrow>
     (\<forall>i row. (i, row) \<in> set (as_cron_runs st) \<longrightarrow> row_job row = (s, n) \<longrightarrow> rw_scheduled_at row \<noteq> Some (as_i64 t))"
  by (auto simp: scheduled_run_def find_None_iff row_of_job_eq)

lemma scheduled_run_eq:
  assumes inv: "runs_inv st" and mem: "(i, row) \<in> set (as_cron_runs st)" and j: "row_job row = (s, n)"
    and due: "rw_scheduled_at row = Some (as_i64 t)"
  shows "scheduled_run s n (Some t) st = Some (rw_run row)"
proof -
  let ?P = "\<lambda>(_, row). row_of_job s n row \<and> rw_scheduled_at row = Some (as_i64 t)"
  have "find ?P (as_cron_runs st) \<noteq> None" using mem j due by (auto simp: find_None_iff row_of_job_eq)
  then obtain i' row' where f: "find ?P (as_cron_runs st) = Some (i', row')" by auto
  then have m: "(i', row') \<in> set (as_cron_runs st)" "row_job row' = (s, n)" "rw_scheduled_at row' = Some (as_i64 t)"
    by (auto simp: find_Some_iff row_of_job_eq) (metis nth_mem)
  have "i' = i" using runs_invD(3) [OF inv m(1) mem] m(2,3) j due by (simp add: rows_clash_def)
  then have "row' = row" using m(1) mem runs_unique [OF inv] by blast
  then show ?thesis using f by (simp add: scheduled_run_def)
qed

subsection \<open>Every operation keeps the invariant\<close>

lemma runs_inv_append:
  assumes inv: "runs_inv st" and new: "map_of (as_cron_runs st) i = None" and ok: "run_row_ok i row"
    and free: "\<And>i' row'. (i', row') \<in> set (as_cron_runs st) \<Longrightarrow> \<not> rows_clash row' row"
  shows "runs_inv (st\<lparr>as_cron_runs := as_cron_runs st @ [(i, row)]\<rparr>)"
proof -
  have "i \<notin> fst ` set (as_cron_runs st)" using new by (simp add: map_of_eq_None_iff)
  then have "distinct (map fst (as_cron_runs st @ [(i, row)]))" using runs_invD(1) [OF inv] by simp
  moreover have "i1 = i2" if "(i1, r1) \<in> insert (i, row) (set (as_cron_runs st))"
    "(i2, r2) \<in> insert (i, row) (set (as_cron_runs st))" "rows_clash r1 r2" for i1 r1 i2 r2
    using that free rows_clash_sym runs_invD(3) [OF inv] by blast
  moreover have "run_row_ok k r" if "(k, r) \<in> insert (i, row) (set (as_cron_runs st))" for k r
    using that ok runs_invD(2) [OF inv] by blast
  ultimately show ?thesis unfolding runs_inv_def by simp
qed

lemma runs_inv_filter: "runs_inv st \<Longrightarrow> runs_inv (st\<lparr>as_cron_runs := filter P (as_cron_runs st)\<rparr>)"
  unfolding runs_inv_def by (simp add: distinct_map_filter) meson

text \<open>An update of one run that keeps its identity.\<close>

definition keeps_identity :: "(CronRun \<Rightarrow> CronRun) \<Rightarrow> CronRunState \<Rightarrow> bool" where
  "keeps_identity f state \<longleftrightarrow> (\<forall>r. cx_run_id (f r) = cx_run_id r \<and> job (f r) = job r \<and> cx_scheduled_at (f r) = cx_scheduled_at r \<and>
     cx_claimed_at (f r) = cx_claimed_at r \<and> cx_state (f r) = state)"

definition row_update :: "(CronRun \<Rightarrow> CronRun) \<Rightarrow> CronRunState \<Rightarrow> cron_run_row \<Rightarrow> cron_run_row" where
  "row_update f state row = row\<lparr>rw_state := run_state_text state, rw_run := f (rw_run row)\<rparr>"

lemma row_update_facts:
  assumes "keeps_identity f state"
  shows "run_row_ok i row \<Longrightarrow> run_row_ok i (row_update f state row)" "row_job (row_update f state row) = row_job row"
    "rw_scheduled_at (row_update f state row) = rw_scheduled_at row"
    "row_active (row_update f state row) = run_is_active state"
  using assms unfolding row_active_def by (auto simp: run_row_ok_def row_update_def row_job_def keeps_identity_def simp del: insert_iff)

lemma update_run_None: "cron_run i st = None \<Longrightarrow> update_run i f state st = (False, st)"
  by (simp add: update_run_def)

lemma update_run_runs:
  assumes "runs_inv st" "(i, row) \<in> set (as_cron_runs st)"
  shows "update_run i f state st =
    (True, st\<lparr>as_cron_runs := map (\<lambda>(k, r). if k = i then (k, row_update f state r) else (k, r)) (as_cron_runs st)\<rparr>)"
proof -
  have get: "cron_run i st = Some (rw_run row)" using assms runs_get [OF assms(1), of i row] by (simp add: cron_run_def)
  have "(case x of (k, r) \<Rightarrow> if k = i then (k, r\<lparr>rw_state := run_state_text state, rw_run := f (rw_run row)\<rparr>) else (k, r)) =
    (case x of (k, r) \<Rightarrow> if k = i then (k, row_update f state r) else (k, r))" if "x \<in> set (as_cron_runs st)" for x
  proof (cases x)
    case (Pair k r)
    then have "k = i \<Longrightarrow> r = row" using that runs_unique [OF assms] by simp
    then show ?thesis using Pair by (simp add: row_update_def)
  qed
  then show ?thesis unfolding update_run_def get by simp
qed

lemma update_run_cases:
  assumes "runs_inv st"
  obtains (absent) "update_run i f state st = (False, st)" "i \<notin> fst ` set (as_cron_runs st)"
  | (present) row where "(i, row) \<in> set (as_cron_runs st)" "update_run i f state st =
      (True, st\<lparr>as_cron_runs := map (\<lambda>(k, r). if k = i then (k, row_update f state r) else (k, r)) (as_cron_runs st)\<rparr>)"
proof (cases "map_of (as_cron_runs st) i")
  case None
  then show ?thesis using absent update_run_None [of i st f state] by (simp add: cron_run_def map_of_eq_None_iff)
next
  case (Some row)
  then show ?thesis using present update_run_runs [OF assms, of i row] runs_get [OF assms] by blast
qed

lemma update_run_mem:
  assumes inv: "runs_inv st" and upd: "update_run i f state st = (b, st')"
  shows "(k, r) \<in> set (as_cron_runs st') \<longleftrightarrow>
    (\<exists>r0. (k, r0) \<in> set (as_cron_runs st) \<and> r = (if k = i then row_update f state r0 else r0))"
  using inv
proof (cases rule: update_run_cases [where i = i and f = f and state = state])
  case absent
  then show ?thesis using upd by (auto simp: image_iff)
next
  case (present row)
  then show ?thesis using upd by (auto simp: image_iff split: if_splits) force+
qed

lemma update_run_keys:
  assumes inv: "runs_inv st" and upd: "update_run i f state st = (b, st')"
  shows "map fst (as_cron_runs st') = map fst (as_cron_runs st)"
  using inv
proof (cases rule: update_run_cases [where i = i and f = f and state = state])
  case absent
  then show ?thesis using upd by simp
next
  case (present row)
  then show ?thesis using upd by (auto simp: comp_def split_def if_distrib)
qed

lemma runs_inv_update:
  assumes inv: "runs_inv st" and upd: "update_run i f state st = (b, st')" and keep: "keeps_identity f state"
    and act: "\<And>row. run_is_active state \<Longrightarrow> (i, row) \<in> set (as_cron_runs st) \<Longrightarrow> row_active row"
  shows "runs_inv st'"
proof -
  note mem = update_run_mem [OF inv upd] and fact = row_update_facts [OF keep]
  have "i1 = i2" if m: "(i1, r1) \<in> set (as_cron_runs st')" "(i2, r2) \<in> set (as_cron_runs st')" "rows_clash r1 r2" for i1 r1 i2 r2
  proof -
    have orig: "row_job q = row_job p \<and> rw_scheduled_at q = rw_scheduled_at p \<and> (row_active q \<longrightarrow> row_active p)"
      if "(k, p) \<in> set (as_cron_runs st)" "q = (if k = i then row_update f state p else p)" for k p q
      using that act fact(2-4) by (cases "k = i") auto
    obtain p1 p2 where p: "(i1, p1) \<in> set (as_cron_runs st)" "(i2, p2) \<in> set (as_cron_runs st)"
      "r1 = (if i1 = i then row_update f state p1 else p1)" "r2 = (if i2 = i then row_update f state p2 else p2)"
      using m(1,2) mem by blast
    have "rows_clash p1 p2" using m(3) orig [OF p(1,3)] orig [OF p(2,4)] by (auto simp: rows_clash_def)
    then show ?thesis using runs_invD(3) [OF inv p(1,2)] by blast
  qed
  moreover have "run_row_ok k r" if "(k, r) \<in> set (as_cron_runs st')" for k r
    using that mem runs_invD(2) [OF inv] fact(1) by auto
  ultimately show ?thesis using update_run_keys [OF inv upd] runs_invD(1) [OF inv] unfolding runs_inv_def by auto
qed

lemma start_keeps_identity:
  "keeps_identity (\<lambda>run. run\<lparr>cx_state := Running, cx_started_at := a, cx_deployment_id := b, cx_container_name := c, cx_address := d\<rparr>) Running"
  by (simp add: keeps_identity_def)

lemma finish_keeps_identity:
  "keeps_identity (\<lambda>run. run\<lparr>cx_state := state, cx_finished_at := a, cx_exit_code := b, cx_error := c\<rparr>) state"
  by (simp add: keeps_identity_def)

lemma run_row_new:
  "run_row_ok i (run_row (new_run p s n cause due i t))" "row_job (run_row (new_run p s n cause due i t)) = (s, n)"
  "row_active (run_row (new_run p s n cause due i t))" "rw_scheduled_at (run_row (new_run p s n cause due i t)) = map_option as_i64 due"
  by (simp_all add: run_row_ok_def run_row_def new_run_def row_job_def row_active_def)

lemma as_cron_runs_bump [simp]: "as_cron_runs (bump_skipped_overlap s n st) = as_cron_runs st"
  by (simp add: bump_skipped_overlap_def Let_def)

text \<open>The four ways a claim ends.\<close>

lemma claim_cases:
  obtains (duplicate) t run where "due = Some t" "scheduled_run s n due st = Some run"
      "claim_cron_run p s n cause due i ts st = Inr (DuplicateScheduledClaim run, st)"
  | (overlap) k row where "scheduled_run s n due st = None" "active_row s n st = Some (k, row)"
      "claim_cron_run p s n cause due i ts st = Inr (OverlapForbidden k, bump_skipped_overlap s n st)"
  | (taken) "scheduled_run s n due st = None" "active_row s n st = None" "map_of (as_cron_runs st) i \<noteq> None"
      "claim_cron_run p s n cause due i ts st = Inl SDatabase"
  | (claimed) "scheduled_run s n due st = None" "active_row s n st = None" "map_of (as_cron_runs st) i = None"
      "claim_cron_run p s n cause due i ts st =
         Inr (ClaimedRun (new_run p s n cause due i ts),
              st\<lparr>as_cron_runs := as_cron_runs st @ [(i, run_row (new_run p s n cause due i ts))]\<rparr>)"
proof (cases "scheduled_run s n due st")
  case (Some run)
  moreover obtain t where "due = Some t" using Some by (cases due) (auto simp: scheduled_run_def)
  ultimately show ?thesis using duplicate by (simp add: claim_cron_run_def)
next
  case none: None
  show ?thesis
  proof (cases "active_row s n st")
    case (Some x)
    then show ?thesis using none overlap [of "fst x" "snd x"] by (cases x) (simp add: claim_cron_run_def)
  next
    case None
    then show ?thesis using none taken claimed
      by (cases "map_of (as_cron_runs st) i") (simp_all add: claim_cron_run_def Let_def)
  qed
qed

lemma claim_free:
  assumes "scheduled_run s n due st = None" "active_row s n st = None" "(k, r) \<in> set (as_cron_runs st)"
  shows "\<not> rows_clash r (run_row (new_run p s n cause due i ts))"
proof
  assume c: "rows_clash r (run_row (new_run p s n cause due i ts))"
  then have j: "row_job r = (s, n)" by (simp add: rows_clash_def run_row_new)
  have "\<not> row_active r" using assms(2,3) j unfolding active_row_None by blast
  then obtain t where "due = Some t" "rw_scheduled_at r = Some (as_i64 t)" using c by (cases due) (auto simp: rows_clash_def run_row_new)
  then show False using assms(1,3) j scheduled_run_None [of s n t st] by blast
qed

lemma runs_inv_claim:
  assumes "runs_inv st" "claim_cron_run p s n cause due i ts st = Inr (out, st')"
  shows "runs_inv st'"
proof (cases rule: claim_cases [of due s n st p cause i ts])
  case claimed
  then show ?thesis using assms runs_inv_append [OF assms(1) _ run_row_new(1) claim_free] by auto
next
  case (overlap k row)
  then show ?thesis using assms runs_inv_cong [of st' st] by simp
qed (use assms in auto)

section \<open>Retention\<close>

text \<open>What the database promises of an ordered query: the same rows, newest claim first.\<close>

definition newest_order :: "run_order \<Rightarrow> bool" where
  "newest_order newest_first \<longleftrightarrow> (\<forall>xs. mset (newest_first xs) = mset xs \<and>
     sorted_wrt (\<lambda>x y. rw_claimed_at (snd y) \<le> rw_claimed_at (snd x)) (newest_first xs))"

lemma newest_order_sort: "newest_order (sort_key (\<lambda>x. - rw_claimed_at (snd x)))"
proof -
  have "sorted_wrt (\<lambda>x y. rw_claimed_at (snd y) \<le> rw_claimed_at (snd x)) (sort_key (\<lambda>x. - rw_claimed_at (snd x)) xs)"
    for xs :: "(string \<times> cron_run_row) list"
    using sorted_sort_key [of "\<lambda>x. - rw_claimed_at (snd x)" xs] by (simp add: sorted_map)
  then show ?thesis by (simp add: newest_order_def)
qed

definition completed_of :: "string \<times> string \<Rightarrow> AgentStore \<Rightarrow> (string \<times> cron_run_row) list" where
  "completed_of j st = filter (\<lambda>(_, row). row_job row = j \<and> row_completed row) (as_cron_runs st)"

lemma ranked_out_eq:
  "ranked_out newest_first k s n st = map fst (drop k (newest_first (completed_of (s, n) st)))"
  unfolding ranked_out_def completed_of_def by (simp only: row_of_job_eq)

text \<open>A row is ranked out exactly when it is in the tail of the order.\<close>

lemma ranked_out_mem:
  assumes inv: "runs_inv st" and ord: "newest_order newest_first" and x: "(i, row) \<in> set (completed_of j st)"
  shows "i \<in> set (map fst (drop k (newest_first (completed_of j st)))) \<longleftrightarrow> (i, row) \<in> set (drop k (newest_first (completed_of j st)))"
proof
  have same: "set (newest_first (completed_of j st)) = set (completed_of j st)"
    using ord unfolding newest_order_def by (metis set_mset_mset)
  assume "i \<in> set (map fst (drop k (newest_first (completed_of j st))))"
  then obtain row' where m: "(i, row') \<in> set (drop k (newest_first (completed_of j st)))" by auto
  then have "(i, row') \<in> set (completed_of j st)" using same in_set_dropD by fast
  then have "row' = row" using x runs_unique [OF inv] by (auto simp: completed_of_def)
  then show "(i, row) \<in> set (drop k (newest_first (completed_of j st)))" using m by simp
qed force

lemma retain_mem:
  assumes inv: "runs_inv st" and ord: "newest_order newest_first"
    and run: "retain_cron_runs newest_first now keep latest st = (removed, st')"
  shows "(i, row) \<in> set (as_cron_runs st') \<longleftrightarrow> (i, row) \<in> set (as_cron_runs st) \<and>
    \<not> (row_completed row \<and> rw_claimed_at row < as_i64 (u64_saturating_sub now keep) \<and>
       (i, row) \<in> set (drop (unat latest) (newest_first (completed_of (row_job row) st))))"
proof -
  have "row_completed row \<Longrightarrow> (i, row) \<in> set (as_cron_runs st) \<Longrightarrow>
    i \<in> set (ranked_out newest_first (unat latest) (cx_service (rw_run row)) (cx_cron_name (rw_run row)) st) \<longleftrightarrow>
    (i, row) \<in> set (drop (unat latest) (newest_first (completed_of (row_job row) st)))"
    unfolding ranked_out_eq row_job_def [symmetric] by (rule ranked_out_mem [OF inv ord]) (simp add: completed_of_def)
  then show ?thesis using run by (auto simp: retain_cron_runs_def Let_def)
qed

subsection \<open>Ranks\<close>

lemma newest_split:
  assumes inv: "runs_inv st" and ord: "newest_order newest_first"
  shows "set (newest_first (completed_of j st)) = set (completed_of j st)" "distinct (newest_first (completed_of j st))"
    "x \<in> set (take k (newest_first (completed_of j st))) \<Longrightarrow> x \<notin> set (drop k (newest_first (completed_of j st)))"
    "x \<in> set (take k (newest_first (completed_of j st))) \<Longrightarrow> y \<in> set (drop k (newest_first (completed_of j st))) \<Longrightarrow>
      rw_claimed_at (snd y) \<le> rw_claimed_at (snd x)"
proof -
  let ?L = "newest_first (completed_of j st)"
  have m: "mset ?L = mset (completed_of j st)" using ord by (simp add: newest_order_def)
  then show "set ?L = set (completed_of j st)" by (metis set_mset_mset)
  have "distinct (completed_of j st)"
    using runs_invD(1) [OF inv] by (simp add: completed_of_def distinct_map)
  then show d: "distinct ?L" using m mset_eq_imp_distinct_iff by blast
  show "x \<notin> set (drop k ?L)" if "x \<in> set (take k ?L)"
    using that set_take_disj_set_drop_if_distinct [OF d order.refl, of k] by auto
  show "rw_claimed_at (snd y) \<le> rw_claimed_at (snd x)" if "x \<in> set (take k ?L)" "y \<in> set (drop k ?L)"
  proof -
    have "sorted_wrt (\<lambda>x y. rw_claimed_at (snd y) \<le> rw_claimed_at (snd x)) (take k ?L @ drop k ?L)"
      using ord by (simp add: newest_order_def)
    then show ?thesis using that unfolding sorted_wrt_append by blast
  qed
qed

lemma retained_after:
  assumes inv: "runs_inv st" and ord: "newest_order newest_first"
    and run: "retain_cron_runs newest_first now keep latest st = (removed, st')"
  shows "\<forall>(i, row) \<in> set (as_cron_runs st) - set (as_cron_runs st').
    row_completed row \<and> rw_claimed_at row < as_i64 (u64_saturating_sub now keep) \<and>
    unat latest \<le> card {(k, r) \<in> set (as_cron_runs st'). row_job r = row_job row \<and> row_completed r \<and> rw_claimed_at row \<le> rw_claimed_at r}"
proof clarify
  fix i row assume x: "(i, row) \<in> set (as_cron_runs st)" "(i, row) \<notin> set (as_cron_runs st')"
  let ?L = "newest_first (completed_of (row_job row) st)"
  let ?S = "{(k, r) \<in> set (as_cron_runs st'). row_job r = row_job row \<and> row_completed r \<and> rw_claimed_at row \<le> rw_claimed_at r}"
  note mem = retain_mem [OF inv ord run] and split = newest_split [OF inv ord]
  have out: "row_completed row" "rw_claimed_at row < as_i64 (u64_saturating_sub now keep)" "(i, row) \<in> set (drop (unat latest) ?L)"
    using x mem by blast+
  have "(k, r) \<in> ?S" if t: "(k, r) \<in> set (take (unat latest) ?L)" for k r
  proof -
    have "(k, r) \<in> set (completed_of (row_job row) st)" using t split(1) in_set_takeD by fast
    then have r: "(k, r) \<in> set (as_cron_runs st)" "row_job r = row_job row" "row_completed r" by (auto simp: completed_of_def)
    then have "(k, r) \<in> set (as_cron_runs st')" using mem split(3) [OF t] by simp
    then show ?thesis using r split(4) [OF t out(3)] by simp
  qed
  then have "set (take (unat latest) ?L) \<subseteq> ?S" by (rule subrelI)
  moreover have "finite ?S" by (rule finite_subset [of _ "set (as_cron_runs st')"]) auto
  ultimately have "card (set (take (unat latest) ?L)) \<le> card ?S" using card_mono by blast
  moreover have "unat latest < length ?L" using out(3) by (cases "unat latest < length ?L") auto
  ultimately show "row_completed row \<and> rw_claimed_at row < as_i64 (u64_saturating_sub now keep) \<and> unat latest \<le> card ?S"
    using out split(2) [of "row_job row"] by (simp add: distinct_card)
qed

lemma retained_before:
  assumes inv: "runs_inv st" and ord: "newest_order newest_first"
    and run: "retain_cron_runs newest_first now keep latest st = (removed, st')"
  shows "\<forall>j. card {(k, r) \<in> set (as_cron_runs st'). row_job r = j \<and> row_completed r \<and>
    rw_claimed_at r < as_i64 (u64_saturating_sub now keep)} \<le> unat latest"
proof
  fix j
  let ?L = "newest_first (completed_of j st)"
  have "(k, r) \<in> set (take (unat latest) ?L)" if "(k, r) \<in> set (as_cron_runs st')" "row_job r = j" "row_completed r"
    "rw_claimed_at r < as_i64 (u64_saturating_sub now keep)" for k r
  proof -
    have "(k, r) \<in> set (as_cron_runs st)" and out: "(k, r) \<notin> set (drop (unat latest) ?L)"
      using that retain_mem [OF inv ord run, of k r] by auto
    then have "(k, r) \<in> set (take (unat latest) ?L @ drop (unat latest) ?L)"
      using that newest_split(1) [OF inv ord, of j] by (simp add: completed_of_def)
    then show ?thesis using out by (simp only: set_append) blast
  qed
  then have "{(k, r) \<in> set (as_cron_runs st'). row_job r = j \<and> row_completed r \<and>
    rw_claimed_at r < as_i64 (u64_saturating_sub now keep)} \<subseteq> set (take (unat latest) ?L)" by auto
  then show "card {(k, r) \<in> set (as_cron_runs st'). row_job r = j \<and> row_completed r \<and>
    rw_claimed_at r < as_i64 (u64_saturating_sub now keep)} \<le> unat latest"
    using card_mono [OF finite_set] card_length [of "take (unat latest) ?L"] by (metis (no_types, lifting) length_take min.bounded_iff order.trans)
qed

section \<open>Jobs as locks\<close>

text \<open>The abstract view of the run table: which run holds each job.\<close>

definition job_lock :: "AgentStore \<Rightarrow> string \<times> string \<Rightarrow> string option" where
  "job_lock st j = map_option fst (active_row (fst j) (snd j) st)"

lemma job_lock_cong: "as_cron_runs st' = as_cron_runs st \<Longrightarrow> job_lock st' = job_lock st"
  by (rule ext) (simp add: job_lock_def active_row_def)

lemma job_lock_Some:
  assumes "runs_inv st"
  shows "job_lock st j = Some i \<longleftrightarrow> (\<exists>row. (i, row) \<in> set (as_cron_runs st) \<and> row_job row = j \<and> row_active row)"
proof -
  have "job_lock st j = Some i \<longleftrightarrow> (\<exists>row. active_row (fst j) (snd j) st = Some (i, row))"
    unfolding job_lock_def by (cases "active_row (fst j) (snd j) st") auto
  also have "\<dots> \<longleftrightarrow> (\<exists>row. (i, row) \<in> set (as_cron_runs st) \<and> row_job row = j \<and> row_active row)"
    unfolding active_row_eq [OF assms] prod.collapse ..
  finally show ?thesis .
qed

lemma job_lock_eqI:
  assumes "runs_inv st" "runs_inv st'"
    and "\<And>i. (\<exists>row. (i, row) \<in> set (as_cron_runs st') \<and> row_job row = j \<and> row_active row) \<longleftrightarrow>
      (\<exists>row. (i, row) \<in> set (as_cron_runs st) \<and> row_job row = j \<and> row_active row)"
  shows "job_lock st' j = job_lock st j"
proof -
  have "job_lock st' j = Some i \<longleftrightarrow> job_lock st j = Some i" for i
    unfolding job_lock_Some [OF assms(1)] job_lock_Some [OF assms(2)] by (rule assms(3))
  then show ?thesis by (metis option.exhaust)
qed

lemma job_lock_claim:
  assumes inv: "runs_inv st" and claimed: "scheduled_run s n due st = None" "active_row s n st = None" "map_of (as_cron_runs st) i = None"
  shows "job_lock (st\<lparr>as_cron_runs := as_cron_runs st @ [(i, run_row (new_run p s n cause due i ts))]\<rparr>) = (job_lock st)((s, n) \<mapsto> i)"
    (is "job_lock ?st = _")
proof
  fix j
  have inv': "runs_inv ?st" by (rule runs_inv_append [OF inv claimed(3) run_row_new(1)]) (rule claim_free [OF claimed(1,2)])
  show "job_lock ?st j = ((job_lock st)((s, n) \<mapsto> i)) j"
  proof (cases "j = (s, n)")
    case True
    have "job_lock ?st j = Some i" unfolding job_lock_Some [OF inv'] using True run_row_new(2,3) [of p s n cause due i ts] by auto
    then show ?thesis using True by simp
  next
    case False
    have "job_lock ?st j = job_lock st j" by (rule job_lock_eqI [OF inv inv']) (use False in \<open>auto simp: run_row_new\<close>)
    then show ?thesis using False by simp
  qed
qed

section \<open>Properties\<close>

text \<open>C35. A claim treats a job as a lock. It never disturbs other jobs and keeps the table consistent. A new run
  is claimed only when no run holds the job; it then holds the job, and claiming the same scheduled time
  again, under any identifier, returns that run and changes nothing. A claim that meets an active run names
  it and leaves the runs as they are; the only failure is a run identifier that is already in use.\<close>

theorem claim_refines_lock:
  assumes inv: "runs_inv st"
  shows "case claim_cron_run p s n cause due i ts st of
      Inl e \<Rightarrow> e = SDatabase \<and> job_lock st (s, n) = None \<and> cron_run i st \<noteq> None
    | Inr (out, st') \<Rightarrow> runs_inv st' \<and>
        (case out of
           ClaimedRun run \<Rightarrow> job_lock st (s, n) = None \<and> job_lock st' = (job_lock st)((s, n) \<mapsto> i) \<and>
             cron_run i st = None \<and> cron_run i st' = Some run \<and> run = new_run p s n cause due i ts \<and>
             (due \<noteq> None \<longrightarrow> (\<forall>i' ts'. claim_cron_run p s n cause due i' ts' st' = Inr (DuplicateScheduledClaim run, st')))
         | OverlapForbidden k \<Rightarrow> job_lock st (s, n) = Some k \<and> as_cron_runs st' = as_cron_runs st
         | DuplicateScheduledClaim run \<Rightarrow> st' = st \<and> due \<noteq> None \<and> cx_scheduled_at run = due \<and> job run = (s, n) \<and>
             cron_run (cx_run_id run) st = Some run)"
proof (cases rule: claim_cases [of due s n st p cause i ts])
  case (duplicate t run)
  obtain k row where f: "(k, row) \<in> set (as_cron_runs st)" "row_job row = (s, n)" "rw_scheduled_at row = Some (as_i64 t)" "rw_run row = run"
  proof -
    obtain x where x: "find (\<lambda>(_, row). row_of_job s n row \<and> rw_scheduled_at row = Some (as_i64 t)) (as_cron_runs st) = Some x"
      "rw_run (snd x) = run" using duplicate by (auto simp: scheduled_run_def)
    then show ?thesis using that [of "fst x" "snd x"] by (cases x) (auto simp: find_Some_iff row_of_job_eq, metis nth_mem)
  qed
  have ok: "run_row_ok k row" by (rule runs_invD(2) [OF inv f(1)])
  have "map_option as_i64 (cx_scheduled_at run) = Some (as_i64 t)" using ok f(3,4) by (simp add: run_row_ok_def)
  then have "cx_scheduled_at run = due" using duplicate(1) by (auto simp: as_i64_eq)
  moreover have "cron_run (cx_run_id run) st = Some run" "job run = (s, n)"
    using ok f runs_get [OF inv, of k row] by (auto simp: run_row_ok_def cron_run_def row_job_def)
  ultimately show ?thesis using duplicate inv by simp
next
  case (overlap k row)
  have "job_lock st (s, n) = Some k" using overlap(2) by (simp add: job_lock_def)
  then show ?thesis using overlap(3) inv runs_inv_cong [of "bump_skipped_overlap s n st" st] by simp
next
  case taken
  then show ?thesis by (simp add: job_lock_def cron_run_def)
next
  case claimed
  let ?r = "new_run p s n cause due i ts"
  let ?st = "st\<lparr>as_cron_runs := as_cron_runs st @ [(i, run_row ?r)]\<rparr>"
  have inv': "runs_inv ?st" by (rule runs_inv_claim [OF inv claimed(4)])
  have again: "claim_cron_run p s n cause due i' ts' ?st = Inr (DuplicateScheduledClaim ?r, ?st)" if "due = Some t" for t i' ts'
  proof -
    have "scheduled_run s n (Some t) ?st = Some (rw_run (run_row ?r))"
      by (rule scheduled_run_eq [OF inv']) (use that in \<open>auto simp: run_row_new\<close>)
    then show ?thesis using that by (simp add: claim_cron_run_def run_row_def)
  qed
  have "map_of (as_cron_runs ?st) i = Some (run_row ?r)" using claimed(3) by (simp add: map_add_def)
  then have "cron_run i ?st = Some ?r" by (simp add: cron_run_def run_row_def)
  then show ?thesis using claimed inv' again job_lock_claim [OF inv claimed(1-3)]
    by (auto simp: job_lock_def cron_run_def)
qed

theorem claim_refines_lock_witness:
  "\<exists>st'. claim_cron_run ''p'' ''web'' ''sync'' Scheduled (Some 60) ''r1'' 61 store_empty =
      Inr (ClaimedRun (new_run ''p'' ''web'' ''sync'' Scheduled (Some 60) ''r1'' 61), st') \<and>
    job_lock st' (''web'', ''sync'') = Some ''r1'' \<and>
    claim_cron_run ''p'' ''web'' ''sync'' Scheduled (Some 60) ''r2'' 62 st' =
      Inr (DuplicateScheduledClaim (new_run ''p'' ''web'' ''sync'' Scheduled (Some 60) ''r1'' 61), st')"
proof -
  let ?r = "new_run ''p'' ''web'' ''sync'' Scheduled (Some 60) ''r1'' 61"
  have runs: "as_cron_runs store_empty = []" by (simp add: store_empty_def)
  then have "claim_cron_run ''p'' ''web'' ''sync'' Scheduled (Some 60) ''r1'' 61 store_empty =
      Inr (ClaimedRun ?r, store_empty\<lparr>as_cron_runs := [(''r1'', run_row ?r)]\<rparr>)"
    by (simp add: claim_cron_run_def scheduled_run_def active_row_def Let_def)
  then show ?thesis
    using claim_refines_lock [where st = store_empty and p = "''p''" and s = "''web''" and n = "''sync''" and cause = Scheduled
      and due = "Some 60" and i = "''r1''" and ts = 61] runs by auto
qed

text \<open>C38. Retention removes history and nothing else. With rows listed newest first, it keeps the table
  consistent and every active run; each run it removes is completed, was claimed before the cutoff, and is
  outlived by at least \<open>keep_latest\<close> completed runs of its job that are at least as new. Conversely,
  at most \<open>keep_latest\<close> completed runs of a job claimed before the cutoff remain.\<close>

theorem retention_safe_and_complete:
  assumes inv: "runs_inv st" and ord: "newest_order newest_first"
    and run: "retain_cron_runs newest_first now keep latest st = (removed, st')"
  shows "runs_inv st' \<and> job_lock st' = job_lock st \<and> set (as_cron_runs st') \<subseteq> set (as_cron_runs st) \<and>
    length (as_cron_runs st') + removed = length (as_cron_runs st) \<and>
    (\<forall>(i, row) \<in> set (as_cron_runs st) - set (as_cron_runs st').
       row_completed row \<and> rw_claimed_at row < as_i64 (u64_saturating_sub now keep) \<and>
       unat latest \<le> card {(k, r) \<in> set (as_cron_runs st'). row_job r = row_job row \<and> row_completed r \<and> rw_claimed_at row \<le> rw_claimed_at r}) \<and>
    (\<forall>j. card {(k, r) \<in> set (as_cron_runs st'). row_job r = j \<and> row_completed r \<and>
              rw_claimed_at r < as_i64 (u64_saturating_sub now keep)} \<le> unat latest)"
proof -
  note mem = retain_mem [OF inv ord run]
  obtain P where st': "st' = st\<lparr>as_cron_runs := filter P (as_cron_runs st)\<rparr>" and "removed = length (filter (\<lambda>x. \<not> P x) (as_cron_runs st))"
    using run by (auto simp: retain_cron_runs_def Let_def)
  then have count: "length (as_cron_runs st') + removed = length (as_cron_runs st)" by (simp add: sum_length_filter_compl)
  have inv': "runs_inv st'" unfolding st' by (rule runs_inv_filter [OF inv])
  have lock: "job_lock st' = job_lock st"
    by (rule ext, rule job_lock_eqI [OF inv inv']) (metis mem row_ok_completed runs_invD(2) [OF inv])
  have sub: "set (as_cron_runs st') \<subseteq> set (as_cron_runs st)" unfolding st' by auto
  show ?thesis using inv' lock sub count retained_after [OF inv ord run] retained_before [OF inv ord run] by blast
qed

theorem retention_safe_and_complete_witness:
  "\<exists>removed st'. retain_cron_runs (sort_key (\<lambda>x. - rw_claimed_at (snd x))) 100 10 1
      (store_empty\<lparr>as_cron_runs :=
         map (\<lambda>(i, t). (i, run_row ((new_run ''p'' ''web'' ''sync'' Manual None i t)\<lparr>cx_state := Succeeded\<rparr>))) [(''a'', 1), (''b'', 2)]\<rparr>) =
      (removed, st') \<and> length (as_cron_runs st') + removed = 2 \<and> card {(k, r) \<in> set (as_cron_runs st'). row_job r = (''web'', ''sync'') \<and>
        row_completed r \<and> rw_claimed_at r < as_i64 (u64_saturating_sub 100 10)} \<le> 1"
proof -
  let ?rows = "map (\<lambda>(i, t). (i, run_row ((new_run ''p'' ''web'' ''sync'' Manual None i t)\<lparr>cx_state := Succeeded\<rparr>))) [(''a'', 1), (''b'', 2)]"
  let ?st = "store_empty\<lparr>as_cron_runs := ?rows\<rparr>" and ?o = "sort_key (\<lambda>x :: string \<times> cron_run_row. - rw_claimed_at (snd x))"
  have ord: "newest_order ?o" by (rule newest_order_sort)
  have inv: "runs_inv ?st"
    by (auto simp: runs_inv_def rows_clash_def run_row_ok_def run_row_def new_run_def row_active_def)
  obtain removed st' where run: "retain_cron_runs ?o 100 10 1 ?st = (removed, st')" by fastforce
  show ?thesis using run retention_safe_and_complete [OF inv ord run] by auto
qed

end
