(* ===== verification/Service_Runtime.thy ===== *)
theory Service_Runtime
  imports Planner
begin

text \<open>
  The container run command, \<^verbatim>\<open>crates/jiji-network/src/service_runtime.rs\<close>: its arguments for each kind of network,
  and its rendering as one line for a remote shell. The rendering is proved against the quoting rules of
  the shell: the line is split back into exactly the arguments.
\<close>

section \<open>Arguments\<close>

datatype NetworkTarget = NetBridge | SharedContainer string | NetHost

record NetworkedContainerRun =
  nr_engine :: ContainerEngine
  nr_container_name :: string
  nr_image :: string
  nr_address :: Ipv4Addr
  nr_dns_address :: Ipv4Addr
  nr_bridge_name :: string
  nr_bridge_interface :: string
  nr_network_target :: NetworkTarget
  nr_extra_args :: "string list"
  nr_command :: "string list"

definition DEFAULT_SERVICE_DOMAIN :: string where
  "DEFAULT_SERVICE_DOMAIN = ''jiji''"

definition run_dynamic :: "ContainerEngine \<Rightarrow> string \<Rightarrow> string \<Rightarrow> Ipv4Addr \<Rightarrow> ServerPlan \<Rightarrow> NetworkedContainerRun" where
  "run_dynamic engine container_name img a server =
     \<lparr>nr_engine = engine, nr_container_name = container_name, nr_image = img, nr_address = a,
      nr_dns_address = sp_dns_address server, nr_bridge_name = sp_bridge_name server,
      nr_bridge_interface = sp_bridge_interface server, nr_network_target = NetBridge, nr_extra_args = [], nr_command = []\<rparr>"

definition run_shared ::
  "ContainerEngine \<Rightarrow> string \<Rightarrow> string \<Rightarrow> string \<Rightarrow> Ipv4Addr \<Rightarrow> ServerPlan \<Rightarrow> NetworkedContainerRun" where
  "run_shared engine container_name img target_container a server =
     \<lparr>nr_engine = engine, nr_container_name = container_name, nr_image = img, nr_address = a,
      nr_dns_address = sp_dns_address server, nr_bridge_name = sp_bridge_name server,
      nr_bridge_interface = sp_bridge_interface server, nr_network_target = SharedContainer target_container,
      nr_extra_args = [], nr_command = []\<rparr>"

definition run_host :: "ContainerEngine \<Rightarrow> string \<Rightarrow> string \<Rightarrow> Ipv4Addr \<Rightarrow> ServerPlan \<Rightarrow> NetworkedContainerRun" where
  "run_host engine container_name img a server =
     \<lparr>nr_engine = engine, nr_container_name = container_name, nr_image = img, nr_address = a,
      nr_dns_address = sp_dns_address server, nr_bridge_name = sp_bridge_name server,
      nr_bridge_interface = sp_bridge_interface server, nr_network_target = NetHost, nr_extra_args = [], nr_command = []\<rparr>"

definition dns_args :: "NetworkedContainerRun \<Rightarrow> string list" where
  "dns_args r =
     [''--dns'', show_ipv4 (nr_dns_address r), ''--dns-search'', DEFAULT_SERVICE_DOMAIN, ''--dns-option'', ''ndots:1'']"

definition run_args :: "NetworkedContainerRun \<Rightarrow> string list" where
  "run_args r =
     [show_ContainerEngine (nr_engine r), ''run'', ''--name'', nr_container_name r] @
     (case nr_network_target r of
        SharedContainer target \<Rightarrow> [''--network'', ''container:'' @ target]
      | NetBridge \<Rightarrow> [''--network'', nr_bridge_name r, ''--ip'', show_ipv4 (nr_address r)] @ dns_args r
      | NetHost \<Rightarrow> [''--network'', ''host''] @ dns_args r) @
     nr_extra_args r @ [nr_image r] @ nr_command r"

section \<open>The command line\<close>

definition plain_char :: "char \<Rightarrow> bool" where
  "plain_char c \<longleftrightarrow> is_ascii_alphanumeric c \<or> c \<in> set ''_-./:@''"

definition shell_escape :: "string \<Rightarrow> string" where
  "shell_escape value =
     (if value \<noteq> [] \<and> list_all plain_char value then value
      else [CHR 0x27] @ concat (map (\<lambda>c. if c = CHR 0x27 then [CHR 0x27, CHR 0x5C, CHR 0x27, CHR 0x27] else [c]) value) @ [CHR 0x27])"

definition shell_command :: "NetworkedContainerRun \<Rightarrow> string" where
  "shell_command r = join '' '' (map shell_escape (run_args r))"

section \<open>The quoting rules of the shell\<close>

text \<open>
  How a POSIX shell splits a line into words, as far as blanks, single quotes and backslashes go. A character
  that may start any other construct (expansion, redirection, pattern, comment, double quotes, assignment) or
  a line end makes the result \<open>None\<close>, as do an open quote, a trailing backslash and a null character.
\<close>

datatype sh_mode = Plain | Quoted | Escaped

definition sh_literal :: "char \<Rightarrow> bool" where
  "sh_literal c \<longleftrightarrow> is_ascii_alphanumeric c \<or> c \<in> set ''_-./:@%+,''"

definition word_of :: "string option \<Rightarrow> string" where
  "word_of cur = (case cur of None \<Rightarrow> [] | Some w \<Rightarrow> w)"

fun sh_split :: "sh_mode \<Rightarrow> string option \<Rightarrow> string \<Rightarrow> string list option" where
  "sh_split Plain cur [] = Some (case cur of None \<Rightarrow> [] | Some w \<Rightarrow> [w])"
| "sh_split Quoted cur [] = None"
| "sh_split Escaped cur [] = None"
| "sh_split Plain cur (c # s) =
     (if c = CHR 0x20 then map_option (\<lambda>ws. (case cur of None \<Rightarrow> [] | Some w \<Rightarrow> [w]) @ ws) (sh_split Plain None s)
      else if c = CHR 0x27 then sh_split Quoted (Some (word_of cur)) s
      else if c = CHR 0x5C then sh_split Escaped (Some (word_of cur)) s
      else if sh_literal c then sh_split Plain (Some (word_of cur @ [c])) s
      else None)"
| "sh_split Quoted cur (c # s) =
     (if c = CHR 0x27 then sh_split Plain (Some (word_of cur)) s
      else if c = CHR 0x00 then None
      else sh_split Quoted (Some (word_of cur @ [c])) s)"
| "sh_split Escaped cur (c # s) =
     (if c = CHR 0x0A \<or> c = CHR 0x00 then None else sh_split Plain (Some (word_of cur @ [c])) s)"

lemma word_of_Some [simp]: "word_of (Some w) = w" "word_of None = []"
  by (simp_all add: word_of_def)

lemma plain_char_literal:
  assumes "plain_char c"
  shows "sh_literal c" "c \<noteq> CHR 0x20" "c \<noteq> CHR 0x27" "c \<noteq> CHR 0x5C"
  using assms by (auto simp: plain_char_def sh_literal_def is_ascii_alphanumeric_def is_ascii_digit_def is_ascii_lowercase_def is_ascii_uppercase_def)

lemma sh_split_plain:
  "list_all plain_char a \<Longrightarrow> a \<noteq> [] \<Longrightarrow> sh_split Plain cur (a @ rest) = sh_split Plain (Some (word_of cur @ a)) rest"
proof (induction a arbitrary: cur)
  case (Cons c a)
  then have "sh_split Plain cur ((c # a) @ rest) = sh_split Plain (Some (word_of cur @ [c])) (a @ rest)"
    by (simp add: plain_char_literal)
  then show ?case using Cons by (cases "a = []") simp_all
qed simp

lemma sh_split_quoted:
  "CHR 0x00 \<notin> set a \<Longrightarrow>
   sh_split Quoted (Some w) (concat (map (\<lambda>c. if c = CHR 0x27 then [CHR 0x27, CHR 0x5C, CHR 0x27, CHR 0x27] else [c]) a) @ CHR 0x27 # rest) =
   sh_split Plain (Some (w @ a)) rest"
  by (induction a arbitrary: w) auto

lemma sh_split_escape:
  "CHR 0x00 \<notin> set a \<Longrightarrow> sh_split Plain None (shell_escape a @ rest) = sh_split Plain (Some a) rest"
  using sh_split_quoted [of a "[]" rest] by (auto simp: shell_escape_def sh_split_plain)

lemma sh_split_join:
  "\<forall>a \<in> set as. CHR 0x00 \<notin> set a \<Longrightarrow> sh_split Plain None (join '' '' (map shell_escape as)) = Some as"
proof (induction as)
  case (Cons a as)
  then show ?case
  proof (cases as)
    case Nil
    then show ?thesis using Cons sh_split_escape [of a "[]"] by simp
  next
    case (Cons b bs)
    then show ?thesis using Cons.IH Cons.prems sh_split_escape [of a "'' '' @ join '' '' (map shell_escape as)"] by simp
  qed
qed simp

section \<open>Properties\<close>

text \<open>C15. The command line cannot be broken out of: a shell splits it into exactly the arguments of the run, whatever
  characters image, names, options and command contain, the null character apart, which no argument of a
  process can contain.\<close>

theorem shell_command_roundtrip:
  assumes "\<forall>a \<in> set (run_args r). CHR 0x00 \<notin> set a"
  shows "sh_split Plain None (shell_command r) = Some (run_args r)"
  unfolding shell_command_def by (rule sh_split_join [OF assms])

theorem shell_command_roundtrip_witness:
  "let r = \<lparr>nr_engine = Docker, nr_container_name = ''web'', nr_image = ''img:1'', nr_address = 1, nr_dns_address = 2,
      nr_bridge_name = ''br'', nr_bridge_interface = ''if'', nr_network_target = SharedContainer ''a b'', nr_extra_args = [[]],
      nr_command = [''sh'', ''-c'', ''rm $HOME; '' @ [CHR 0x27, CHR 0x5C]]\<rparr>
   in sh_split Plain None (shell_command r) = Some (run_args r) \<and> last (run_args r) = ''rm $HOME; '' @ [CHR 0x27, CHR 0x5C]"
  unfolding Let_def
  by (intro conjI shell_command_roundtrip) (simp_all add: run_args_def show_ContainerEngine_def)

end
