(* ===== verification/Cron_Exec.thy ===== *)
theory Cron_Exec
  imports Cron_Runs Service_Runtime
begin

text \<open>
  Running scheduled commands, \<^verbatim>\<open>crates/jiji-agent/src/cron_exec.rs\<close>. What the container engine answers is an argument
  of each definition, as are the clock and the hash; locks are taken to succeed (a lock fails only after a
  panic). The background tasks of the agent are an explicit list, and the sections of code that run under
  one lock are the steps of a relation.
\<close>

section \<open>Names, labels and the run command\<close>

definition MAX_CONTAINER_NAME_LEN :: nat where
  "MAX_CONTAINER_NAME_LEN = 120"

definition FALLBACK_TIMEOUT_SECS :: u64 where
  "FALLBACK_TIMEOUT_SECS = 3600"

definition short_hash :: "(string \<Rightarrow> u8 list) \<Rightarrow> string \<Rightarrow> string" where
  "short_hash sha256 value = concat (map (\<lambda>byte. show_hex 2 (unat byte)) (take 4 (sha256 value)))"

definition cron_container_name :: "(string \<Rightarrow> u8 list) \<Rightarrow> string \<Rightarrow> string \<Rightarrow> string \<Rightarrow> string \<Rightarrow> string" where
  "cron_container_name sha256 project service cron_name run_id =
     (let suffix = take 12 run_id;
          readable = project @ ''-'' @ service @ ''-cron-'' @ cron_name @ ''-'' @ suffix
      in if length readable \<le> MAX_CONTAINER_NAME_LEN then readable
         else let hash = short_hash sha256 readable;
                  keep = MAX_CONTAINER_NAME_LEN - (length hash + 1)
              in take keep readable @ ''-'' @ hash)"

definition cron_container_labels :: "CronJobSpec \<Rightarrow> string \<Rightarrow> Ipv4Addr \<Rightarrow> string list" where
  "cron_container_labels spec run_id a =
     concat (map (\<lambda>(key, value). [''--label'', key @ ''='' @ value])
       [(''jiji.managed'', ''true''), (''jiji.project'', cj_project spec), (''jiji.service'', cj_service spec),
        (''jiji.server'', cj_server spec), (''jiji.resource'', ''cron''), (''jiji.cron'', cj_cron_name spec),
        (''jiji.cron-run'', run_id), (''jiji.deployment'', run_id), (''jiji.lease'', show_ipv4 a)])"

fun to_container_engine :: "Engine \<Rightarrow> ContainerEngine" where
  "to_container_engine EDocker = Docker"
| "to_container_engine EPodman = Podman"

definition render_cron_run :: "CronJobSpec \<Rightarrow> Engine \<Rightarrow> string \<Rightarrow> string \<Rightarrow> Ipv4Addr \<Rightarrow> (string, NetworkedContainerRun) result" where
  "render_cron_run spec engine run_id container_name a =
     (case parse_ipv4 (cj_dns_address spec) of
        None \<Rightarrow> Inl (''cron spec dns_address '' @ [CHR 0x27] @ cj_dns_address spec @ [CHR 0x27] @
                 '' is not a valid IPv4 address: invalid IPv4 address syntax'')
      | Some dns_address \<Rightarrow>
          Inr \<lparr>nr_engine = to_container_engine engine, nr_container_name = container_name, nr_image = cj_image spec,
               nr_address = a, nr_dns_address = dns_address, nr_bridge_name = cj_bridge_network spec,
               nr_bridge_interface = [], nr_network_target = NetBridge,
               nr_extra_args = [''--detach'', ''--restart'', ''no''] @ cron_container_labels spec run_id a @
                 cj_mount_args spec @ [''--env-file'', cj_env_file_path spec] @ cj_resource_args spec,
               nr_command = cj_command spec\<rparr>)"

section \<open>Recording results\<close>

definition release_address :: "string \<Rightarrow> u64 \<Rightarrow> AgentStore \<Rightarrow> AgentStore" where
  "release_address run_id timestamp st =
     (case quarantine_address_lease run_id (u64_saturating_add timestamp DEFAULT_QUARANTINE_SECONDS) st of
        Inl _ \<Rightarrow> st
      | Inr (_, st') \<Rightarrow> st')"

definition finish :: "u64 \<Rightarrow> string \<Rightarrow> CronRunState \<Rightarrow> int option \<Rightarrow> string option \<Rightarrow> AgentStore \<Rightarrow> AgentStore" where
  "finish timestamp run_id state exit_code error st =
     snd (finish_cron_run run_id state timestamp exit_code error (release_address run_id timestamp st))"

text \<open>\<open>None\<close> is the panic of the allocator; \<open>show_lease_error\<close> renders its error.\<close>

definition lease_and_spawn ::
  "(string \<Rightarrow> string option) \<Rightarrow> (LeaseError \<Rightarrow> string) \<Rightarrow> MeshConfig \<Rightarrow> CronJobSpec \<Rightarrow> CronRun \<Rightarrow> u64 \<Rightarrow> AgentStore \<Rightarrow>
   ((string, Ipv4Addr) result \<times> AgentStore) option" where
  "lease_and_spawn deployment_label show_lease_error mc spec run timestamp st =
     (let reserved = [lr_bridge_gateway (mc_local_runtime mc), mc_dns_bind_address mc, lr_proxy_address (mc_local_runtime mc)]
      in case allocate deployment_label (allocator_new (lr_container_subnet (mc_local_runtime mc)) reserved)
                (cx_run_id run) (cron_replica_id (cj_service spec) (cj_cron_name spec)) timestamp st of
           None \<Rightarrow> None
         | Some (Inr lease, st') \<Rightarrow> Some (Inr (al_address lease), st')
         | Some (Inl error, st') \<Rightarrow>
             Some (Inl (''could not lease an address for cron run '' @ [CHR 0x27] @ cx_run_id run @ [CHR 0x27] @ '': '' @ show_lease_error error),
               snd (finish_cron_run (cx_run_id run) Failed timestamp None
                      (Some (''address allocation failed: '' @ show_lease_error error)) st')))"

text \<open>How the engine answered the run command: started, refused with its error output, or not executable.\<close>

datatype engine_start = Started | Start_Refused string | Start_Error string

text \<open>
  From the leased address to a running container: the store after the start, the engine commands run, and the
  name of the container if it is to be monitored.
\<close>

definition execute_claimed_run ::
  "(string \<Rightarrow> u8 list) \<Rightarrow> engine_start \<Rightarrow> u64 \<Rightarrow> Engine \<Rightarrow> CronJobSpec \<Rightarrow> CronRun \<Rightarrow> Ipv4Addr \<Rightarrow> AgentStore \<Rightarrow>
   AgentStore \<times> string list list \<times> string option" where
  "execute_claimed_run sha256 start now engine spec run a st =
     (let container_name = cron_container_name sha256 (cj_project spec) (cj_service spec) (cj_cron_name spec) (cx_run_id run);
          failed = (\<lambda>error. finish now (cx_run_id run) Failed None (Some error) st)
      in case render_cron_run spec engine (cx_run_id run) container_name a of
           Inl error \<Rightarrow> (failed error, [], None)
         | Inr run_command \<Rightarrow>
             (let args = tl (run_args run_command)
              in case start of
                   Start_Refused detail \<Rightarrow>
                     (failed (''could not start cron container: '' @ detail), [args, [''rm'', ''-f'', container_name]], None)
                 | Start_Error error \<Rightarrow> (failed (''could not start cron container: '' @ error), [args], None)
                 | Started \<Rightarrow>
                     (snd (start_cron_run (cx_run_id run) now (cx_run_id run) container_name (show_ipv4 a) st), [args],
                      Some container_name)))"

text \<open>
  The answer of \<^verbatim>\<open>wait\<close>: an exit code or an error, and \<open>None\<close> when the time is over. The second answer is the one
  after the container was asked to stop.
\<close>

type_synonym wait_answer = "(string, int) result option"

definition monitor_result :: "u64 \<Rightarrow> wait_answer \<Rightarrow> wait_answer \<Rightarrow> CronRunState \<times> int option \<times> string option" where
  "monitor_result remaining answer after_stop =
     (case answer of
        Some (Inr code) \<Rightarrow> (if code = 0 then (Succeeded, Some code, None) else (Failed, Some code, None))
      | Some (Inl detail) \<Rightarrow> (Failed, None, Some detail)
      | None \<Rightarrow>
          (TimedOut, (case after_stop of Some (Inr code) \<Rightarrow> Some code | _ \<Rightarrow> None),
           Some (''exceeded its configured timeout ('' @ show_nat (unat remaining) @ ''s remaining when last observed)'')))"

text \<open>The engine commands it runs besides waiting.\<close>

definition monitor_commands :: "string \<Rightarrow> wait_answer \<Rightarrow> wait_answer \<Rightarrow> string list list" where
  "monitor_commands container_name answer after_stop =
     (case answer of
        Some _ \<Rightarrow> []
      | None \<Rightarrow> [''stop'', container_name] #
          (case after_stop of Some (Inr _) \<Rightarrow> [] | _ \<Rightarrow> [[''rm'', ''-f'', container_name]]))"

definition monitor_and_finish :: "u64 \<Rightarrow> wait_answer \<Rightarrow> wait_answer \<Rightarrow> u64 \<Rightarrow> string \<Rightarrow> AgentStore \<Rightarrow> AgentStore" where
  "monitor_and_finish remaining answer after_stop now run_id st =
     (let (state, exit_code, error) = monitor_result remaining answer after_stop
      in finish now run_id state exit_code error st)"

section \<open>Recovery after a restart\<close>

record CronContainerObservation =
  co_name :: string
  co_run_id :: "string option"
  co_running :: bool

definition parse_container_line :: "string \<Rightarrow> CronContainerObservation option" where
  "parse_container_line line =
     (let fields = map trim (split_on CHR ''|'' line);
          name = hd fields
      in if trim line = [] \<or> name = [] then None
         else Some \<lparr>co_name = name,
                    co_run_id = (case tl fields of [] \<Rightarrow> None | run_id # _ \<Rightarrow> (if run_id = [] then None else Some run_id)),
                    co_running = (case drop 2 fields of [] \<Rightarrow> False | state # _ \<Rightarrow> state = ''running'')\<rparr>)"

definition list_cron_containers :: "string list \<Rightarrow> CronContainerObservation list" where
  "list_cron_containers output = List.map_filter parse_container_line output"

definition remaining_timeout :: "CronRun \<Rightarrow> u64 \<Rightarrow> u64 \<Rightarrow> u64" where
  "remaining_timeout run timeout_seconds now =
     (let began_at = (case cx_started_at run of Some t \<Rightarrow> t | None \<Rightarrow> cx_claimed_at run);
          deadline = u64_saturating_add began_at timeout_seconds
      in u64_saturating_sub deadline now)"

datatype CronTask =
    Leasing CronJobSpec CronRun u64
  | Starting CronJobSpec CronRun Ipv4Addr
  | Monitoring string string u64

text \<open>
  One active run: its new task, if its container still runs, and the store. \<open>clock\<close> is the time at which
  the run is finished, \<open>inspect\<close> the exit code the engine reports for a container.
\<close>

definition recover_run ::
  "(string \<Rightarrow> int option) \<Rightarrow> (string \<Rightarrow> u64) \<Rightarrow> u64 \<Rightarrow> CronContainerObservation list \<Rightarrow> CronRun \<Rightarrow> AgentStore \<Rightarrow> CronTask option \<times> AgentStore" where
  "recover_run inspect clock now containers run st =
     (case find (\<lambda>c. co_run_id c = Some (cx_run_id run)) containers of
        None \<Rightarrow>
          (None, finish (clock (cx_run_id run)) (cx_run_id run) Failed None (Some ''cron container missing on agent restart'') st)
      | Some c \<Rightarrow>
          (if \<not> co_running c then
             (let exit_code = inspect (co_name c);
                  state = (if exit_code = Some 0 then Succeeded else Failed)
              in (None, finish (clock (cx_run_id run)) (cx_run_id run) state exit_code None st))
           else
             (let timeout_seconds = (case cron_spec (cx_service run) (cx_cron_name run) st of
                                       Some spec \<Rightarrow> cj_timeout_seconds spec | None \<Rightarrow> FALLBACK_TIMEOUT_SECS)
              in (Some (Monitoring (cx_run_id run) (co_name c) (remaining_timeout run timeout_seconds now)), st))))"

fun recover_loop ::
  "(string \<Rightarrow> int option) \<Rightarrow> (string \<Rightarrow> u64) \<Rightarrow> u64 \<Rightarrow> CronContainerObservation list \<Rightarrow> CronRun list \<Rightarrow> AgentStore \<Rightarrow> CronTask list \<times> AgentStore" where
  "recover_loop inspect clock now containers [] st = ([], st)"
| "recover_loop inspect clock now containers (run # runs) st =
     (let (task, st') = recover_run inspect clock now containers run st;
          (tasks, st'') = recover_loop inspect clock now containers runs st'
      in ((case task of None \<Rightarrow> tasks | Some t \<Rightarrow> t # tasks), st''))"

definition no_filter :: CronRunFilter where
  "no_filter = \<lparr>cf_service = None, cf_cron_name = None, cf_run_id = None, cf_since = None, cf_limit = None\<rparr>"

text \<open>The new tasks, the store, and the containers that are stopped and removed.\<close>

definition recover_claimed_runs ::
  "run_order \<Rightarrow> (string \<Rightarrow> int option) \<Rightarrow> (string \<Rightarrow> u64) \<Rightarrow> u64 \<Rightarrow> CronContainerObservation list \<Rightarrow> AgentStore \<Rightarrow>
   CronTask list \<times> AgentStore \<times> string list" where
  "recover_claimed_runs newest_first inspect clock now containers st =
     (let active_runs = filter (\<lambda>run. run_is_active (cx_state run)) (cron_runs newest_first no_filter st);
          (tasks, st') = recover_loop inspect clock now containers active_runs st;
          matched = filter (\<lambda>i. \<exists>c \<in> set containers. co_run_id c = Some i) (map cx_run_id active_runs);
          unclaimed = filter (\<lambda>c. case co_run_id c of None \<Rightarrow> True | Some i \<Rightarrow> i \<notin> set matched) containers
      in (tasks, st', map co_name unclaimed))"

definition cleanup_old_cron_containers :: "run_order \<Rightarrow> u64 \<Rightarrow> u64 \<Rightarrow> AgentStore \<Rightarrow> string list" where
  "cleanup_old_cron_containers newest_first now keep_seconds st =
     List.map_filter (\<lambda>run.
       if run_is_active (cx_state run) then None
       else case cx_finished_at run of
              None \<Rightarrow> None
            | Some finished_at \<Rightarrow>
                (if u64_saturating_sub now finished_at < keep_seconds then None else cx_container_name run))
       (cron_runs newest_first no_filter st)"

section \<open>The agent and its tasks\<close>

record CronAgent =
  ca_store :: AgentStore
  ca_tasks :: "CronTask list"

fun task_run :: "CronTask \<Rightarrow> string" where
  "task_run (Leasing spec run t) = cx_run_id run"
| "task_run (Starting spec run a) = cx_run_id run"
| "task_run (Monitoring run_id name remaining) = run_id"

text \<open>
  What can happen while the agent runs, one lock section per step. \<open>other\<close> stands for every operation that
  leaves the run table alone: specifications, scheduler state, replication, leases of services.
\<close>

inductive live_step :: "(string \<Rightarrow> u8 list) \<Rightarrow> run_order \<Rightarrow> (string \<Rightarrow> string option) \<Rightarrow> (LeaseError \<Rightarrow> string) \<Rightarrow> MeshConfig \<Rightarrow>
    CronAgent \<Rightarrow> CronAgent \<Rightarrow> bool"
  for sha256 newest_first deployment_label show_lease_error mc where
  claim: "claim_cron_run project (cj_service spec) (cj_cron_name spec) cause due run_id timestamp (ca_store a) = Inr (ClaimedRun run, st') \<Longrightarrow>
    live_step sha256 newest_first deployment_label show_lease_error mc a
      \<lparr>ca_store = st', ca_tasks = ca_tasks a @ [Leasing spec run timestamp]\<rparr>"
| refuse: "claim_cron_run project service cron_name cause due run_id timestamp (ca_store a) = Inr (out, st') \<Longrightarrow>
    (\<And>run. out \<noteq> ClaimedRun run) \<Longrightarrow>
    live_step sha256 newest_first deployment_label show_lease_error mc a (a\<lparr>ca_store := st'\<rparr>)"
| lease: "Leasing spec run timestamp \<in> set (ca_tasks a) \<Longrightarrow>
    lease_and_spawn deployment_label show_lease_error mc spec run timestamp (ca_store a) = Some (Inr addr, st') \<Longrightarrow>
    live_step sha256 newest_first deployment_label show_lease_error mc a
      \<lparr>ca_store = st', ca_tasks = remove1 (Leasing spec run timestamp) (ca_tasks a) @ [Starting spec run addr]\<rparr>"
| lease_failed: "Leasing spec run timestamp \<in> set (ca_tasks a) \<Longrightarrow>
    lease_and_spawn deployment_label show_lease_error mc spec run timestamp (ca_store a) = Some (Inl error, st') \<Longrightarrow>
    live_step sha256 newest_first deployment_label show_lease_error mc a
      \<lparr>ca_store = st', ca_tasks = remove1 (Leasing spec run timestamp) (ca_tasks a)\<rparr>"
| unconfigured: "Leasing spec run timestamp \<in> set (ca_tasks a) \<Longrightarrow>
    live_step sha256 newest_first deployment_label show_lease_error mc a
      \<lparr>ca_store = snd (finish_cron_run (cx_run_id run) Failed timestamp None
         (Some ''agent has no engine/mesh runtime configured; cannot execute cron containers'') (ca_store a)),
       ca_tasks = remove1 (Leasing spec run timestamp) (ca_tasks a)\<rparr>"
| start: "Starting spec run addr \<in> set (ca_tasks a) \<Longrightarrow>
    execute_claimed_run sha256 answer now engine spec run addr (ca_store a) = (st', cmds, Some name) \<Longrightarrow>
    live_step sha256 newest_first deployment_label show_lease_error mc a
      \<lparr>ca_store = st', ca_tasks = remove1 (Starting spec run addr) (ca_tasks a) @
         [Monitoring (cx_run_id run) name (cj_timeout_seconds spec)]\<rparr>"
| start_failed: "Starting spec run addr \<in> set (ca_tasks a) \<Longrightarrow>
    execute_claimed_run sha256 answer now engine spec run addr (ca_store a) = (st', cmds, None) \<Longrightarrow>
    live_step sha256 newest_first deployment_label show_lease_error mc a
      \<lparr>ca_store = st', ca_tasks = remove1 (Starting spec run addr) (ca_tasks a)\<rparr>"
| ended: "Monitoring run_id name remaining \<in> set (ca_tasks a) \<Longrightarrow>
    live_step sha256 newest_first deployment_label show_lease_error mc a
      \<lparr>ca_store = monitor_and_finish remaining first_answer second_answer now run_id (ca_store a),
       ca_tasks = remove1 (Monitoring run_id name remaining) (ca_tasks a)\<rparr>"
| retain: "retain_cron_runs newest_first now keep_seconds keep_latest (ca_store a) = (removed, st') \<Longrightarrow>
    live_step sha256 newest_first deployment_label show_lease_error mc a (a\<lparr>ca_store := st'\<rparr>)"
| other: "as_cron_runs st' = as_cron_runs (ca_store a) \<Longrightarrow>
    live_step sha256 newest_first deployment_label show_lease_error mc a (a\<lparr>ca_store := st'\<rparr>)"

text \<open>
  With restarts, which end every task. Recovery needs the list of containers; when the engine does not
  answer, the agent starts without recovering.
\<close>

inductive cron_step :: "(string \<Rightarrow> u8 list) \<Rightarrow> run_order \<Rightarrow> (string \<Rightarrow> string option) \<Rightarrow> (LeaseError \<Rightarrow> string) \<Rightarrow> MeshConfig \<Rightarrow>
    CronAgent \<Rightarrow> CronAgent \<Rightarrow> bool"
  for sha256 newest_first deployment_label show_lease_error mc where
  live: "live_step sha256 newest_first deployment_label show_lease_error mc a b \<Longrightarrow>
    cron_step sha256 newest_first deployment_label show_lease_error mc a b"
| restart: "recover_claimed_runs newest_first inspect clock now containers (ca_store a) = (tasks, st', unclaimed) \<Longrightarrow>
    cron_step sha256 newest_first deployment_label show_lease_error mc a \<lparr>ca_store = st', ca_tasks = tasks\<rparr>"
| restart_blind: "cron_step sha256 newest_first deployment_label show_lease_error mc a (a\<lparr>ca_tasks := []\<rparr>)"

text \<open>A job for the examples below.\<close>

definition demo_job :: CronJobSpec where
  "demo_job =
     \<lparr>cj_project = ''p'', cj_service = ''web'', cj_cron_name = ''sync'', cj_revision = 1, cj_canonical_hash = ''h'', cj_owner_node_id = ''n'',
      cj_owner_epoch = 1, cj_server = ''s'', cj_source_deployment_id = ''d'', cj_source_replica_id = ''r'', cj_image = ''i'',
      cj_schedule = ''* * * * *'', cj_timezone = ''UTC'', cj_timeout_seconds = 60, cj_overlap = JobOverlap.Forbid, cj_missed_runs = SkipMissed,
      cj_command = [], cj_env_file_path = ''e'', cj_mount_args = [], cj_resource_args = [], cj_bridge_network = ''b'',
      cj_dns_address = ''10.0.0.1''\<rparr>"

section \<open>Active runs\<close>

definition run_active :: "string \<Rightarrow> AgentStore \<Rightarrow> bool" where
  "run_active i st \<longleftrightarrow> (\<exists>row. (i, row) \<in> set (as_cron_runs st) \<and> row_active row)"

lemma release_frame: "as_cron_runs (release_address i t st) = as_cron_runs st"
  by (auto simp: release_address_def quarantine_address_lease_def split: sum.splits option.splits)

text \<open>Allocation touches the lease table only.\<close>

definition leases_only :: "AgentStore \<Rightarrow> AgentStore \<Rightarrow> bool" where
  "leases_only st st' \<longleftrightarrow> st' = st\<lparr>as_address_leases := as_address_leases st'\<rparr>"

lemma leases_onlyI [intro]: "leases_only st st" "leases_only st (st\<lparr>as_address_leases := l\<rparr>)"
  by (simp_all add: leases_only_def)

lemma leases_only_trans: "leases_only a b \<Longrightarrow> leases_only b c \<Longrightarrow> leases_only a c"
  unfolding leases_only_def by (metis AgentStore.update_convs(12) AgentStore.surjective)

lemma leases_onlyD:
  assumes "leases_only st st'"
  shows "as_cron_runs st' = as_cron_runs st" "as_cron_scheduler_state st' = as_cron_scheduler_state st"
    "as_cron_job_specs st' = as_cron_job_specs st"
  by (subst assms [unfolded leases_only_def], simp)+

lemma collect_leases_only: "collect_expired_address_leases lab ts st = Inr (n, st') \<Longrightarrow> leases_only st st'"
  by (auto simp: collect_expired_address_leases_def Let_def split: if_splits sum.splits prod.splits)

lemma claim_leases_only: "claim_address_lease d r a st = Inr (b, st') \<Longrightarrow> leases_only st st'"
  by (auto simp: claim_address_lease_def split: option.splits if_splits)

lemma alloc_loop_leases_only: "alloc_loop al d r used offs st = Some (res, st') \<Longrightarrow> leases_only st st'"
proof (induction al d r used offs st rule: alloc_loop.induct)
  case (2 al d r used off offs st)
  show ?case
  proof (cases "address (aa_subnet al) off")
    case None
    then show ?thesis using 2 by simp
  next
    case (Some a)
    show ?thesis
    proof (cases "a \<in> aa_reserved al \<or> a \<in> used")
      case True
      then show ?thesis using 2 Some by simp
    next
      case False
      show ?thesis
      proof (cases "claim_address_lease d r a st")
        case (Inl e)
        then show ?thesis using 2 Some False by auto
      next
        case (Inr x)
        obtain b s where x: "x = (b, s)" by fastforce
        note f = claim_leases_only [OF Inr [unfolded x]]
        show ?thesis
        proof (cases b)
          case True
          then show ?thesis using 2(4) Some False Inr x f by (simp split: option.splits)
        next
          case b: False
          then show ?thesis using leases_only_trans [OF f 2(3) [OF Some False Inr x [symmetric] b]] 2(4) Some False Inr x by simp
        qed
      qed
    qed
  qed
qed auto

lemma allocate_leases_only: "allocate lab al d r ts st = Some (res, st') \<Longrightarrow> leases_only st st'"
  by (auto simp: allocate_def split: sum.splits option.splits prod.splits
      dest!: collect_leases_only alloc_loop_leases_only intro: leases_only_trans)

lemmas allocate_frame = leases_onlyD(1) [OF allocate_leases_only]

lemma run_active_cong: "as_cron_runs st' = as_cron_runs st \<Longrightarrow> run_active i st' = run_active i st"
  by (simp add: run_active_def)

subsection \<open>The effect of each operation on the active runs\<close>

lemma update_active:
  assumes inv: "runs_inv st" and upd: "update_run i f state st = (b, st')" and keep: "keeps_identity f state"
  shows "run_active k st' \<longleftrightarrow> (if k = i then run_is_active state \<and> i \<in> fst ` set (as_cron_runs st) else run_active k st)"
proof (cases "k = i")
  case True
  have "i \<in> fst ` set (as_cron_runs st) \<longleftrightarrow> (\<exists>row. (i, row) \<in> set (as_cron_runs st))" by force
  then show ?thesis using True row_update_facts(4) [OF keep] unfolding run_active_def update_run_mem [OF inv upd] by auto
next
  case False
  then show ?thesis unfolding run_active_def update_run_mem [OF inv upd] by simp
qed

lemma finish_run_effect:
  assumes inv: "runs_inv st" and terminal: "\<not> run_is_active state"
  shows "runs_inv (snd (finish_cron_run i state t code err st))"
    "run_active k (snd (finish_cron_run i state t code err st)) \<longleftrightarrow> k \<noteq> i \<and> run_active k st"
proof -
  let ?f = "\<lambda>run. run\<lparr>cx_state := state, cx_finished_at := Some t, cx_exit_code := code, cx_error := err\<rparr>"
  obtain b st' where upd: "update_run i ?f state st = (b, st')" by fastforce
  have fin: "finish_cron_run i state t code err st = (b, st')" using upd by (simp add: finish_cron_run_def)
  have "runs_inv st'" by (rule runs_inv_update [OF inv upd finish_keeps_identity]) (use terminal in simp)
  then show "runs_inv (snd (finish_cron_run i state t code err st))" by (simp add: fin)
  show "run_active k (snd (finish_cron_run i state t code err st)) \<longleftrightarrow> k \<noteq> i \<and> run_active k st"
    using update_active [OF inv upd finish_keeps_identity, of k] terminal by (simp add: fin)
qed

lemma finish_effect:
  assumes inv: "runs_inv st" and terminal: "\<not> run_is_active state"
  shows "runs_inv (finish t i state code err st)" "run_active k (finish t i state code err st) \<longleftrightarrow> k \<noteq> i \<and> run_active k st"
proof -
  have inv': "runs_inv (release_address i t st)" using inv runs_inv_cong [OF release_frame] by blast
  show "runs_inv (finish t i state code err st)" unfolding finish_def by (rule finish_run_effect(1) [OF inv' terminal])
  show "run_active k (finish t i state code err st) \<longleftrightarrow> k \<noteq> i \<and> run_active k st"
    unfolding finish_def finish_run_effect(2) [OF inv' terminal] by (simp add: run_active_cong [OF release_frame])
qed

lemma start_effect:
  assumes inv: "runs_inv st" and act: "run_active i st"
  shows "runs_inv (snd (start_cron_run i t d c a st))" "run_active k (snd (start_cron_run i t d c a st)) \<longleftrightarrow> run_active k st"
proof -
  let ?f = "\<lambda>run. run\<lparr>cx_state := Running, cx_started_at := Some t, cx_deployment_id := Some d, cx_container_name := Some c, cx_address := Some a\<rparr>"
  obtain b st' where upd: "update_run i ?f Running st = (b, st')" by fastforce
  have run: "start_cron_run i t d c a st = (b, st')" using upd by (simp add: start_cron_run_def)
  have "row_active row" if "(i, row) \<in> set (as_cron_runs st)" for row
    using act that runs_unique [OF inv] unfolding run_active_def by blast
  then have "runs_inv st'" using runs_inv_update [OF inv upd start_keeps_identity] by blast
  then show "runs_inv (snd (start_cron_run i t d c a st))" by (simp add: run)
  have "i \<in> fst ` set (as_cron_runs st)" using act unfolding run_active_def by force
  then show "run_active k (snd (start_cron_run i t d c a st)) \<longleftrightarrow> run_active k st"
    using update_active [OF inv upd start_keeps_identity, of k] act by (simp add: run run_is_active_def)
qed

lemma claim_effect:
  assumes inv: "runs_inv st" and run: "claim_cron_run p s n cause due i ts st = Inr (ClaimedRun run, st')"
  shows "cx_run_id run = i" "i \<notin> fst ` set (as_cron_runs st)" "run_active k st' \<longleftrightarrow> k = i \<or> run_active k st"
proof -
  have "map_of (as_cron_runs st) i = None \<and> run = new_run p s n cause due i ts \<and>
    st' = st\<lparr>as_cron_runs := as_cron_runs st @ [(i, run_row (new_run p s n cause due i ts))]\<rparr>"
    using run by (cases rule: claim_cases [of due s n st p cause i ts]) auto
  then show "cx_run_id run = i" "i \<notin> fst ` set (as_cron_runs st)" "run_active k st' \<longleftrightarrow> k = i \<or> run_active k st"
    using run_row_new(3) [of p s n cause due i ts] by (auto simp: new_run_def map_of_eq_None_iff run_active_def)
qed

lemma refuse_effect:
  assumes "claim_cron_run p s n cause due i ts st = Inr (out, st')" "\<And>run. out \<noteq> ClaimedRun run"
  shows "as_cron_runs st' = as_cron_runs st"
  using assms by (cases rule: claim_cases [of due s n st p cause i ts]) auto

lemma retain_effect:
  assumes inv: "runs_inv st" and run: "retain_cron_runs newest_first now keep latest st = (removed, st')"
  shows "runs_inv st'" "run_active k st' \<longleftrightarrow> run_active k st"
proof -
  obtain P where st': "st' = st\<lparr>as_cron_runs := filter P (as_cron_runs st)\<rparr>" and P: "\<And>i row. \<not> P (i, row) \<Longrightarrow> row_completed row"
    using run by (auto simp: retain_cron_runs_def Let_def)
  show "runs_inv st'" unfolding st' by (rule runs_inv_filter [OF inv])
  show "run_active k st' \<longleftrightarrow> run_active k st"
    using P row_ok_completed runs_invD(2) [OF inv] unfolding run_active_def st' by fastforce
qed

subsection \<open>Leasing, starting and finishing\<close>

lemma lease_ok_effect:
  "lease_and_spawn lab sh mc spec run ts st = Some (Inr a, st') \<Longrightarrow> as_cron_runs st' = as_cron_runs st"
  by (auto simp: lease_and_spawn_def Let_def split: option.splits sum.splits prod.splits dest!: allocate_frame)

lemma lease_failed_effect:
  assumes inv: "runs_inv st" and run: "lease_and_spawn lab sh mc spec run ts st = Some (Inl e, st')"
  shows "runs_inv st'" "run_active k st' \<longleftrightarrow> k \<noteq> cx_run_id run \<and> run_active k st"
proof -
  obtain s1 err where f: "as_cron_runs s1 = as_cron_runs st" "st' = snd (finish_cron_run (cx_run_id run) Failed ts None err s1)"
    using run by (auto simp: lease_and_spawn_def Let_def split: option.splits sum.splits prod.splits dest!: allocate_frame)
  have inv1: "runs_inv s1" using inv runs_inv_cong [OF f(1)] by blast
  show "runs_inv st'" "run_active k st' \<longleftrightarrow> k \<noteq> cx_run_id run \<and> run_active k st"
    using finish_run_effect [OF inv1] run_active_cong [OF f(1)] by (simp_all add: f(2) run_is_active_def)
qed

lemma execute_started:
  assumes "runs_inv st" "run_active (cx_run_id run) st" "execute_claimed_run sha start now e spec run a st = (st', cmds, Some name)"
  shows "runs_inv st'" "run_active k st' \<longleftrightarrow> run_active k st"
proof -
  obtain c where "st' = snd (start_cron_run (cx_run_id run) now (cx_run_id run) c (show_ipv4 a) st)"
    using assms(3) by (auto simp: execute_claimed_run_def Let_def split: sum.splits engine_start.splits)
  then show "runs_inv st'" "run_active k st' \<longleftrightarrow> run_active k st" using start_effect [OF assms(1,2)] by simp_all
qed

lemma execute_failed:
  assumes "runs_inv st" "execute_claimed_run sha start now e spec run a st = (st', cmds, None)"
  shows "runs_inv st'" "run_active k st' \<longleftrightarrow> k \<noteq> cx_run_id run \<and> run_active k st"
proof -
  obtain err where "st' = finish now (cx_run_id run) Failed None err st"
    using assms(2) by (auto simp: execute_claimed_run_def Let_def split: sum.splits engine_start.splits)
  then show "runs_inv st'" "run_active k st' \<longleftrightarrow> k \<noteq> cx_run_id run \<and> run_active k st"
    using finish_effect [OF assms(1)] by (simp_all add: run_is_active_def)
qed

lemma monitor_effect:
  assumes "runs_inv st"
  shows "runs_inv (monitor_and_finish rem x y now i st)" "run_active k (monitor_and_finish rem x y now i st) \<longleftrightarrow> k \<noteq> i \<and> run_active k st"
proof -
  obtain state code err where m: "monitor_result rem x y = (state, code, err)" by (cases "monitor_result rem x y") auto
  then have "\<not> run_is_active state"
    by (auto simp: monitor_result_def run_is_active_def split: option.splits sum.splits if_splits)
  then show "runs_inv (monitor_and_finish rem x y now i st)" "run_active k (monitor_and_finish rem x y now i st) \<longleftrightarrow> k \<noteq> i \<and> run_active k st"
    using finish_effect [OF assms] by (simp_all add: monitor_and_finish_def m)
qed

section \<open>The invariant of the agent\<close>

text \<open>Every task works on an active run of its own.\<close>

definition agent_inv :: "CronAgent \<Rightarrow> bool" where
  "agent_inv a \<longleftrightarrow> runs_inv (ca_store a) \<and> distinct (map task_run (ca_tasks a)) \<and>
     (\<forall>t \<in> set (ca_tasks a). run_active (task_run t) (ca_store a))"

lemma distinct_map_remove1: "distinct (map f ts) \<Longrightarrow> distinct (map f (remove1 t ts))"
  by (induction ts) (auto, metis imageI notin_set_remove1)

lemma remove1_others: "distinct (map f ts) \<Longrightarrow> t \<in> set ts \<Longrightarrow> u \<in> set (remove1 t ts) \<Longrightarrow> f u \<noteq> f t \<and> u \<in> set ts"
  by (induction ts) (auto split: if_splits simp: image_iff)

lemma agent_inv_remove:
  assumes "agent_inv a" "t \<in> set (ca_tasks a)" "runs_inv st'" "\<And>k. k \<noteq> task_run t \<Longrightarrow> run_active k (ca_store a) \<Longrightarrow> run_active k st'"
  shows "agent_inv \<lparr>ca_store = st', ca_tasks = remove1 t (ca_tasks a)\<rparr>"
  using assms remove1_others [of task_run "ca_tasks a" t] distinct_map_remove1 [of task_run "ca_tasks a" t] by (auto simp: agent_inv_def)

lemma agent_inv_replace:
  assumes "agent_inv a" "t \<in> set (ca_tasks a)" "runs_inv st'" "\<And>k. run_active k (ca_store a) \<Longrightarrow> run_active k st'" "task_run u = task_run t"
  shows "agent_inv \<lparr>ca_store = st', ca_tasks = remove1 t (ca_tasks a) @ [u]\<rparr>"
  using assms remove1_others [of task_run "ca_tasks a" t] distinct_map_remove1 [of task_run "ca_tasks a" t] by (fastforce simp: agent_inv_def)

lemma agent_inv_store:
  assumes "agent_inv a" "runs_inv st'" "\<And>k. run_active k (ca_store a) \<Longrightarrow> run_active k st'"
  shows "agent_inv (a\<lparr>ca_store := st'\<rparr>)"
  using assms by (auto simp: agent_inv_def)

lemma live_step_inv:
  assumes "live_step sha nf lab sh mc a b" "agent_inv a"
  shows "agent_inv b"
  using assms
proof (induction rule: live_step.induct)
  case (claim p spec cause due i ts a run st')
  have inv: "runs_inv (ca_store a)" using claim(2) by (simp add: agent_inv_def)
  note eff = claim_effect [OF inv claim(1)]
  have "i \<notin> task_run ` set (ca_tasks a)" using claim(2) eff(2) by (force simp: agent_inv_def run_active_def)
  then show ?case using claim(2) eff runs_inv_claim [OF inv claim(1)] by (auto simp: agent_inv_def)
next
  case (refuse p s n cause due i ts a out st')
  note f = refuse_effect [OF refuse(1,2)]
  show ?case
    by (rule agent_inv_store [OF refuse(3)]) (use refuse(3) runs_inv_cong [OF f] run_active_cong [OF f] in \<open>auto simp: agent_inv_def\<close>)
next
  case (lease spec run ts a addr st')
  note f = lease_ok_effect [OF lease(2)]
  show ?case
    by (rule agent_inv_replace [OF lease(3,1)]) (use lease(3) runs_inv_cong [OF f] run_active_cong [OF f] in \<open>auto simp: agent_inv_def\<close>)
next
  case (lease_failed spec run ts a e st')
  then show ?case using lease_failed_effect [of "ca_store a"] by (intro agent_inv_remove) (auto simp: agent_inv_def)
next
  case (unconfigured spec run ts a)
  then show ?case using finish_run_effect [of "ca_store a" Failed] by (intro agent_inv_remove) (auto simp: agent_inv_def run_is_active_def)
next
  case (start spec run addr a answer now engine st' cmds name)
  have "runs_inv (ca_store a)" "run_active (cx_run_id run) (ca_store a)" using start(1,3) by (auto simp: agent_inv_def)
  note eff = execute_started [OF this start(2)]
  show ?case by (rule agent_inv_replace [OF start(3,1) eff(1)]) (simp_all add: eff(2))
next
  case (start_failed spec run addr a answer now engine st' cmds)
  then show ?case using execute_failed [of "ca_store a"] by (intro agent_inv_remove) (auto simp: agent_inv_def)
next
  case (ended i name rem a x y now)
  then show ?case using monitor_effect [of "ca_store a"] by (intro agent_inv_remove) (auto simp: agent_inv_def)
next
  case (retain now keep latest a removed st')
  then show ?case using retain_effect [OF _ retain(1)] by (intro agent_inv_store) (auto simp: agent_inv_def)
next
  case (other st' a)
  then show ?case using runs_inv_cong [OF other(1)] run_active_cong [OF other(1)] by (intro agent_inv_store) (auto simp: agent_inv_def)
qed

subsection \<open>Recovery\<close>

definition resumes :: "CronContainerObservation list \<Rightarrow> string \<Rightarrow> bool" where
  "resumes containers i \<longleftrightarrow> (\<exists>c. find (\<lambda>c. co_run_id c = Some i) containers = Some c \<and> co_running c)"

lemma finish_keys:
  assumes "runs_inv st"
  shows "map fst (as_cron_runs (finish t i state code err st)) = map fst (as_cron_runs st)"
proof -
  let ?st = "release_address i t st"
  have inv: "runs_inv ?st" using assms runs_inv_cong [OF release_frame] by blast
  show ?thesis unfolding finish_def finish_cron_run_def
    using update_run_keys [OF inv prod.collapse [symmetric]] by (simp add: release_frame)
qed

lemma recover_run_effect:
  assumes inv: "runs_inv st" and run: "recover_run inspect clock now cs r st = (task, st')"
  shows "runs_inv st'" "map fst (as_cron_runs st') = map fst (as_cron_runs st)"
    "map_option task_run task = (if resumes cs (cx_run_id r) then Some (cx_run_id r) else None)"
    "run_active k st' \<longleftrightarrow> run_active k st \<and> (k \<noteq> cx_run_id r \<or> resumes cs (cx_run_id r))"
proof -
  consider (resume) "resumes cs (cx_run_id r)" "st' = st" "map_option task_run task = Some (cx_run_id r)"
    | (finished) state t code err where "\<not> resumes cs (cx_run_id r)" "\<not> run_is_active state"
        "st' = finish t (cx_run_id r) state code err st" "task = None"
    using run by (auto simp: recover_run_def resumes_def Let_def run_is_active_def split: option.splits if_splits)
  then have "runs_inv st' \<and> map fst (as_cron_runs st') = map fst (as_cron_runs st) \<and>
    map_option task_run task = (if resumes cs (cx_run_id r) then Some (cx_run_id r) else None) \<and>
    (run_active k st' \<longleftrightarrow> run_active k st \<and> (k \<noteq> cx_run_id r \<or> resumes cs (cx_run_id r)))"
  proof cases
    case resume
    then show ?thesis using inv by simp
  next
    case finished
    then show ?thesis using finish_effect [OF inv finished(2)] finish_keys [OF inv] by auto
  qed
  then show "runs_inv st'" "map fst (as_cron_runs st') = map fst (as_cron_runs st)"
    "map_option task_run task = (if resumes cs (cx_run_id r) then Some (cx_run_id r) else None)"
    "run_active k st' \<longleftrightarrow> run_active k st \<and> (k \<noteq> cx_run_id r \<or> resumes cs (cx_run_id r))" by blast+
qed

lemma recover_loop_effect:
  assumes "runs_inv st" "recover_loop inspect clock now cs runs st = (tasks, st')"
  shows "runs_inv st' \<and> map fst (as_cron_runs st') = map fst (as_cron_runs st) \<and>
    map task_run tasks = filter (resumes cs) (map cx_run_id runs) \<and>
    (\<forall>k. run_active k st' \<longleftrightarrow> run_active k st \<and> (k \<notin> cx_run_id ` set runs \<or> resumes cs k))"
  using assms
proof (induction runs arbitrary: st tasks)
  case (Cons r runs)
  obtain task s1 where one: "recover_run inspect clock now cs r st = (task, s1)" by fastforce
  obtain ts s2 where rest: "recover_loop inspect clock now cs runs s1 = (ts, s2)" by fastforce
  have res: "tasks = (case task of None \<Rightarrow> ts | Some t \<Rightarrow> t # ts)" "st' = s2" using Cons.prems(2) one rest by auto
  note eff = recover_run_effect [OF Cons.prems(1) one]
  have IH: "runs_inv s2 \<and> map fst (as_cron_runs s2) = map fst (as_cron_runs s1) \<and>
    map task_run ts = filter (resumes cs) (map cx_run_id runs) \<and>
    (\<forall>k. run_active k s2 \<longleftrightarrow> run_active k s1 \<and> (k \<notin> cx_run_id ` set runs \<or> resumes cs k))"
    using Cons.IH [OF eff(1)] rest res(2) by blast
  have "map task_run tasks = filter (resumes cs) (map cx_run_id (r # runs))"
    using IH eff(3) res(1) by (cases task) (auto split: if_splits)
  moreover have "run_active k s2 \<longleftrightarrow> run_active k st \<and> (k \<notin> cx_run_id ` set (r # runs) \<or> resumes cs k)" for k
    using IH eff(4) [of k] by auto
  ultimately show ?case using IH eff(2) res(2) by simp
qed simp

lemma active_runs_ids:
  assumes inv: "runs_inv st" and ord: "newest_order nf"
  defines "ids \<equiv> map cx_run_id (filter (\<lambda>run. run_is_active (cx_state run)) (cron_runs nf no_filter st))"
  shows "distinct ids" "set ids = {i. run_active i st}"
proof -
  let ?L = "nf (as_cron_runs st)"
  have m: "mset ?L = mset (as_cron_runs st)" using ord by (simp add: newest_order_def)
  have rows: "set ?L = set (as_cron_runs st)" using m by (metis set_mset_mset)
  have runs: "cron_runs nf no_filter st = map (rw_run \<circ> snd) ?L"
    by (simp add: cron_runs_def no_filter_def filter_matches_def)
  have ok: "run_row_ok (fst x) (snd x)" if "x \<in> set ?L" for x using that rows runs_invD(2) [OF inv, of "fst x" "snd x"] by simp
  have "ids = map fst (filter (\<lambda>x. row_active (snd x)) ?L)"
    unfolding ids_def runs filter_map map_map using ok row_ok_active
    by (auto simp: run_row_ok_def intro!: map_cong filter_cong)
  moreover have "distinct (map fst ?L)" using m runs_invD(1) [OF inv] by (metis mset_map mset_eq_imp_distinct_iff)
  ultimately show "distinct ids" "set ids = {i. run_active i st}"
    using rows by (auto simp: distinct_map_filter run_active_def image_iff)
qed

lemma recovery_effect:
  assumes inv: "runs_inv st" and ord: "newest_order nf"
    and run: "recover_claimed_runs nf inspect clock now cs st = (tasks, st', unclaimed)"
  shows "runs_inv st'" "map fst (as_cron_runs st') = map fst (as_cron_runs st)" "distinct (map task_run tasks)"
    "task_run ` set tasks = {i. run_active i st \<and> resumes cs i}" "run_active k st' \<longleftrightarrow> run_active k st \<and> resumes cs k"
    "set unclaimed = co_name ` {c \<in> set cs. \<forall>i. co_run_id c = Some i \<longrightarrow> \<not> run_active i st}"
proof -
  let ?act = "filter (\<lambda>run. run_is_active (cx_state run)) (cron_runs nf no_filter st)"
  note ids = active_runs_ids [OF inv ord]
  have loop: "recover_loop inspect clock now cs ?act st = (tasks, st')"
    using run by (auto simp: recover_claimed_runs_def Let_def split: prod.splits)
  note eff = recover_loop_effect [OF inv loop]
  show "runs_inv st'" "map fst (as_cron_runs st') = map fst (as_cron_runs st)" using eff by blast+
  show "distinct (map task_run tasks)" using eff ids(1) by (simp only: distinct_filter)
  have "set (map task_run tasks) = {i \<in> set (map cx_run_id ?act). resumes cs i}" using eff by (simp only: set_filter)
  then show "task_run ` set tasks = {i. run_active i st \<and> resumes cs i}" unfolding ids(2) by simp
  show "run_active k st' \<longleftrightarrow> run_active k st \<and> resumes cs k" using eff ids(2) by auto
  have un: "unclaimed = map co_name (filter (\<lambda>c. case co_run_id c of None \<Rightarrow> True | Some i \<Rightarrow>
      i \<notin> set (filter (\<lambda>i. \<exists>c \<in> set cs. co_run_id c = Some i) (map cx_run_id ?act))) cs)"
    using run by (auto simp: recover_claimed_runs_def Let_def split: prod.splits)
  have "(case co_run_id c of None \<Rightarrow> True | Some i \<Rightarrow> i \<notin> set (filter (\<lambda>i. \<exists>c \<in> set cs. co_run_id c = Some i) (map cx_run_id ?act))) \<longleftrightarrow>
      (\<forall>i. co_run_id c = Some i \<longrightarrow> \<not> run_active i st)" if "c \<in> set cs" for c
    using that unfolding set_filter ids(2) by (cases "co_run_id c") auto
  then show "set unclaimed = co_name ` {c \<in> set cs. \<forall>i. co_run_id c = Some i \<longrightarrow> \<not> run_active i st}"
    unfolding un set_map set_filter by (intro arg_cong [of _ _ "image co_name"]) blast
qed

lemma cron_step_inv:
  assumes "cron_step sha nf lab sh mc a b" "newest_order nf" "agent_inv a"
  shows "agent_inv b"
  using assms
proof (induction rule: cron_step.induct)
  case (live a b)
  then show ?case using live_step_inv by blast
next
  case (restart inspect clock now cs a tasks st' unclaimed)
  have inv: "runs_inv (ca_store a)" using restart(3) by (simp add: agent_inv_def)
  note eff = recovery_effect [OF inv restart(2,1)]
  then show ?case by (auto simp: agent_inv_def)
next
  case (restart_blind a)
  then show ?case by (simp add: agent_inv_def)
qed

lemma cron_steps_inv:
  assumes "(cron_step sha nf lab sh mc)\<^sup>*\<^sup>* a b" "newest_order nf" "agent_inv a"
  shows "agent_inv b"
  using assms(1) by induction (use assms(2,3) cron_step_inv in blast)+

subsection \<open>A run without a task\<close>

lemma finish_run_other:
  assumes "runs_inv st" "(k, row) \<in> set (as_cron_runs st)" "k \<noteq> i"
  shows "(k, row) \<in> set (as_cron_runs (snd (finish_cron_run i state t code err st)))"
  unfolding finish_cron_run_def update_run_mem [OF assms(1) prod.collapse [symmetric]] using assms(2,3) by simp

lemma finish_other:
  assumes "runs_inv st" "(k, row) \<in> set (as_cron_runs st)" "k \<noteq> i"
  shows "(k, row) \<in> set (as_cron_runs (finish t i state code err st))"
  unfolding finish_def
  by (rule finish_run_other) (use assms runs_inv_cong [OF release_frame] in \<open>simp_all add: release_frame\<close>)

lemma start_other:
  assumes "runs_inv st" "(k, row) \<in> set (as_cron_runs st)" "k \<noteq> i"
  shows "(k, row) \<in> set (as_cron_runs (snd (start_cron_run i t d c a st)))"
  unfolding start_cron_run_def update_run_mem [OF assms(1) prod.collapse [symmetric]] using assms(2,3) by simp

definition ghost :: "string \<Rightarrow> cron_run_row \<Rightarrow> CronAgent \<Rightarrow> bool" where
  "ghost i row a \<longleftrightarrow> agent_inv a \<and> (i, row) \<in> set (as_cron_runs (ca_store a)) \<and> row_active row \<and> i \<notin> task_run ` set (ca_tasks a)"

lemma ghost_step:
  assumes "live_step sha nf lab sh mc a b" "ghost i row a"
  shows "(i, row) \<in> set (as_cron_runs (ca_store b)) \<and> i \<notin> task_run ` set (ca_tasks b)"
proof -
  have inv: "runs_inv (ca_store a)" and mem: "(i, row) \<in> set (as_cron_runs (ca_store a))" and act: "row_active row"
    and free: "i \<notin> task_run ` set (ca_tasks a)"
    using assms(2) by (simp_all add: ghost_def agent_inv_def)
  have not: "task_run t \<noteq> i" if "t \<in> set (ca_tasks a)" for t using that free by auto
  have rest: "i \<notin> task_run ` set (remove1 t (ca_tasks a))" for t using free set_remove1_subset by fastforce
  from assms(1) show ?thesis
  proof cases
    case (claim p spec cause due k ts run st')
    note eff = claim_effect [OF inv claim(2)]
    have "as_cron_runs st' = as_cron_runs (ca_store a) @ [(k, run_row run)]"
      using claim(2) by (cases rule: claim_cases [of due "cj_service spec" "cj_cron_name spec" "ca_store a" p cause k ts]) auto
    moreover have "i \<noteq> k" using eff(2) mem by force
    ultimately show ?thesis using claim(1) mem free eff(1) by auto
  next
    case (refuse p s n cause due k ts out st')
    then show ?thesis using refuse_effect [OF refuse(2,3)] mem free by simp
  next
    case (lease spec run ts addr st')
    then show ?thesis using lease_ok_effect [OF lease(3)] mem rest not [OF lease(2)] by auto
  next
    case (lease_failed spec run ts e st')
    obtain s1 err where f: "as_cron_runs s1 = as_cron_runs (ca_store a)" "st' = snd (finish_cron_run (cx_run_id run) Failed ts None err s1)"
      using lease_failed(3) by (auto simp: lease_and_spawn_def Let_def split: option.splits sum.splits prod.splits dest!: allocate_frame)
    have "runs_inv s1" using inv runs_inv_cong [OF f(1)] by blast
    then show ?thesis using finish_run_other [of s1 i row] lease_failed(1) f mem rest not [OF lease_failed(2)] by simp
  next
    case (unconfigured spec run ts)
    then show ?thesis using finish_run_other [OF inv mem] rest not [OF unconfigured(2)] by simp
  next
    case (start spec run addr answer now engine st' cmds name)
    then obtain c where "st' = snd (start_cron_run (cx_run_id run) now (cx_run_id run) c (show_ipv4 addr) (ca_store a))"
      by (auto simp: execute_claimed_run_def Let_def split: sum.splits engine_start.splits)
    then show ?thesis using start(1) start_other [OF inv mem] rest not [OF start(2)] by auto
  next
    case (start_failed spec run addr answer now engine st' cmds)
    then obtain err where "st' = finish now (cx_run_id run) Failed None err (ca_store a)"
      by (auto simp: execute_claimed_run_def Let_def split: sum.splits engine_start.splits)
    then show ?thesis using start_failed(1) finish_other [OF inv mem] rest not [OF start_failed(2)] by simp
  next
    case (ended k name rem x y now)
    then show ?thesis using finish_other [OF inv mem] rest not [OF ended(2)] by (simp add: monitor_and_finish_def split: prod.splits)
  next
    case (retain now keep latest removed st')
    then have "\<not> row_completed row" using row_ok_completed [OF runs_invD(2) [OF inv mem]] act by simp
    then show ?thesis using retain mem free by (auto simp: retain_cron_runs_def Let_def)
  next
    case (other st')
    then show ?thesis using mem free by simp
  qed
qed

lemma ghost_steps: "(live_step sha nf lab sh mc)\<^sup>*\<^sup>* a b \<Longrightarrow> ghost i row a \<Longrightarrow> ghost i row b"
proof (induction rule: rtranclp_induct)
  case (step b c)
  then show ?case using ghost_step [OF step(2), of i row] live_step_inv [OF step(2)] unfolding ghost_def by blast
qed simp

section \<open>Properties\<close>

text \<open>C8. No job ever runs twice at once. In every state the agent can reach from an empty store, through any
  interleaving of claims, leases, starts, exits, retention, other work, restarts and failed recoveries, a
  job has at most one active run; every background task works on an active run; and no two tasks work on
  runs of the same job.\<close>

theorem cron_mutual_exclusion:
  assumes "newest_order newest_first"
    "(cron_step sha256 newest_first deployment_label show_lease_error mc)\<^sup>*\<^sup>* \<lparr>ca_store = store_empty, ca_tasks = []\<rparr> b"
  shows "(\<forall>(i, r) \<in> set (as_cron_runs (ca_store b)). \<forall>(k, q) \<in> set (as_cron_runs (ca_store b)).
      row_job r = row_job q \<and> row_active r \<and> row_active q \<longrightarrow> i = k) \<and>
    (\<forall>t \<in> set (ca_tasks b). run_active (task_run t) (ca_store b)) \<and>
    (\<forall>t \<in> set (ca_tasks b). \<forall>u \<in> set (ca_tasks b). \<forall>r q. (task_run t, r) \<in> set (as_cron_runs (ca_store b)) \<and>
      (task_run u, q) \<in> set (as_cron_runs (ca_store b)) \<and> row_job r = row_job q \<longrightarrow> t = u)"
proof -
  have "agent_inv \<lparr>ca_store = store_empty, ca_tasks = []\<rparr>" by (simp add: agent_inv_def store_empty_def)
  then have b: "agent_inv b" by (rule cron_steps_inv [OF assms(2,1)])
  then have inv: "runs_inv (ca_store b)" and d: "distinct (map task_run (ca_tasks b))"
    and tasks: "\<forall>t \<in> set (ca_tasks b). run_active (task_run t) (ca_store b)" by (simp_all add: agent_inv_def)
  have one: "i = k" if "(i, r) \<in> set (as_cron_runs (ca_store b))" "(k, q) \<in> set (as_cron_runs (ca_store b))" "row_job r = row_job q"
    "row_active r" "row_active q" for i r k q
    using runs_invD(3) [OF inv that(1,2)] that(3-5) by (simp add: rows_clash_def)
  have "t = u" if t: "t \<in> set (ca_tasks b)" "u \<in> set (ca_tasks b)" and r: "(task_run t, r) \<in> set (as_cron_runs (ca_store b))"
    "(task_run u, q) \<in> set (as_cron_runs (ca_store b))" "row_job r = row_job q" for t u r q
  proof -
    have "row_active r" "row_active q" using tasks t r runs_unique [OF inv] unfolding run_active_def by blast+
    then have "task_run t = task_run u" using one r by blast
    then show ?thesis using d t by (auto simp: distinct_map dest: inj_onD)
  qed
  with one tasks show ?thesis by blast
qed

theorem cron_mutual_exclusion_witness:
  "\<forall>mc. \<exists>b. (cron_step (\<lambda>_. []) (sort_key (\<lambda>x. - rw_claimed_at (snd x))) (\<lambda>_. None) (\<lambda>_. []) mc)\<^sup>*\<^sup>*
        \<lparr>ca_store = store_empty, ca_tasks = []\<rparr> b \<and> map task_run (ca_tasks b) = [''r1''] \<and> run_active ''r1'' (ca_store b)"
proof
  fix mc
  let ?nf = "sort_key (\<lambda>x :: string \<times> cron_run_row. - rw_claimed_at (snd x))" and ?a = "\<lparr>ca_store = store_empty, ca_tasks = []\<rparr>"
  let ?r = "new_run ''p'' ''web'' ''sync'' Scheduled (Some 60) ''r1'' 61"
  let ?b = "\<lparr>ca_store = store_empty\<lparr>as_cron_runs := [(''r1'', run_row ?r)]\<rparr>, ca_tasks = [Leasing demo_job ?r 61]\<rparr>"
  have "claim_cron_run ''p'' (cj_service demo_job) (cj_cron_name demo_job) Scheduled (Some 60) ''r1'' 61 (ca_store ?a) =
      Inr (ClaimedRun ?r, store_empty\<lparr>as_cron_runs := [(''r1'', run_row ?r)]\<rparr>)"
    by (simp add: claim_cron_run_def scheduled_run_def active_row_def demo_job_def store_empty_def Let_def)
  from live_step.claim [OF this] have "live_step (\<lambda>_. []) ?nf (\<lambda>_. None) (\<lambda>_. []) mc ?a ?b" by simp
  then have steps: "(cron_step (\<lambda>_. []) ?nf (\<lambda>_. None) (\<lambda>_. []) mc)\<^sup>*\<^sup>* ?a ?b" by (intro r_into_rtranclp cron_step.live)
  have "run_active ''r1'' (ca_store ?b)" using cron_mutual_exclusion [OF newest_order_sort steps] by (simp add: new_run_def)
  then show "\<exists>b. (cron_step (\<lambda>_. []) ?nf (\<lambda>_. None) (\<lambda>_. []) mc)\<^sup>*\<^sup>* ?a b \<and> map task_run (ca_tasks b) = [''r1''] \<and>
      run_active ''r1'' (ca_store b)"
    using steps by (intro exI [of _ ?b]) (simp add: new_run_def)
qed

text \<open>C36. Recovery leaves no ghost. When the engine lists its containers, a restart keeps exactly the active runs whose
  container still runs, gives each of them one monitoring task and nothing else a task, completes every other
  active run without losing any row, and removes exactly the containers that no active run claims.\<close>

theorem recovery_leaves_no_ghost:
  assumes inv: "runs_inv st" and ord: "newest_order newest_first"
    and run: "recover_claimed_runs newest_first inspect clock now containers st = (tasks, st', unclaimed)"
  shows "runs_inv st' \<and> map fst (as_cron_runs st') = map fst (as_cron_runs st) \<and> distinct (map task_run tasks) \<and>
    (\<forall>i. run_active i st' \<longleftrightarrow> run_active i st \<and> resumes containers i) \<and>
    (\<forall>i. run_active i st' \<longleftrightarrow> i \<in> task_run ` set tasks) \<and>
    set unclaimed = co_name ` {c \<in> set containers. \<forall>i. co_run_id c = Some i \<longrightarrow> \<not> run_active i st}"
  using recovery_effect [OF inv ord run] by auto

theorem recovery_leaves_no_ghost_witness:
  "\<exists>tasks st' unclaimed. recover_claimed_runs (sort_key (\<lambda>x. - rw_claimed_at (snd x))) (\<lambda>_. None) (\<lambda>_. 9) 9
      (list_cron_containers [''job|r1|running'', ''old|r0|exited''])
      (store_empty\<lparr>as_cron_runs := [(''r1'', run_row (new_run ''p'' ''web'' ''sync'' Scheduled (Some 60) ''r1'' 61))]\<rparr>) =
      (tasks, st', unclaimed) \<and> task_run ` set tasks = {''r1''} \<and> set unclaimed = {''old''}"
proof -
  let ?st = "store_empty\<lparr>as_cron_runs := [(''r1'', run_row (new_run ''p'' ''web'' ''sync'' Scheduled (Some 60) ''r1'' 61))]\<rparr>"
  let ?cs = "list_cron_containers [''job|r1|running'', ''old|r0|exited'']"
  have cs: "?cs = [\<lparr>co_name = ''job'', co_run_id = Some ''r1'', co_running = True\<rparr>, \<lparr>co_name = ''old'', co_run_id = Some ''r0'', co_running = False\<rparr>]"
    by (simp add: list_cron_containers_def parse_container_line_def List.map_filter_def is_plain_def is_whitespace_def)
  have inv: "runs_inv ?st" by (auto simp: runs_inv_def run_row_ok_def run_row_def new_run_def)
  have act: "run_active i ?st \<longleftrightarrow> i = ''r1''" for i by (auto simp: run_active_def run_row_new)
  obtain tasks st' unclaimed where run:
    "recover_claimed_runs (sort_key (\<lambda>x. - rw_claimed_at (snd x))) (\<lambda>_. None) (\<lambda>_. 9) 9 ?cs ?st = (tasks, st', unclaimed)"
    using prod_cases3 by blast
  note res = recovery_leaves_no_ghost [OF inv newest_order_sort run]
  have r1: "resumes ?cs ''r1''" by (simp add: cs resumes_def)
  have q1: "\<forall>i. run_active i st' \<longleftrightarrow> run_active i ?st \<and> resumes ?cs i" using res by (elim conjE)
  have q2: "\<forall>i. run_active i st' \<longleftrightarrow> i \<in> task_run ` set tasks" using res by (elim conjE)
  have "i \<in> task_run ` set tasks \<longleftrightarrow> i = ''r1''" for i
    using q1 [rule_format, of i] q2 [rule_format, of i] r1 unfolding act by (cases "i = ''r1''") simp_all
  then have "task_run ` set tasks = {''r1''}" by blast
  moreover have "set unclaimed = co_name ` {c \<in> set ?cs. \<forall>i. co_run_id c = Some i \<longrightarrow> \<not> run_active i ?st}" using res by simp
  then have "set unclaimed = co_name ` {\<lparr>co_name = ''old'', co_run_id = Some ''r0'', co_running = False\<rparr>}"
    unfolding act cs by (elim ssubst) (rule arg_cong [of _ _ "image co_name"], auto)
  then have "set unclaimed = {''old''}" by simp
  ultimately show ?thesis using run by blast
qed

text \<open>A recovery that cannot list the containers leaves such ghosts, and they never go away: an active run without
  a task stays as it is through everything the agent does until its next restart, and every claim of its job is
  refused.\<close>

theorem untracked_run_blocks_job:
  assumes "agent_inv a" "(i, row) \<in> set (as_cron_runs (ca_store a))" "row_active row" "i \<notin> task_run ` set (ca_tasks a)"
    "(live_step sha256 newest_first deployment_label show_lease_error mc)\<^sup>*\<^sup>* a b"
  shows "cron_run i (ca_store b) = Some (rw_run row) \<and> job_lock (ca_store b) (row_job row) = Some i \<and>
    (\<forall>p cause due k ts run st'.
       claim_cron_run p (fst (row_job row)) (snd (row_job row)) cause due k ts (ca_store b) \<noteq> Inr (ClaimedRun run, st'))"
proof -
  have "ghost i row b" by (rule ghost_steps [OF assms(5)]) (use assms(1-4) in \<open>simp add: ghost_def\<close>)
  then have inv: "runs_inv (ca_store b)" and mem: "(i, row) \<in> set (as_cron_runs (ca_store b))"
    by (simp_all add: ghost_def agent_inv_def)
  have "active_row (fst (row_job row)) (snd (row_job row)) (ca_store b) = Some (i, row)"
    using mem assms(3) by (simp add: active_row_eq [OF inv])
  then show ?thesis using mem runs_get [OF inv, of i row]
    by (auto simp: cron_run_def job_lock_def claim_cron_run_def split: option.splits)
qed

theorem untracked_run_blocks_job_witness:
  "\<forall>mc. \<exists>a b. cron_step (\<lambda>_. []) (\<lambda>xs. xs) (\<lambda>_. None) (\<lambda>_. []) mc a b \<and> ca_tasks a \<noteq> [] \<and> ca_tasks b = [] \<and>
     (\<forall>c. (live_step (\<lambda>_. []) (\<lambda>xs. xs) (\<lambda>_. None) (\<lambda>_. []) mc)\<^sup>*\<^sup>* b c \<longrightarrow> job_lock (ca_store c) (''web'', ''sync'') = Some ''r1'')"
proof
  fix mc
  let ?r = "new_run ''p'' ''web'' ''sync'' Scheduled (Some 60) ''r1'' 61"
  let ?st = "store_empty\<lparr>as_cron_runs := [(''r1'', run_row ?r)]\<rparr>"
  let ?a = "\<lparr>ca_store = ?st, ca_tasks = [Leasing demo_job ?r 61]\<rparr>" and ?b = "\<lparr>ca_store = ?st, ca_tasks = []\<rparr>"
  have step: "cron_step (\<lambda>_. []) (\<lambda>xs. xs) (\<lambda>_. None) (\<lambda>_. []) mc ?a ?b"
    using cron_step.restart_blind [of "\<lambda>_. []" "\<lambda>xs. xs" "\<lambda>_. None" "\<lambda>_. []" mc ?a] by simp
  have "agent_inv ?b" by (auto simp: agent_inv_def runs_inv_def run_row_ok_def run_row_def new_run_def)
  then have "job_lock (ca_store c) (''web'', ''sync'') = Some ''r1''"
    if "(live_step (\<lambda>_. []) (\<lambda>xs. xs) (\<lambda>_. None) (\<lambda>_. []) mc)\<^sup>*\<^sup>* ?b c" for c
    using untracked_run_blocks_job [of ?b "''r1''" "run_row ?r", OF _ _ _ _ that] by (simp add: run_row_new)
  then show "\<exists>a b. cron_step (\<lambda>_. []) (\<lambda>xs. xs) (\<lambda>_. None) (\<lambda>_. []) mc a b \<and> ca_tasks a \<noteq> [] \<and> ca_tasks b = [] \<and>
     (\<forall>c. (live_step (\<lambda>_. []) (\<lambda>xs. xs) (\<lambda>_. None) (\<lambda>_. []) mc)\<^sup>*\<^sup>* b c \<longrightarrow> job_lock (ca_store c) (''web'', ''sync'') = Some ''r1'')"
    using step by (intro exI [of _ ?a] exI [of _ ?b]) simp
qed

text \<open>A container name never exceeds the limit of the engine. A short name is kept readable; a long one is cut
  to exactly the limit and ends with the hash of the full name.\<close>

lemma container_name_bounded:
  assumes "length (sha256 (project @ ''-'' @ service @ ''-cron-'' @ cron_name @ ''-'' @ take 12 run_id)) = 32"
  shows "let readable = project @ ''-'' @ service @ ''-cron-'' @ cron_name @ ''-'' @ take 12 run_id;
      name = cron_container_name sha256 project service cron_name run_id
    in length name \<le> MAX_CONTAINER_NAME_LEN \<and>
      (if length readable \<le> MAX_CONTAINER_NAME_LEN then name = readable
       else length name = MAX_CONTAINER_NAME_LEN \<and> name = take 111 readable @ ''-'' @ short_hash sha256 readable)"
proof -
  have "length (short_hash sha256 v) = 2 * length (take 4 (sha256 v))" for v
    unfolding short_hash_def by (induction "take 4 (sha256 v)" arbitrary: v) (simp_all add: length_concat comp_def sum_list_triv)
  then have "length (short_hash sha256 (project @ ''-'' @ service @ ''-cron-'' @ cron_name @ ''-'' @ take 12 run_id)) = 8"
    using assms by simp
  then show ?thesis by (auto simp: cron_container_name_def Let_def MAX_CONTAINER_NAME_LEN_def)
qed

end
