(* ===== verification/Scheduler.thy ===== *)
theory Scheduler
  imports Cron_Exec
begin

text \<open>
  The scheduler tick, \<^verbatim>\<open>crates/jiji-agent/src/scheduler.rs\<close>. The next occurrence of a schedule
  (\<^verbatim>\<open>cron_schedule.rs\<close>, computed by the \<^verbatim>\<open>jiff\<close> packages) is the parameter \<open>next_due_at\<close>; what the code relies on is
  its documented contract, that the occurrence lies strictly after the given time.
\<close>

section \<open>The tick\<close>

type_synonym schedule_fn = "string \<Rightarrow> string \<Rightarrow> u64 \<Rightarrow> (string, u64) result"

definition METADATA_RETAIN_SECS :: u64 where
  "METADATA_RETAIN_SECS = 30 * 24 * 3600"

definition METADATA_RETAIN_LATEST :: u32 where
  "METADATA_RETAIN_LATEST = 100"

definition CONTAINER_RETAIN_SECS :: u64 where
  "CONTAINER_RETAIN_SECS = 24 * 3600"

definition generate_scheduled_run_id :: "(string \<Rightarrow> u8 list) \<Rightarrow> string \<Rightarrow> string \<Rightarrow> string \<Rightarrow> u64 \<Rightarrow> string" where
  "generate_scheduled_run_id sha256 project service cron_name due_at =
     concat (map (\<lambda>byte. show_hex 2 (unat byte))
       (sha256 (''scheduled'' @ [CHR 0x00] @ project @ [CHR 0x00] @ service @ [CHR 0x00] @ cron_name @ [CHR 0x00] @ show_nat (unat due_at))))"

definition set_next_due :: "string \<Rightarrow> string \<Rightarrow> u64 \<Rightarrow> u64 \<Rightarrow> AgentStore \<Rightarrow> AgentStore" where
  "set_next_due service cron_name now next st = set_cron_scheduler_state service cron_name (Some now) (Some next) st"

definition due_time :: "CronJobSpec \<Rightarrow> AgentStore \<Rightarrow> u64 option" where
  "due_time spec st = Option.bind (cron_scheduler_state (cj_service spec) (cj_cron_name spec) st) cs_next_due_at"

text \<open>\<^verbatim>\<open>missed_runs: skip\<close>: the next occurrence after the due time if it is still to come, else the next one after now.\<close>

definition next_after :: "schedule_fn \<Rightarrow> CronJobSpec \<Rightarrow> u64 \<Rightarrow> u64 \<Rightarrow> u64 option" where
  "next_after next_due_at spec due_at now =
     (case next_due_at (cj_schedule spec) (cj_timezone spec) due_at of
        Inl _ \<Rightarrow> None
      | Inr next \<Rightarrow>
          (if now < next then Some next
           else case next_due_at (cj_schedule spec) (cj_timezone spec) now of Inl _ \<Rightarrow> None | Inr later \<Rightarrow> Some later))"

text \<open>The claim of a due run and, when it succeeds, its lease and its task; \<open>None\<close> is the panic of the allocator.\<close>

definition tick_claim ::
  "(string \<Rightarrow> u8 list) \<Rightarrow> (string \<Rightarrow> string option) \<Rightarrow> (LeaseError \<Rightarrow> string) \<Rightarrow> MeshConfig \<Rightarrow> string \<Rightarrow> u64 \<Rightarrow> CronJobSpec \<Rightarrow> u64 \<Rightarrow>
   AgentStore \<Rightarrow> (CronTask list \<times> AgentStore) option" where
  "tick_claim sha256 deployment_label show_lease_error mc project now spec due_at st =
     (case claim_cron_run project (cj_service spec) (cj_cron_name spec) Scheduled (Some due_at)
             (generate_scheduled_run_id sha256 project (cj_service spec) (cj_cron_name spec) due_at) now st of
        Inl _ \<Rightarrow> Some ([], st)
      | Inr (ClaimedRun run, st') \<Rightarrow>
          (case lease_and_spawn deployment_label show_lease_error mc spec run now st' of
             None \<Rightarrow> None
           | Some (Inr addr, st'') \<Rightarrow> Some ([Starting spec run addr], st'')
           | Some (Inl _, st'') \<Rightarrow> Some ([], st''))
      | Inr (_, st') \<Rightarrow> Some ([], st'))"

definition tick_spec ::
  "schedule_fn \<Rightarrow> (string \<Rightarrow> u8 list) \<Rightarrow> (string \<Rightarrow> string option) \<Rightarrow> (LeaseError \<Rightarrow> string) \<Rightarrow> MeshConfig \<Rightarrow> string \<Rightarrow> u64 \<Rightarrow>
   CronJobSpec \<Rightarrow> AgentStore \<Rightarrow> (CronTask list \<times> AgentStore) option" where
  "tick_spec next_due_at sha256 deployment_label show_lease_error mc project now spec st =
     (case due_time spec st of
        None \<Rightarrow>
          (case next_due_at (cj_schedule spec) (cj_timezone spec) now of
             Inr next \<Rightarrow> Some ([], set_next_due (cj_service spec) (cj_cron_name spec) now next st)
           | Inl _ \<Rightarrow> Some ([], st))
      | Some due_at \<Rightarrow>
          (if now < due_at then Some ([], st)
           else case tick_claim sha256 deployment_label show_lease_error mc project now spec due_at st of
                  None \<Rightarrow> None
                | Some (tasks, st') \<Rightarrow>
                    (case next_after next_due_at spec due_at now of
                       None \<Rightarrow> Some (tasks, st')
                     | Some next \<Rightarrow> Some (tasks, set_next_due (cj_service spec) (cj_cron_name spec) now next st'))))"

fun tick_loop ::
  "schedule_fn \<Rightarrow> (string \<Rightarrow> u8 list) \<Rightarrow> (string \<Rightarrow> string option) \<Rightarrow> (LeaseError \<Rightarrow> string) \<Rightarrow> MeshConfig \<Rightarrow> string \<Rightarrow> u64 \<Rightarrow>
   CronJobSpec list \<Rightarrow> AgentStore \<Rightarrow> (CronTask list \<times> AgentStore) option" where
  "tick_loop next_due_at sha256 deployment_label show_lease_error mc project now [] st = Some ([], st)"
| "tick_loop next_due_at sha256 deployment_label show_lease_error mc project now (spec # specs) st =
     (case tick_spec next_due_at sha256 deployment_label show_lease_error mc project now spec st of
        None \<Rightarrow> None
      | Some (tasks, st') \<Rightarrow>
          map_option (\<lambda>(tasks', st''). (tasks @ tasks', st''))
            (tick_loop next_due_at sha256 deployment_label show_lease_error mc project now specs st'))"

definition tick ::
  "schedule_fn \<Rightarrow> (string \<Rightarrow> u8 list) \<Rightarrow> (string \<Rightarrow> string option) \<Rightarrow> (LeaseError \<Rightarrow> string) \<Rightarrow> MeshConfig \<Rightarrow> string \<Rightarrow> u64 \<Rightarrow>
   AgentStore \<Rightarrow> (CronTask list \<times> AgentStore) option" where
  "tick next_due_at sha256 deployment_label show_lease_error mc project now st =
     tick_loop next_due_at sha256 deployment_label show_lease_error mc project now (cron_specs st) st"

text \<open>The retention half of the loop: the store and the containers removed.\<close>

definition cleanup_tick :: "run_order \<Rightarrow> u64 \<Rightarrow> AgentStore \<Rightarrow> string list \<times> AgentStore" where
  "cleanup_tick newest_first now st =
     (let st' = snd (retain_cron_runs newest_first now METADATA_RETAIN_SECS METADATA_RETAIN_LATEST st)
      in (cleanup_old_cron_containers newest_first now CONTAINER_RETAIN_SECS st', st'))"

section \<open>The effect of a tick\<close>

lemma lease_inv_cong: "as_address_leases st' = as_address_leases st \<Longrightarrow> lease_inv st' = lease_inv st"
  by (simp add: lease_inv_def)

text \<open>What an operation on one job keeps: the specifications, and the scheduler rows of the other jobs.\<close>

definition other_jobs_kept :: "string \<times> string \<Rightarrow> AgentStore \<Rightarrow> AgentStore \<Rightarrow> bool" where
  "other_jobs_kept j st st' \<longleftrightarrow> as_cron_job_specs st' = as_cron_job_specs st \<and>
     (\<forall>k. k \<noteq> j \<longrightarrow> map_of (as_cron_scheduler_state st') k = map_of (as_cron_scheduler_state st) k)"

lemma other_jobs_kept_trans: "other_jobs_kept j a b \<Longrightarrow> other_jobs_kept j b c \<Longrightarrow> other_jobs_kept j a c"
  by (simp add: other_jobs_kept_def)

lemma update_run_frame:
  "update_run i f state st = (b, st') \<Longrightarrow> other_jobs_kept j st st' \<and> as_address_leases st' = as_address_leases st"
  by (auto simp: update_run_def other_jobs_kept_def split: option.splits)

lemma finish_run_frame:
  "other_jobs_kept j st (snd (finish_cron_run i state t code err st)) \<and>
   as_address_leases (snd (finish_cron_run i state t code err st)) = as_address_leases st"
  unfolding finish_cron_run_def by (rule update_run_frame) (rule prod.collapse [symmetric])

lemma set_next_due_frame:
  "other_jobs_kept (s, n) st (set_next_due s n now next st)" "as_address_leases (set_next_due s n now next st) = as_address_leases st"
  "as_cron_runs (set_next_due s n now next st) = as_cron_runs st"
  by (simp_all add: set_next_due_def set_cron_scheduler_state_def other_jobs_kept_def Let_def)

lemma claim_frame:
  assumes "claim_cron_run p s n cause due i ts st = Inr (out, st')"
  shows "other_jobs_kept (s, n) st st'" "as_address_leases st' = as_address_leases st"
  using assms by (cases rule: claim_cases [of due s n st p cause i ts],
      auto simp: other_jobs_kept_def bump_skipped_overlap_def Let_def)+

lemma update_run_rows:
  assumes inv: "runs_inv st" and upd: "update_run i f state st = (b, st')" and keep: "keeps_identity f state"
    and mem: "(k, row) \<in> set (as_cron_runs st)"
  shows "\<exists>row'. (k, row') \<in> set (as_cron_runs st') \<and> row_job row' = row_job row \<and> rw_scheduled_at row' = rw_scheduled_at row"
proof (intro exI conjI)
  let ?row = "if k = i then row_update f state row else row"
  show "(k, ?row) \<in> set (as_cron_runs st')" unfolding update_run_mem [OF inv upd] using mem by blast
  show "row_job ?row = row_job row" "rw_scheduled_at ?row = rw_scheduled_at row" using row_update_facts(2,3) [OF keep] by simp_all
qed

text \<open>With a consistent lease table the lease of a claimed run succeeds or fails, and never panics.\<close>

lemma lease_and_spawn_total:
  assumes inv: "runs_inv st" "lease_inv st" and sub: "cidr_wf (lr_container_subnet (mc_local_runtime mc))" and ts: "unat ts < 2 ^ 63"
  shows "\<exists>res st'. lease_and_spawn lab sh mc spec run ts st = Some (res, st') \<and> runs_inv st' \<and> lease_inv st' \<and> other_jobs_kept j st st' \<and>
    (\<forall>i row. (i, row) \<in> set (as_cron_runs st) \<and> i \<noteq> cx_run_id run \<longrightarrow> (i, row) \<in> set (as_cron_runs st')) \<and>
    (\<forall>i row. (i, row) \<in> set (as_cron_runs st) \<longrightarrow> (\<exists>row'. (i, row') \<in> set (as_cron_runs st') \<and> row_job row' = row_job row \<and>
       rw_scheduled_at row' = rw_scheduled_at row))"
proof -
  let ?al = "allocator_new (lr_container_subnet (mc_local_runtime mc))
    [lr_bridge_gateway (mc_local_runtime mc), mc_dns_bind_address mc, lr_proxy_address (mc_local_runtime mc)]"
  obtain r s1 where al: "allocate lab ?al (cx_run_id run) (cron_replica_id (cj_service spec) (cj_cron_name spec)) ts st = Some (r, s1)"
    and l1: "lease_inv s1"
    using allocate_total [OF inv(2) sub ts] by blast
  note only = leases_onlyD [OF allocate_leases_only [OF al]]
  have s1: "runs_inv s1" "other_jobs_kept j st s1" using inv(1) runs_inv_cong [OF only(1)] only by (auto simp: other_jobs_kept_def)
  show ?thesis
  proof (cases r)
    case (Inr lease)
    then show ?thesis using al l1 s1 only(1) by (auto simp: lease_and_spawn_def Let_def)
  next
    case (Inl e)
    let ?err = "Some (''address allocation failed: '' @ sh e)"
    let ?f = "\<lambda>run. run\<lparr>cx_state := Failed, cx_finished_at := Some ts, cx_exit_code := None, cx_error := ?err\<rparr>"
    obtain b s2 where upd: "update_run (cx_run_id run) ?f Failed s1 = (b, s2)" by fastforce
    have run: "\<exists>res. lease_and_spawn lab sh mc spec run ts st = Some (res, s2)"
      using al Inl upd by (auto simp: lease_and_spawn_def Let_def finish_cron_run_def)
    have "runs_inv s2" by (rule runs_inv_update [OF s1(1) upd finish_keeps_identity]) (simp add: run_is_active_def)
    moreover have "other_jobs_kept j st s2" "lease_inv s2"
      using update_run_frame [OF upd, of j] other_jobs_kept_trans [OF s1(2)] lease_inv_cong l1 by blast+
    moreover have "(i, row) \<in> set (as_cron_runs s2)" if "(i, row) \<in> set (as_cron_runs st)" "i \<noteq> cx_run_id run" for i row
      unfolding update_run_mem [OF s1(1) upd] using that only(1) by simp
    moreover have "\<exists>row'. (i, row') \<in> set (as_cron_runs s2) \<and> row_job row' = row_job row \<and> rw_scheduled_at row' = rw_scheduled_at row"
      if "(i, row) \<in> set (as_cron_runs st)" for i row
      by (rule update_run_rows [OF s1(1) upd finish_keeps_identity]) (use that only(1) in simp)
    ultimately show ?thesis using run by blast
  qed
qed

lemma scheduled_run_present:
  "(i, row) \<in> set (as_cron_runs st) \<Longrightarrow> row_job row = (s, n) \<Longrightarrow> rw_scheduled_at row = Some (as_i64 t) \<Longrightarrow>
   scheduled_run s n (Some t) st \<noteq> None"
  unfolding scheduled_run_None by blast

text \<open>
  A due time is handled when its run is recorded, when an active run of the job stands in the way, or when the
  identifier of the run is taken.
\<close>

definition due_handled :: "(string \<Rightarrow> u8 list) \<Rightarrow> string \<Rightarrow> CronJobSpec \<Rightarrow> u64 \<Rightarrow> AgentStore \<Rightarrow> bool" where
  "due_handled sha256 project spec due st \<longleftrightarrow>
     scheduled_run (cj_service spec) (cj_cron_name spec) (Some due) st \<noteq> None \<or>
     job_lock st (cj_service spec, cj_cron_name spec) \<noteq> None \<or>
     cron_run (generate_scheduled_run_id sha256 project (cj_service spec) (cj_cron_name spec) due) st \<noteq> None"

lemma due_handled_mono:
  assumes "due_handled sha p spec due st" "runs_inv st" "runs_inv st'" "set (as_cron_runs st) \<subseteq> set (as_cron_runs st')"
  shows "due_handled sha p spec due st'"
proof -
  let ?s = "cj_service spec" and ?n = "cj_cron_name spec"
  have "scheduled_run ?s ?n (Some due) st \<noteq> None \<Longrightarrow> scheduled_run ?s ?n (Some due) st' \<noteq> None"
    unfolding scheduled_run_None using assms(4) by blast
  moreover have "job_lock st (?s, ?n) = Some k \<Longrightarrow> job_lock st' (?s, ?n) = Some k" for k
    unfolding job_lock_Some [OF assms(2)] job_lock_Some [OF assms(3)] using assms(4) by blast
  moreover have "cron_run k st \<noteq> None \<Longrightarrow> cron_run k st' \<noteq> None" for k
    using assms(4) unfolding cron_run_def map_option_is_None map_of_eq_None_iff by auto
  ultimately show ?thesis using assms(1) unfolding due_handled_def by fast
qed

lemma tick_claim_total:
  assumes inv: "runs_inv st" "lease_inv st" and sub: "cidr_wf (lr_container_subnet (mc_local_runtime mc))" and now: "unat now < 2 ^ 63"
  shows "\<exists>tasks st'. tick_claim sha lab sh mc p now spec due st = Some (tasks, st') \<and> runs_inv st' \<and> lease_inv st' \<and>
    other_jobs_kept (cj_service spec, cj_cron_name spec) st st' \<and> set (as_cron_runs st) \<subseteq> set (as_cron_runs st') \<and>
    due_handled sha p spec due st'"
proof -
  let ?s = "cj_service spec" and ?n = "cj_cron_name spec"
  let ?i = "generate_scheduled_run_id sha p (cj_service spec) (cj_cron_name spec) due"
  show ?thesis
  proof (cases rule: claim_cases [of "Some due" ?s ?n st p Scheduled ?i now])
    case (duplicate t run)
    then show ?thesis using inv by (simp add: tick_claim_def other_jobs_kept_def due_handled_def)
  next
    case (overlap k row)
    let ?st = "bump_skipped_overlap ?s ?n st"
    have "runs_inv ?st" "job_lock ?st = job_lock st"
      using inv(1) runs_inv_cong [OF as_cron_runs_bump] job_lock_cong [OF as_cron_runs_bump] by blast+
    moreover have "lease_inv ?st" using inv(2) lease_inv_cong [OF claim_frame(2) [OF overlap(3)]] by blast
    moreover have "job_lock st (?s, ?n) = Some k" using overlap(2) by (simp add: job_lock_def)
    ultimately show ?thesis using overlap(3) claim_frame(1) [OF overlap(3)] by (simp add: tick_claim_def due_handled_def)
  next
    case taken
    then show ?thesis using inv by (simp add: tick_claim_def other_jobs_kept_def due_handled_def cron_run_def)
  next
    case claimed
    let ?r = "new_run p ?s ?n Scheduled (Some due) ?i now"
    let ?s1 = "st\<lparr>as_cron_runs := as_cron_runs st @ [(?i, run_row ?r)]\<rparr>"
    have s1: "runs_inv ?s1" "lease_inv ?s1" "other_jobs_kept (?s, ?n) st ?s1"
      using runs_inv_claim [OF inv(1) claimed(4)] claim_frame [OF claimed(4)] lease_inv_cong inv(2) by blast+
    obtain res s2 where l: "lease_and_spawn lab sh mc spec ?r now ?s1 = Some (res, s2)" "runs_inv s2" "lease_inv s2"
      "other_jobs_kept (?s, ?n) ?s1 s2"
      and same: "\<forall>i row. (i, row) \<in> set (as_cron_runs ?s1) \<and> i \<noteq> cx_run_id ?r \<longrightarrow> (i, row) \<in> set (as_cron_runs s2)"
      and rows: "\<forall>i row. (i, row) \<in> set (as_cron_runs ?s1) \<longrightarrow> (\<exists>row'. (i, row') \<in> set (as_cron_runs s2) \<and> row_job row' = row_job row \<and>
        rw_scheduled_at row' = rw_scheduled_at row)"
      using lease_and_spawn_total [OF s1(1,2) sub now, of lab sh spec ?r "(?s, ?n)"] by blast
    have "i \<noteq> cx_run_id ?r" if "(i, row) \<in> set (as_cron_runs st)" for i row
      using that claimed(3) by (force simp: new_run_def map_of_eq_None_iff)
    then have "set (as_cron_runs st) \<subseteq> set (as_cron_runs s2)" using same by auto
    moreover obtain row' where "(?i, row') \<in> set (as_cron_runs s2)" "row_job row' = (?s, ?n)" "rw_scheduled_at row' = Some (as_i64 due)"
      using rows [rule_format, of ?i "run_row ?r"] by (auto simp: run_row_new)
    then have "due_handled sha p spec due s2" unfolding due_handled_def using scheduled_run_present by blast
    moreover have "\<exists>tasks. tick_claim sha lab sh mc p now spec due st = Some (tasks, s2)"
      using claimed(4) l(1) by (cases res) (auto simp: tick_claim_def)
    ultimately show ?thesis using l(2,3) other_jobs_kept_trans [OF s1(3) l(4)] by blast
  qed
qed

subsection \<open>One job\<close>

lemma due_time_eq: "due_time spec st = Option.bind (map_of (as_cron_scheduler_state st) (cj_service spec, cj_cron_name spec)) sw_next_due_at"
  by (cases "map_of (as_cron_scheduler_state st) (cj_service spec, cj_cron_name spec)") (simp_all add: due_time_def cron_scheduler_state_def)

lemma due_time_set: "due_time spec (set_next_due (cj_service spec) (cj_cron_name spec) now next st) = Some next"
  by (simp add: due_time_eq set_next_due_def set_cron_scheduler_state_def Let_def split: option.splits)

text \<open>The schedule of a job can be computed at the times a tick asks for.\<close>

definition computable :: "schedule_fn \<Rightarrow> u64 \<Rightarrow> CronJobSpec \<Rightarrow> AgentStore \<Rightarrow> bool" where
  "computable next_due_at now spec st \<longleftrightarrow> (\<exists>n. next_due_at (cj_schedule spec) (cj_timezone spec) now = Inr n) \<and>
     (\<forall>due. due_time spec st = Some due \<longrightarrow> due \<le> now \<longrightarrow> (\<exists>n. next_due_at (cj_schedule spec) (cj_timezone spec) due = Inr n))"

lemma next_after_later:
  assumes later: "\<forall>s tz t n. next_due_at s tz t = Inr n \<longrightarrow> t < n"
    and "next_due_at (cj_schedule spec) (cj_timezone spec) now = Inr n" "next_due_at (cj_schedule spec) (cj_timezone spec) due = Inr m"
  shows "\<exists>k. next_after next_due_at spec due now = Some k \<and> now < k"
proof -
  have "now < n" using later assms(2) by blast
  then show ?thesis using assms(2,3) by (simp add: next_after_def)
qed

lemma tick_spec_total:
  assumes inv: "runs_inv st" "lease_inv st" and sub: "cidr_wf (lr_container_subnet (mc_local_runtime mc))" and now: "unat now < 2 ^ 63"
    and later: "\<forall>s tz t n. next_due_at s tz t = Inr n \<longrightarrow> t < n" and comp: "computable next_due_at now spec st"
  shows "\<exists>tasks st'. tick_spec next_due_at sha lab sh mc p now spec st = Some (tasks, st') \<and> runs_inv st' \<and> lease_inv st' \<and>
    other_jobs_kept (cj_service spec, cj_cron_name spec) st st' \<and> set (as_cron_runs st) \<subseteq> set (as_cron_runs st') \<and>
    (\<exists>n. due_time spec st' = Some n \<and> now < n) \<and> (\<forall>due. due_time spec st = Some due \<and> due \<le> now \<longrightarrow> due_handled sha p spec due st')"
proof -
  let ?s = "cj_service spec" and ?n = "cj_cron_name spec"
  have kept: "runs_inv (set_next_due ?s ?n now n q) = runs_inv q" "lease_inv (set_next_due ?s ?n now n q) = lease_inv q"
    "due_handled sha p spec due (set_next_due ?s ?n now n q) = due_handled sha p spec due q" for n q due
    using runs_inv_cong [OF set_next_due_frame(3)] lease_inv_cong [OF set_next_due_frame(2)] job_lock_cong [OF set_next_due_frame(3)]
    by (simp_all add: due_handled_def scheduled_run_def cron_run_def set_next_due_frame(3))
  obtain n where n: "next_due_at (cj_schedule spec) (cj_timezone spec) now = Inr n" "now < n"
    using comp later by (auto simp: computable_def)
  show ?thesis
  proof (cases "due_time spec st")
    case None
    then show ?thesis using n inv kept due_time_set set_next_due_frame by (simp add: tick_spec_def)
  next
    case (Some due)
    show ?thesis
    proof (cases "now < due")
      case True
      then show ?thesis using Some inv by (auto simp: tick_spec_def other_jobs_kept_def)
    next
      case False
      then obtain m where "next_due_at (cj_schedule spec) (cj_timezone spec) due = Inr m"
        using comp Some by (auto simp: computable_def not_less)
      then obtain k where k: "next_after next_due_at spec due now = Some k" "now < k" using next_after_later [OF later n(1)] by blast
      obtain tasks q where q: "tick_claim sha lab sh mc p now spec due st = Some (tasks, q)" "runs_inv q" "lease_inv q"
        "other_jobs_kept (?s, ?n) st q" "set (as_cron_runs st) \<subseteq> set (as_cron_runs q)" "due_handled sha p spec due q"
        using tick_claim_total [OF inv sub now] by blast
      have "tick_spec next_due_at sha lab sh mc p now spec st = Some (tasks, set_next_due ?s ?n now k q)"
        using Some False q(1) k(1) by (simp add: tick_spec_def)
      then show ?thesis
        using q k(2) kept Some due_time_set other_jobs_kept_trans [OF q(4) set_next_due_frame(1)] by (auto simp: set_next_due_frame(3))
    qed
  qed
qed

subsection \<open>All jobs\<close>

abbreviation spec_job :: "CronJobSpec \<Rightarrow> string \<times> string" where
  "spec_job spec \<equiv> (cj_service spec, cj_cron_name spec)"

lemma due_time_other: "other_jobs_kept (spec_job a) st st' \<Longrightarrow> spec_job b \<noteq> spec_job a \<Longrightarrow> due_time b st' = due_time b st"
  by (simp add: due_time_eq other_jobs_kept_def)

lemma tick_loop_total:
  assumes "runs_inv st" "lease_inv st" and sub: "cidr_wf (lr_container_subnet (mc_local_runtime mc))" and now: "unat now < 2 ^ 63"
    and later: "\<forall>s tz t n. next_due_at s tz t = Inr n \<longrightarrow> t < n"
    and "distinct (map spec_job specs)" "\<forall>spec \<in> set specs. computable next_due_at now spec st"
  shows "\<exists>tasks st'. tick_loop next_due_at sha lab sh mc p now specs st = Some (tasks, st') \<and> runs_inv st' \<and> lease_inv st' \<and>
    as_cron_job_specs st' = as_cron_job_specs st \<and> set (as_cron_runs st) \<subseteq> set (as_cron_runs st') \<and>
    (\<forall>b. spec_job b \<notin> spec_job ` set specs \<longrightarrow> due_time b st' = due_time b st) \<and>
    (\<forall>spec \<in> set specs. (\<exists>n. due_time spec st' = Some n \<and> now < n) \<and>
       (\<forall>due. due_time spec st = Some due \<and> due \<le> now \<longrightarrow> due_handled sha p spec due st'))"
  using assms(1,2,6,7)
proof (induction specs arbitrary: st)
  case (Cons a specs)
  obtain t1 s1 where one: "tick_spec next_due_at sha lab sh mc p now a st = Some (t1, s1)" "runs_inv s1" "lease_inv s1"
    "other_jobs_kept (spec_job a) st s1" "set (as_cron_runs st) \<subseteq> set (as_cron_runs s1)" "\<exists>n. due_time a s1 = Some n \<and> now < n"
    "\<forall>due. due_time a st = Some due \<and> due \<le> now \<longrightarrow> due_handled sha p a due s1"
    using tick_spec_total [OF Cons.prems(1,2) sub now later] Cons.prems(4) by (meson list.set_intros(1))
  have fresh: "spec_job a \<notin> spec_job ` set specs" using Cons.prems(3) by simp
  have other: "due_time b s1 = due_time b st" if "spec_job b \<noteq> spec_job a" for b using due_time_other [OF one(4) that] .
  have same: "due_time b s1 = due_time b st" if "b \<in> set specs" for b
  proof (rule other)
    have "spec_job b \<in> spec_job ` set specs" using that by (rule imageI)
    with fresh show "spec_job b \<noteq> spec_job a" by (auto simp del: prod.inject)
  qed
  have "\<forall>spec \<in> set specs. computable next_due_at now spec s1" using Cons.prems(4) same by (auto simp: computable_def)
  from Cons.IH [OF one(2,3) _ this] obtain t2 s2 where rest: "tick_loop next_due_at sha lab sh mc p now specs s1 = Some (t2, s2)"
    "runs_inv s2" "lease_inv s2" "as_cron_job_specs s2 = as_cron_job_specs s1" "set (as_cron_runs s1) \<subseteq> set (as_cron_runs s2)"
    "\<forall>b. spec_job b \<notin> spec_job ` set specs \<longrightarrow> due_time b s2 = due_time b s1"
    "\<forall>spec \<in> set specs. (\<exists>n. due_time spec s2 = Some n \<and> now < n) \<and>
       (\<forall>due. due_time spec s1 = Some due \<and> due \<le> now \<longrightarrow> due_handled sha p spec due s2)"
    using Cons.prems(3) by auto
  have run: "tick_loop next_due_at sha lab sh mc p now (a # specs) st = Some (t1 @ t2, s2)" using one(1) rest(1) by simp
  have first: "\<exists>n. due_time a s2 = Some n \<and> now < n" using rest(6) fresh one(6) by metis
  have handled: "due_handled sha p a due s2" if "due_time a st = Some due \<and> due \<le> now" for due
    using due_handled_mono [OF _ one(2) rest(2,5)] one(7) that by blast
  have specs: "as_cron_job_specs s2 = as_cron_job_specs st" using rest(4) one(4) by (simp add: other_jobs_kept_def)
  have untouched: "\<forall>b. spec_job b \<notin> spec_job ` set (a # specs) \<longrightarrow> due_time b s2 = due_time b st"
    using rest(6) other by simp
  have "\<forall>spec \<in> set (a # specs). (\<exists>n. due_time spec s2 = Some n \<and> now < n) \<and>
      (\<forall>due. due_time spec st = Some due \<and> due \<le> now \<longrightarrow> due_handled sha p spec due s2)"
    using first handled rest(7) same by simp
  then show ?case using run rest(2,3) specs subset_trans [OF one(5) rest(5)] untouched by blast
qed simp

lemma tick_loop_idle:
  "\<forall>spec \<in> set specs. \<exists>n. due_time spec st = Some n \<and> now < n \<Longrightarrow>
   tick_loop next_due_at sha lab sh mc p now specs st = Some ([], st)"
  by (induction specs) (auto simp: tick_spec_def)

section \<open>Properties\<close>

text \<open>A configuration for the example below.\<close>

definition demo_mesh :: MeshConfig where
  "demo_mesh =
     \<lparr>mc_project_id = ''p'', mc_recovery_epoch = 1, mc_node_id = ''l'', mc_wireguard_interface = ''wg0'',
      mc_wireguard_private_key_path = ''k'', mc_replication_bind = SocketAddr (V4 1) 2, mc_dns_bind_address = 3,
      mc_local_runtime = \<lparr>lr_bridge_network = ''b'', lr_bridge_interface = ''b'', lr_proxy_address = 4, lr_proxy_routes = [],
        lr_tcp_routes = [], lr_container_subnet = Ipv4Cidr 0 24, lr_bridge_gateway = 5, lr_container_cidr = Ipv4Cidr 0 16,
        lr_wireguard_port = 6, lr_peer_public_ips = [], lr_public_host = ''h''\<rparr>,
      mc_reconcile_interval_secs = 10, mc_store_soft_quota_bytes = 1, mc_compaction_interval_secs = 1, mc_dns_forwarders = []\<rparr>"

text \<open>C37. The scheduler makes progress. If every installed schedule can be computed and its occurrences lie after the time
  asked for, a tick completes without a panic and keeps the tables consistent; afterwards every job has a next due
  time in the future, and every due time that had come is handled: its run is recorded, an active run of the
  job stood in the way, or its identifier was taken. A second tick at the same time does nothing.\<close>

theorem tick_advances_schedules:
  assumes inv: "runs_inv st" "lease_inv st" and sub: "cidr_wf (lr_container_subnet (mc_local_runtime mc))" and now: "unat now < 2 ^ 63"
    and later: "\<forall>s tz t n. next_due_at s tz t = Inr n \<longrightarrow> t < n"
    and jobs: "distinct (map spec_job (cron_specs st))" and comp: "\<forall>spec \<in> set (cron_specs st). computable next_due_at now spec st"
  shows "\<exists>tasks st'. tick next_due_at sha256 deployment_label show_lease_error mc project now st = Some (tasks, st') \<and>
    runs_inv st' \<and> lease_inv st' \<and> cron_specs st' = cron_specs st \<and> set (as_cron_runs st) \<subseteq> set (as_cron_runs st') \<and>
    (\<forall>spec \<in> set (cron_specs st). (\<exists>n. due_time spec st' = Some n \<and> now < n) \<and>
       (\<forall>due. due_time spec st = Some due \<and> due \<le> now \<longrightarrow> due_handled sha256 project spec due st')) \<and>
    tick next_due_at sha256 deployment_label show_lease_error mc project now st' = Some ([], st')"
proof -
  obtain tasks st' where run: "tick_loop next_due_at sha256 deployment_label show_lease_error mc project now (cron_specs st) st = Some (tasks, st')"
    and res: "runs_inv st'" "lease_inv st'" "as_cron_job_specs st' = as_cron_job_specs st" "set (as_cron_runs st) \<subseteq> set (as_cron_runs st')"
      "\<forall>spec \<in> set (cron_specs st). (\<exists>n. due_time spec st' = Some n \<and> now < n) \<and>
         (\<forall>due. due_time spec st = Some due \<and> due \<le> now \<longrightarrow> due_handled sha256 project spec due st')"
    using tick_loop_total [OF inv sub now later jobs comp] by blast
  have specs: "cron_specs st' = cron_specs st" by (simp add: cron_specs_def res(3))
  have "tick_loop next_due_at sha256 deployment_label show_lease_error mc project now (cron_specs st') st' = Some ([], st')"
    by (rule tick_loop_idle) (use res(5) specs in simp)
  then show ?thesis using run res specs unfolding tick_def by blast
qed

theorem tick_advances_schedules_witness:
  "\<exists>tasks st'. tick (\<lambda>_ _ t. if t < 1000 then Inr (t + 60) else Inl []) (\<lambda>_. [1]) (\<lambda>_. None) (\<lambda>_. []) demo_mesh ''p'' 100
      (set_next_due ''web'' ''sync'' 0 60 (snd (apply_cron_spec demo_job store_empty))) = Some (tasks, st') \<and>
    (\<exists>n. due_time demo_job st' = Some n \<and> 100 < n) \<and> due_handled (\<lambda>_. [1]) ''p'' demo_job 60 st'"
proof -
  have sub: "cidr_wf (lr_container_subnet (mc_local_runtime demo_mesh))" by (simp add: demo_mesh_def cidr_wf_def)
  let ?next = "\<lambda>(_ :: string) (_ :: string) (t :: u64). if t < 1000 then Inr (t + 60) else (Inl [] :: (string, u64) result)"
  let ?st = "set_next_due ''web'' ''sync'' 0 60 (snd (apply_cron_spec demo_job store_empty))"
  have specs: "cron_specs ?st = [demo_job]"
    by (simp add: cron_specs_def set_next_due_def set_cron_scheduler_state_def apply_cron_spec_def store_empty_def bt_values_def Let_def)
  have job: "spec_job demo_job = (''web'', ''sync'')" by (simp add: demo_job_def)
  have due: "due_time demo_job ?st = Some 60"
    using due_time_set [of demo_job] job by simp
  have runs: "as_cron_runs ?st = []" "as_address_leases ?st = []"
    by (simp_all add: set_next_due_frame apply_cron_spec_def store_empty_def Let_def)
  have inv: "runs_inv ?st" "lease_inv ?st" using runs by (simp_all add: lease_inv_def bt_values_def)
  have later: "\<forall>s tz t n. ?next s tz t = Inr n \<longrightarrow> t < n"
    by (auto split: if_splits simp: word_less_nat_alt unat_word_ariths)
  have comp: "\<forall>spec \<in> set (cron_specs ?st). computable ?next 100 spec ?st" unfolding specs by (simp add: computable_def due)
  have "distinct (map spec_job (cron_specs ?st))" unfolding specs by simp
  from tick_advances_schedules [OF inv sub _ later this comp, of "\<lambda>_. [1]" "\<lambda>_. None" "\<lambda>_. []" "''p''"]
  show ?thesis
    using due unfolding specs by auto
qed

end
