(* ===== verification/Replication.thy ===== *)
theory Replication
  imports Runtime
begin

text \<open>
  Moving records between stores: the exchange between two agents (\<^verbatim>\<open>crates/jiji-agent/src/catalog_replication.rs\<close>)
  and the backup of one agent (\<^verbatim>\<open>backup.rs\<close>). Every record is committed on its own, so a refused
  record leaves the ones before it in the store: the loops return the store beside the result. JSON is a
  pair of parameters; \<open>usage\<close> gives the pages of the database and their size.
\<close>

section \<open>Exchanges\<close>

definition MAX_CATALOG_FRAME_BYTES :: nat where
  "MAX_CATALOG_FRAME_BYTES = 1024 * 1024"

definition MAX_CATALOG_RECORDS :: nat where
  "MAX_CATALOG_RECORDS = 4096"

definition MAX_DESIRED_RECORDS :: nat where
  "MAX_DESIRED_RECORDS = 1024"

record Exchange =
  ex_project_id :: string
  ex_recovery_epoch :: u64
  ex_protocol_version :: nat
  ex_schema_version :: nat
  ex_operations :: "CatalogRecord list"
  ex_desired_operations :: "DesiredStateRecord list"

datatype CatalogReplicationError =
    PIo
  | PSerialization
  | PStore StoreError
  | PMembership MembershipError
  | PFrameTooLarge
  | PSnapshotTooLarge (p_kind: string) (p_records: nat) (p_limit: nat)
  | PWrongProject
  | PRecoveryEpoch
  | PIncompatibleVersion
  | PLockPoisoned
  | PTimeout

definition exchange_validate :: "Exchange \<Rightarrow> NodeIdentity \<Rightarrow> (CatalogReplicationError, unit) result" where
  "exchange_validate x me =
     (if ex_project_id x \<noteq> ni_project_id me then Inl PWrongProject
      else if ex_recovery_epoch x \<noteq> ni_recovery_epoch me then Inl PRecoveryEpoch
      else if ex_protocol_version x \<noteq> CATALOG_PROTOCOL_VERSION \<or> ex_schema_version x \<noteq> CATALOG_SCHEMA_VERSION
        then Inl PIncompatibleVersion
      else if MAX_CATALOG_RECORDS < length (ex_operations x)
        then Inl (PSnapshotTooLarge ''catalog'' (length (ex_operations x)) MAX_CATALOG_RECORDS)
      else if MAX_DESIRED_RECORDS < length (ex_desired_operations x)
        then Inl (PSnapshotTooLarge ''desired-state'' (length (ex_desired_operations x)) MAX_DESIRED_RECORDS)
      else Inr ())"

definition exchange_from_store :: "AgentStore \<Rightarrow> NodeIdentity \<Rightarrow> (CatalogReplicationError, Exchange) result" where
  "exchange_from_store st me =
     (let x = \<lparr>ex_project_id = ni_project_id me, ex_recovery_epoch = ni_recovery_epoch me,
               ex_protocol_version = CATALOG_PROTOCOL_VERSION, ex_schema_version = CATALOG_SCHEMA_VERSION,
               ex_operations = filter (\<lambda>r. cr_owner_node_id r = ni_node_id me) (latest_catalog st),
               ex_desired_operations = filter (\<lambda>r. dr_author_node_id r = ni_node_id me) (desired_snapshot_operations st)\<rparr>
      in case exchange_validate x me of Inl e \<Rightarrow> Inl e | Inr _ \<Rightarrow> Inr x)"

type_synonym usage_fn = "AgentStore \<Rightarrow> u64 \<times> u64"

fun apply_catalogs ::
  "(CatalogRecord \<Rightarrow> string) \<Rightarrow> usage_fn \<Rightarrow> string \<Rightarrow> u64 \<Rightarrow> MembershipView \<Rightarrow> RecordProvenance \<Rightarrow> CatalogRecord list \<Rightarrow>
   AgentStore \<Rightarrow> (StoreError, unit) result \<times> AgentStore" where
  "apply_catalogs hash usage project_id recovery_epoch membership p [] st = (Inr (), st)"
| "apply_catalogs hash usage project_id recovery_epoch membership p (r # rs) st =
     (case apply_catalog hash (fst (usage st)) (snd (usage st)) project_id recovery_epoch membership r p st of
        Inl e \<Rightarrow> (Inl e, st)
      | Inr (_, st') \<Rightarrow> apply_catalogs hash usage project_id recovery_epoch membership p rs st')"

fun apply_desireds ::
  "(DesiredStateRecord \<Rightarrow> string) \<Rightarrow> usage_fn \<Rightarrow> string \<Rightarrow> u64 \<Rightarrow> MembershipView \<Rightarrow> RecordProvenance \<Rightarrow> DesiredStateRecord list \<Rightarrow>
   AgentStore \<Rightarrow> (StoreError, unit) result \<times> AgentStore" where
  "apply_desireds hash usage project_id recovery_epoch membership p [] st = (Inr (), st)"
| "apply_desireds hash usage project_id recovery_epoch membership p (r # rs) st =
     (case apply_desired hash (fst (usage st)) (snd (usage st)) project_id recovery_epoch membership r p st of
        Inl e \<Rightarrow> (Inl e, st)
      | Inr (_, st') \<Rightarrow> apply_desireds hash usage project_id recovery_epoch membership p rs st')"

definition apply_exchange ::
  "(MembershipRecord \<Rightarrow> string) \<Rightarrow> (CatalogRecord \<Rightarrow> string) \<Rightarrow> (DesiredStateRecord \<Rightarrow> string) \<Rightarrow> usage_fn \<Rightarrow> Exchange \<Rightarrow> NodeIdentity \<Rightarrow>
   SocketAddr \<Rightarrow> AgentStore \<Rightarrow> (CatalogReplicationError, unit) result \<times> AgentStore" where
  "apply_exchange mh ch dh usage x me peer st =
     (case exchange_validate x me of
        Inl e \<Rightarrow> (Inl e, st)
      | Inr _ \<Rightarrow>
          (case membership_from_records mh (scope me) (membership_operations st) of
             Inl e \<Rightarrow> (Inl (PMembership e), st)
           | Inr membership \<Rightarrow>
               (case apply_catalogs ch usage (ni_project_id me) (ni_recovery_epoch me) membership (Peer peer) (ex_operations x) st of
                  (Inl e, st') \<Rightarrow> (Inl (PStore e), st')
                | (Inr _, st') \<Rightarrow>
                    (case apply_desireds dh usage (ni_project_id me) (ni_recovery_epoch me) membership (Peer peer)
                            (ex_desired_operations x) st' of
                       (Inl e, st'') \<Rightarrow> (Inl (PStore e), st'')
                     | (Inr _, st'') \<Rightarrow> (Inr (), st'')))))"

subsection \<open>Frames\<close>

definition be_bytes :: "nat \<Rightarrow> nat list" where
  "be_bytes n = [n div 2 ^ 24 mod 256, n div 2 ^ 16 mod 256, n div 2 ^ 8 mod 256, n mod 256]"

definition from_be_bytes :: "nat list \<Rightarrow> nat" where
  "from_be_bytes bs = foldl (\<lambda>n b. n * 256 + b) 0 bs"

definition write_exchange :: "(Exchange \<Rightarrow> nat list) \<Rightarrow> Exchange \<Rightarrow> (CatalogReplicationError, nat list) result" where
  "write_exchange to_json x =
     (let payload = to_json x
      in if MAX_CATALOG_FRAME_BYTES < length payload then Inl PFrameTooLarge
         else Inr (be_bytes (length payload) @ payload))"

text \<open>Reading from the bytes that will arrive; the rest of them is returned.\<close>

definition read_exchange :: "(nat list \<Rightarrow> Exchange option) \<Rightarrow> nat list \<Rightarrow> (CatalogReplicationError, Exchange \<times> nat list) result" where
  "read_exchange from_json bytes =
     (if length bytes < 4 then Inl PIo
      else let len = from_be_bytes (take 4 bytes); rest = drop 4 bytes
           in if MAX_CATALOG_FRAME_BYTES < len then Inl PFrameTooLarge
              else if length rest < len then Inl PIo
              else case from_json (take len rest) of None \<Rightarrow> Inl PSerialization | Some x \<Rightarrow> Inr (x, drop len rest))"

text \<open>Each side sends its snapshot under one lock and applies what it receives under another; the store may
  change in between.\<close>

definition send_exchange :: "(Exchange \<Rightarrow> nat list) \<Rightarrow> NodeIdentity \<Rightarrow> AgentStore \<Rightarrow> (CatalogReplicationError, nat list) result" where
  "send_exchange to_json me st = (case exchange_from_store st me of Inl e \<Rightarrow> Inl e | Inr x \<Rightarrow> write_exchange to_json x)"

definition receive_exchange ::
  "(MembershipRecord \<Rightarrow> string) \<Rightarrow> (CatalogRecord \<Rightarrow> string) \<Rightarrow> (DesiredStateRecord \<Rightarrow> string) \<Rightarrow> usage_fn \<Rightarrow>
   (nat list \<Rightarrow> Exchange option) \<Rightarrow> nat list \<Rightarrow> NodeIdentity \<Rightarrow> SocketAddr \<Rightarrow> AgentStore \<Rightarrow>
   (CatalogReplicationError, unit) result \<times> AgentStore" where
  "receive_exchange mh ch dh usage from_json bytes me peer st =
     (case read_exchange from_json bytes of
        Inl e \<Rightarrow> (Inl e, st)
      | Inr (x, _) \<Rightarrow> apply_exchange mh ch dh usage x me peer st)"

section \<open>Backups\<close>

definition BACKUP_FORMAT_VERSION :: nat where
  "BACKUP_FORMAT_VERSION = 2"

record AgentBackupSnapshot =
  bk_format_version :: nat
  bk_project_id :: string
  bk_recovery_epoch :: u64
  bk_node_id :: string
  bk_catalog :: "CatalogRecord list"
  bk_desired :: "DesiredStateRecord list"
  bk_address_leases :: "AddressLease list"

datatype BackupError =
    UnsupportedFormat nat
  | BackupWrongProject
  | BackupRecoveryEpoch
  | BackupMembership MembershipError
  | BackupStore StoreError
  | LeaseConflict Ipv4Addr string

definition backup_export :: "AgentStore \<Rightarrow> string \<Rightarrow> u64 \<Rightarrow> string \<Rightarrow> AgentBackupSnapshot" where
  "backup_export st project_id recovery_epoch node_id =
     \<lparr>bk_format_version = BACKUP_FORMAT_VERSION, bk_project_id = project_id, bk_recovery_epoch = recovery_epoch,
      bk_node_id = node_id, bk_catalog = latest_catalog st, bk_desired = desired_snapshot_operations st,
      bk_address_leases = address_leases st\<rparr>"

lemma backup_export_simps [simp]:
  "bk_format_version (backup_export st pid ep node) = BACKUP_FORMAT_VERSION"
  "bk_project_id (backup_export st pid ep node) = pid" "bk_recovery_epoch (backup_export st pid ep node) = ep"
  "bk_catalog (backup_export st pid ep node) = latest_catalog st"
  "bk_desired (backup_export st pid ep node) = desired_snapshot_operations st"
  "bk_address_leases (backup_export st pid ep node) = address_leases st"
  by (simp_all add: backup_export_def)

definition validate_identity :: "AgentBackupSnapshot \<Rightarrow> string \<Rightarrow> u64 \<Rightarrow> (BackupError, unit) result" where
  "validate_identity b project_id recovery_epoch =
     (if bk_format_version b \<noteq> BACKUP_FORMAT_VERSION then Inl (UnsupportedFormat (bk_format_version b))
      else if bk_project_id b \<noteq> project_id then Inl BackupWrongProject
      else if bk_recovery_epoch b \<noteq> recovery_epoch then Inl BackupRecoveryEpoch
      else Inr ())"

fun import_leases :: "AddressLease list \<Rightarrow> AgentStore \<Rightarrow> (BackupError, unit) result \<times> AgentStore" where
  "import_leases [] st = (Inr (), st)"
| "import_leases (l # ls) st =
     (case recover_address_lease (al_deployment_id l) (al_replica_id l) (al_address l) st of
        (False, st') \<Rightarrow> (Inl (LeaseConflict (al_address l) (al_deployment_id l)), st')
      | (True, st') \<Rightarrow>
          (if al_state l = ''quarantined'' then
             (case quarantine_address_lease (al_deployment_id l)
                     (case al_quarantine_until l of Some t \<Rightarrow> t | None \<Rightarrow> - 1) st' of
                Inl e \<Rightarrow> (Inl (BackupStore e), st')
              | Inr (_, st'') \<Rightarrow> import_leases ls st'')
           else import_leases ls st'))"

definition backup_import ::
  "(MembershipRecord \<Rightarrow> string) \<Rightarrow> (CatalogRecord \<Rightarrow> string) \<Rightarrow> (DesiredStateRecord \<Rightarrow> string) \<Rightarrow> usage_fn \<Rightarrow> AgentBackupSnapshot \<Rightarrow>
   string \<Rightarrow> u64 \<Rightarrow> AgentStore \<Rightarrow> (BackupError, unit) result \<times> AgentStore" where
  "backup_import mh ch dh usage b project_id recovery_epoch st =
     (case validate_identity b project_id recovery_epoch of
        Inl e \<Rightarrow> (Inl e, st)
      | Inr _ \<Rightarrow>
          (case membership_from_records mh \<lparr>ms_project_id = project_id, ms_recovery_epoch = recovery_epoch\<rparr> (membership_operations st) of
             Inl e \<Rightarrow> (Inl (BackupMembership e), st)
           | Inr membership \<Rightarrow>
               (case apply_catalogs ch usage project_id recovery_epoch membership Verified (bk_catalog b) st of
                  (Inl e, st') \<Rightarrow> (Inl (BackupStore e), st')
                | (Inr _, st') \<Rightarrow>
                    (case apply_desireds dh usage project_id recovery_epoch membership Verified (bk_desired b) st' of
                       (Inl e, st'') \<Rightarrow> (Inl (BackupStore e), st'')
                     | (Inr _, st'') \<Rightarrow> import_leases (bk_address_leases b) st''))))"

section \<open>Loading a snapshot into a store without catalog records\<close>

text \<open>The map a list of records with distinct keys gives, in whatever order they arrive.\<close>

abbreviation collected :: "('r \<Rightarrow> 'k::linorder) \<Rightarrow> 'r list \<Rightarrow> ('k, 'r) btree_map" where
  "collected key rs \<equiv> foldl (\<lambda>t r. bt_insert (key r) r t) [] rs"

abbreviation deployments :: "CatalogRecord list \<Rightarrow> (string, CatalogRecord) btree_map" where
  "deployments \<equiv> collected cr_deployment_id"

lemma option_eqI: "(\<And>x. a = Some x \<longleftrightarrow> b = Some x) \<Longrightarrow> a = b"
  by (metis option.exhaust)

lemma collected_get:
  assumes "distinct (map key rs)"
  shows "map_of (collected key rs) k = Some r \<longleftrightarrow> r \<in> set rs \<and> key r = k"
  using assms by (induction rs rule: rev_induct) (auto, metis imageI)

lemma collected_wf: "bt_wf (collected key rs)"
  by (rule bt.wf_fold_ins) simp

lemma collected_values: "distinct (map key rs) \<Longrightarrow> set (bt_values (collected key rs)) = set rs"
  by (auto simp: bt_values_mem [OF collected_wf] collected_get)

lemma keyed_distinct: "keyed key m \<Longrightarrow> mset rs = mset (bt_values m) \<Longrightarrow> distinct (map key rs)"
  by (metis bt_wf_distinct keyed_def keyed_fst mset_eq_imp_distinct_iff mset_map)

lemma collected_keyed:
  assumes k: "keyed key m" and ms: "mset rs = mset (bt_values m)"
  shows "collected key rs = m"
proof (rule bt_ext [OF collected_wf])
  show "bt_wf m" using k by (simp add: keyed_def)
  show "map_of (collected key rs) = map_of m"
  proof
    fix i
    have "map_of (collected key rs) i = Some x \<longleftrightarrow> map_of m i = Some x" for x
      unfolding collected_get [OF keyed_distinct [OF k ms]] mset_eq_setD [OF ms] keyed_values [OF k]
      using k by (auto simp: keyed_def)
    then show "map_of (collected key rs) i = map_of m i" by (rule option_eqI)
  qed
qed

text \<open>\<open>st\<close> holds exactly the records \<open>rs\<close>, loaded in this order.\<close>

definition loaded :: "(CatalogRecord \<Rightarrow> string) \<Rightarrow> string \<Rightarrow> u64 \<Rightarrow> MembershipView \<Rightarrow> CatalogRecord list \<Rightarrow> AgentStore \<Rightarrow> bool" where
  "loaded hash pid ep mem rs st \<longleftrightarrow>
     as_soft_quota_bytes st = None \<and> as_catalog_operations st = map (\<lambda>r. (hash r, r)) rs \<and>
     as_catalog_records st = bt_map (crow hash) (deployments rs) \<and>
     catalog_from_records hash pid ep mem (verified (catalog_operations st)) =
       Inr \<lparr>cv_records = deployments rs, cv_record_ids = hash ` set rs\<rparr>"

abbreviation storable :: "CatalogRecord \<Rightarrow> bool" where
  "storable r \<equiv> unat (cr_owner_epoch r) < 2 ^ 63 \<and> unat (cr_revision r) < 2 ^ 63"

abbreviation epoch_order :: "CatalogRecord \<Rightarrow> CatalogRecord \<Rightarrow> bool" where
  "epoch_order \<equiv> \<lambda>x y. cr_replica_id x = cr_replica_id y \<longrightarrow> cr_owner_epoch x \<le> cr_owner_epoch y"

lemma catalog_replay_verifies:
  assumes "replay (catalog_step hash pid ep mem) v L = Inr w" "r \<in> set L"
  shows "catalog_verify r Verified pid ep mem = Inr ()"
  using assms
proof (induction L arbitrary: v)
  case (Cons x L)
  then obtain out v' where "catalog_step hash pid ep mem v x = Inr (out, v')" "replay (catalog_step hash pid ep mem) v' L = Inr w"
    by (auto split: sum.splits)
  moreover have "catalog_verify x Verified pid ep mem = Inr ()"
    using calculation(1) unfolding catalog_step_def catalog_apply_Inr by blast
  ultimately show ?case using Cons.IH Cons.prems(2) by auto
qed simp

lemma loaded_step:
  assumes l: "loaded hash pid ep mem rs st" and ok: "catalog_verify r p pid ep mem = Inr ()" and b: "storable r"
    and d: "distinct (map cr_deployment_id (rs @ [r]))" and h: "distinct (map hash (rs @ [r]))"
  shows "if \<forall>x \<in> set rs. epoch_order x r
    then \<exists>st'. apply_catalog hash pages page_size pid ep mem r p st = Inr (Applied, st') \<and> loaded hash pid ep mem (rs @ [r]) st'
    else apply_catalog hash pages page_size pid ep mem r p st = Inl (SCatalog CStaleOwnerEpoch)"
proof -
  let ?v = "\<lparr>cv_records = deployments rs, cv_record_ids = hash ` set rs\<rparr>"
  have ids: "hash r \<notin> fst ` set (as_catalog_operations st)" "hash r \<notin> hash ` set rs"
    using l h by (auto simp: loaded_def)
  have cap: "ensure_replication_capacity pages page_size st = Inr ()"
    using l by (simp add: loaded_def ensure_replication_capacity_def)
  have v: "catalog_from_records hash pid ep mem (verified (catalog_operations st)) = Inr ?v"
    using l by (simp add: loaded_def)
  note new = apply_catalog_new [OF ids(1) cap v, where p = p]
  have fence: "fenced ?v r \<longleftrightarrow> \<not> (\<forall>x \<in> set rs. epoch_order x r)"
    using d by (auto simp: fenced_def catalog_all_def collected_values not_le)
  have free: "map_of (deployments rs) (cr_deployment_id r) = None"
  proof (rule ccontr)
    assume "map_of (deployments rs) (cr_deployment_id r) \<noteq> None"
    then obtain x where "map_of (deployments rs) (cr_deployment_id r) = Some x" by blast
    then have "x \<in> set rs" "cr_deployment_id x = cr_deployment_id r" using d collected_get [of cr_deployment_id rs] by auto
    then have "cr_deployment_id r \<in> cr_deployment_id ` set rs" by (metis imageI)
    with d show False by simp
  qed
  have ap: "catalog_apply hash pid ep mem ?v r q =
      (if fenced ?v r then Inl CStaleOwnerEpoch
       else Inr (Applied, \<lparr>cv_records = deployments (rs @ [r]), cv_record_ids = hash ` set (rs @ [r])\<rparr>))"
    if "catalog_verify r q pid ep mem = Inr ()" for q
    using that ids(2) free by (simp add: catalog_apply_def replica_owner_epoch_fenced catalog_insert_def)
  show ?thesis
  proof (cases "\<forall>x \<in> set rs. epoch_order x r")
    case False
    with fence have "fenced ?v r" by blast
    with False show ?thesis by (simp add: new ap [OF ok])
  next
    case True
    define st' where "st' = st\<lparr>as_catalog_operations := as_catalog_operations st @ [(hash r, r)],
        as_catalog_records := bt_insert (cr_deployment_id r) (crow hash r) (as_catalog_records st)\<rparr>"
    have nf: "\<not> fenced ?v r" using True fence by blast
    have "apply_catalog hash pages page_size pid ep mem r p st = Inr (Applied, st')"
      using nf b by (simp add: new ap [OF ok] st'_def)
    moreover have "catalog_from_records hash pid ep mem (verified (catalog_operations st')) =
        Inr \<lparr>cv_records = deployments (rs @ [r]), cv_record_ids = hash ` set (rs @ [r])\<rparr>"
      using v nf ap [OF catalog_verify_verified [OF ok]]
      by (simp add: st'_def catalog_operations_def catalog_from_records_def replay_append)
    then have "loaded hash pid ep mem (rs @ [r]) st'"
      using l by (simp add: loaded_def st'_def bt_map_insert)
    ultimately show ?thesis using True by simp
  qed
qed

lemma apply_catalogs_loads:
  assumes "loaded hash pid ep mem rs st" and "\<forall>r \<in> set qs. catalog_verify r p pid ep mem = Inr () \<and> storable r"
    and "distinct (map cr_deployment_id (rs @ qs))" "distinct (map hash (rs @ qs))" "sorted_wrt epoch_order rs"
  shows "\<exists>st'. if sorted_wrt epoch_order (rs @ qs)
    then apply_catalogs hash usage pid ep mem p qs st = (Inr (), st') \<and> loaded hash pid ep mem (rs @ qs) st'
    else apply_catalogs hash usage pid ep mem p qs st = (Inl (SCatalog CStaleOwnerEpoch), st')"
  using assms
proof (induction qs arbitrary: rs st)
  case (Cons r qs)
  have "distinct (map cr_deployment_id (rs @ [r]))" "distinct (map hash (rs @ [r]))" using Cons.prems(3,4) by auto
  note step = loaded_step [OF Cons.prems(1) _ _ this, where p = p and pages = "fst (usage st)" and page_size = "snd (usage st)"]
  show ?case
  proof (cases "\<forall>x \<in> set rs. epoch_order x r")
    case False
    then have "apply_catalogs hash usage pid ep mem p (r # qs) st = (Inl (SCatalog CStaleOwnerEpoch), st)"
      using step Cons.prems(2) by simp
    moreover have "\<not> sorted_wrt epoch_order (rs @ r # qs)" using False by (auto simp: sorted_wrt_append)
    ultimately show ?thesis by (simp only: if_False) blast
  next
    case True
    then obtain st' where st': "apply_catalog hash (fst (usage st)) (snd (usage st)) pid ep mem r p st = Inr (Applied, st')"
      "loaded hash pid ep mem (rs @ [r]) st'" using step Cons.prems(2) by auto
    have "sorted_wrt epoch_order (rs @ [r])" using True Cons.prems(5) by (simp add: sorted_wrt_append)
    note IH = Cons.IH [OF st'(2) _ _ _ this, unfolded append_assoc append_Cons append_Nil]
    have "\<exists>st''. if sorted_wrt epoch_order (rs @ r # qs)
      then apply_catalogs hash usage pid ep mem p qs st' = (Inr (), st'') \<and> loaded hash pid ep mem (rs @ r # qs) st''
      else apply_catalogs hash usage pid ep mem p qs st' = (Inl (SCatalog CStaleOwnerEpoch), st'')"
      by (rule IH) (use Cons.prems(2-4) in simp_all)
    then show ?thesis by (simp only: apply_catalogs.simps st'(1) sum.case prod.case)
  qed
qed simp

lemma latest_catalog_winners:
  assumes inv: "catalog_store_inv hash pid ep mem st"
  shows "distinct (map cr_deployment_id (latest_catalog st))" "distinct (map hash (latest_catalog st))"
    "r \<in> set (latest_catalog st) \<Longrightarrow> catalog_verify r Verified pid ep mem = Inr ()"
    "as_catalog_records st = bt_map (crow hash) (deployments (latest_catalog st))"
proof -
  obtain v where v: "replay (catalog_step hash pid ep mem) catalog_empty (map snd (as_catalog_operations st)) = Inr v"
    "as_catalog_records st = bt_map (crow hash) (cv_records v)" and d: "distinct (map fst (as_catalog_operations st))"
    using inv unfolding catalog_store_inv_def log_ok_def by blast
  have ids: "map hash (map snd (as_catalog_operations st)) = map fst (as_catalog_operations st)"
    using log_ok_ids [OF inv [unfolded catalog_store_inv_def]] .
  have facts: "keyed cr_deployment_id (cv_records v)" "set (bt_values (cv_records v)) \<subseteq> set (map snd (as_catalog_operations st))"
    using cview.replay_facts [OF v(1)] by blast+
  have ms: "mset (latest_catalog st) = mset (bt_values (cv_records v))" by (rule latest_catalog_mset [OF v(2)])
  have set_eq: "set (latest_catalog st) = set (bt_values (cv_records v))" using ms by (rule mset_eq_setD)
  show dk: "distinct (map cr_deployment_id (latest_catalog st))" by (rule keyed_distinct [OF facts(1) ms])
  have "inj_on hash (set (map snd (as_catalog_operations st)))"
    using d unfolding ids [symmetric] distinct_map by blast
  then have "inj_on hash (set (latest_catalog st))" unfolding set_eq by (rule inj_on_subset [OF _ facts(2)])
  then show "distinct (map hash (latest_catalog st))" using dk by (simp add: distinct_map)
  show "catalog_verify r Verified pid ep mem = Inr ()" if "r \<in> set (latest_catalog st)"
  proof -
    have "r \<in> set (map snd (as_catalog_operations st))" using that set_eq facts(2) by blast
    with v(1) show ?thesis by (rule catalog_replay_verifies)
  qed
  show "as_catalog_records st = bt_map (crow hash) (deployments (latest_catalog st))"
    unfolding collected_keyed [OF facts(1) ms] by (rule v(2))
qed

text \<open>Desired records and leases leave the catalog alone.\<close>

lemma apply_desired_catalog:
  "apply_desired hash pages page_size pid ep mem r p st = Inr (out, st') \<Longrightarrow> as_catalog_records st' = as_catalog_records st"
  by (auto simp: apply_desired_def Let_def split: if_splits sum.splits prod.splits)

lemma apply_desired_error: "apply_desired hash pages page_size pid ep mem r p st \<noteq> Inl (SCatalog e)"
  by (auto simp: apply_desired_def Let_def ensure_replication_capacity_def upsert_desired_record_def bind_u64_def
      split: if_splits sum.splits prod.splits option.splits)

lemma apply_desireds_catalog:
  "apply_desireds hash usage pid ep mem p rs st = (res, st') \<Longrightarrow>
   as_catalog_records st' = as_catalog_records st \<and> res \<noteq> Inl (SCatalog e)"
proof (induction rs arbitrary: st)
  case (Cons r rs)
  show ?case
  proof (cases "apply_desired hash (fst (usage st)) (snd (usage st)) pid ep mem r p st")
    case (Inl e')
    with Cons.prems apply_desired_error show ?thesis by auto
  next
    case (Inr os)
    then obtain out st1 where os: "apply_desired hash (fst (usage st)) (snd (usage st)) pid ep mem r p st = Inr (out, st1)"
      by (cases os) simp
    with Cons.prems have "apply_desireds hash usage pid ep mem p rs st1 = (res, st')" by simp
    from Cons.IH [OF this] apply_desired_catalog [OF os] show ?thesis by simp
  qed
qed auto

lemma recover_address_lease_frame:
  "recover_address_lease d r a st = (ok, st') \<Longrightarrow> as_catalog_records st' = as_catalog_records st"
  by (auto simp: recover_address_lease_def split: option.splits if_splits)

lemma quarantine_address_lease_frame:
  "quarantine_address_lease d u st = Inr (ok, st') \<Longrightarrow> as_catalog_records st' = as_catalog_records st"
  by (auto simp: quarantine_address_lease_def split: option.splits sum.splits)

lemma quarantine_address_lease_error: "quarantine_address_lease d u st = Inl e \<Longrightarrow> e = SDatabase"
  by (auto simp: quarantine_address_lease_def bind_u64_def split: option.splits if_splits)

lemma import_leases_catalog:
  "import_leases ls st = (res, st') \<Longrightarrow> as_catalog_records st' = as_catalog_records st \<and> res \<noteq> Inl (BackupStore (SCatalog e))"
proof (induction ls arbitrary: st)
  case (Cons l ls)
  obtain ok st1 where r: "recover_address_lease (al_deployment_id l) (al_replica_id l) (al_address l) st = (ok, st1)"
    by (cases "recover_address_lease (al_deployment_id l) (al_replica_id l) (al_address l) st")
  note fr = recover_address_lease_frame [OF r]
  show ?case
  proof (cases "ok \<and> al_state l = ''quarantined''")
    case False
    with Cons.prems Cons.IH [of st1] fr show ?thesis by (cases ok) (auto simp: r)
  next
    case True
    define u where "u = (case al_quarantine_until l of Some t \<Rightarrow> t | None \<Rightarrow> - 1)"
    show ?thesis
    proof (cases "quarantine_address_lease (al_deployment_id l) u st1")
      case (Inl e')
      with True Cons.prems fr quarantine_address_lease_error [OF Inl] show ?thesis by (auto simp: r u_def)
    next
      case (Inr os)
      then obtain o' st2 where q: "quarantine_address_lease (al_deployment_id l) u st1 = Inr (o', st2)" by (cases os) simp
      with True Cons.prems have "import_leases ls st2 = (res, st')" by (simp add: r u_def)
      from Cons.IH [OF this] quarantine_address_lease_frame [OF q] fr show ?thesis by simp
    qed
  qed
qed auto

section \<open>Frames round trip\<close>

lemma be_bytes_length [simp]: "length (be_bytes n) = 4"
  by (simp add: be_bytes_def)

lemma be_bytes_back: "n < 2 ^ 32 \<Longrightarrow> from_be_bytes (be_bytes n) = n"
proof -
  assume n: "n < 2 ^ 32"
  have "n div 2 ^ 24 mod 256 = n div 2 ^ 24" using n by (simp add: less_mult_imp_div_less)
  moreover have "n div 2 ^ 24 = n div 2 ^ 16 div 256" "n div 2 ^ 16 = n div 2 ^ 8 div 256" "n div 2 ^ 8 = n div 256"
    by (simp_all add: div_mult2_eq [symmetric])
  ultimately show ?thesis
    unfolding from_be_bytes_def be_bytes_def by (simp add: div_mult_mod_eq)
qed

text \<open>What one side writes, the other reads, whatever follows on the connection.\<close>

lemma frame_roundtrip:
  assumes json: "from_json (to_json x) = Some x" and w: "write_exchange to_json x = Inr bytes"
  shows "read_exchange from_json (bytes @ rest) = Inr (x, rest)"
proof -
  have len: "length (to_json x) \<le> MAX_CATALOG_FRAME_BYTES" and b: "bytes = be_bytes (length (to_json x)) @ to_json x"
    using w by (auto simp: write_exchange_def Let_def split: if_splits)
  have "from_be_bytes (be_bytes (length (to_json x))) = length (to_json x)"
    using len by (intro be_bytes_back) (simp add: MAX_CATALOG_FRAME_BYTES_def)
  with len json show ?thesis by (simp add: read_exchange_def b Let_def)
qed

text \<open>A frame whose header announces more than the limit is refused before its payload is read.\<close>

lemma long_frame_refused:
  "MAX_CATALOG_FRAME_BYTES < n \<Longrightarrow> n < 2 ^ 32 \<Longrightarrow> read_exchange from_json (be_bytes n @ rest) = Inl PFrameTooLarge"
  by (simp add: read_exchange_def be_bytes_back Let_def)

text \<open>What an agent sends passes the receiver's own checks when both have the same identity scope.\<close>

lemma sent_exchange_valid:
  assumes "exchange_from_store st me = Inr x" "scope me = scope you"
  shows "exchange_validate x you = Inr ()"
  using assms by (auto simp: exchange_from_store_def exchange_validate_def scope_def Let_def split: if_splits sum.splits)

section \<open>Loading leases\<close>

text \<open>The two shapes of a stored lease.\<close>

definition lease_wf :: "AddressLease \<Rightarrow> bool" where
  "lease_wf l =
     (if al_state l = ''quarantined'' then (case al_quarantine_until l of None \<Rightarrow> False | Some u \<Rightarrow> unat u < 2 ^ 63)
      else al_state l = ''active'' \<and> al_quarantine_until l = None)"

text \<open>Every operation on leases keeps these shapes.\<close>

lemma lease_wf_active [simp]: "lease_wf (active_lease d r a)"
  by (simp add: lease_wf_def active_lease_def)

lemma leases_wf_insert:
  assumes "bt_wf m" "\<forall>l \<in> set (bt_values m). lease_wf l" "lease_wf l"
  shows "\<forall>l \<in> set (bt_values (bt_insert d l m)). lease_wf l"
  using bt.ins_del_vals [OF assms(1), of d l] assms(2,3) by blast

lemma leases_wf_kept:
  assumes "lease_inv st" "\<forall>l \<in> set (bt_values (as_address_leases st)). lease_wf l"
  shows "claim_address_lease d r a st = Inr (ok, st') \<Longrightarrow> \<forall>l \<in> set (bt_values (as_address_leases st')). lease_wf l"
    and "recover_address_lease d r a st = (ok, st') \<Longrightarrow> \<forall>l \<in> set (bt_values (as_address_leases st')). lease_wf l"
    and "quarantine_address_lease d u st = Inr (ok, st') \<Longrightarrow> \<forall>l \<in> set (bt_values (as_address_leases st')). lease_wf l"
proof -
  have wf: "bt_wf (as_address_leases st)" using assms(1) by (simp add: lease_inv_def keyed_def)
  note ins = leases_wf_insert [OF wf assms(2)]
  show "\<forall>l \<in> set (bt_values (as_address_leases st')). lease_wf l" if "claim_address_lease d r a st = Inr (ok, st')"
    using that assms(2) ins [of "active_lease d r a" d] by (auto simp: claim_address_lease_def split: option.splits if_splits)
  have act: "lease_wf (l\<lparr>al_state := ''active'', al_quarantine_until := None\<rparr>)" for l by (simp add: lease_wf_def)
  show "\<forall>l \<in> set (bt_values (as_address_leases st')). lease_wf l" if "recover_address_lease d r a st = (ok, st')"
    using that assms(2) ins [of "active_lease d r a" d] ins [OF act, of d]
    by (auto simp: recover_address_lease_def split: option.splits if_splits)
  show "\<forall>l \<in> set (bt_values (as_address_leases st')). lease_wf l" if "quarantine_address_lease d u st = Inr (ok, st')"
  proof -
    have "lease_wf (l\<lparr>al_state := ''quarantined'', al_quarantine_until := Some u\<rparr>)" if "unat u < 2 ^ 63" for l
      using that by (simp add: lease_wf_def)
    then have "unat u < 2 ^ 63 \<Longrightarrow> \<forall>x \<in> set (bt_values (bt_insert d (l\<lparr>al_state := ''quarantined'', al_quarantine_until := Some u\<rparr>)
        (as_address_leases st))). lease_wf x" for l by (intro ins)
    with that assms(2) show ?thesis
      by (auto simp: quarantine_address_lease_def bind_u64_def split: option.splits if_splits)
  qed
qed

lemma bt_insert_again: "bt_insert k v (bt_insert k w m) = bt_insert k v m"
  by (induction m) auto

lemma import_lease_step:
  assumes wf: "lease_wf l" and new: "map_of (as_address_leases st) (al_deployment_id l) = None" "al_address l \<notin> leased st"
  shows "import_leases (l # ls) st =
    import_leases ls (st\<lparr>as_address_leases := bt_insert (al_deployment_id l) l (as_address_leases st)\<rparr>)"
proof -
  let ?a = "active_lease (al_deployment_id l) (al_replica_id l) (al_address l)"
  let ?st = "st\<lparr>as_address_leases := bt_insert (al_deployment_id l) ?a (as_address_leases st)\<rparr>"
  have rec: "recover_address_lease (al_deployment_id l) (al_replica_id l) (al_address l) st = (True, ?st)"
    using new by (simp add: recover_address_lease_def address_lease_def)
  show ?thesis
  proof (cases "al_state l = ''quarantined''")
    case True
    with wf obtain u where u: "al_quarantine_until l = Some u" "unat u < 2 ^ 63"
      by (auto simp: lease_wf_def split: option.splits)
    have "?a\<lparr>al_state := ''quarantined'', al_quarantine_until := Some u\<rparr> = l"
      using True u by (simp add: active_lease_def)
    then have "quarantine_address_lease (al_deployment_id l) u ?st =
        Inr (True, st\<lparr>as_address_leases := bt_insert (al_deployment_id l) l (as_address_leases st)\<rparr>)"
      using u(2) by (simp add: quarantine_address_lease_def bind_u64_def address_lease_def bt_insert_again)
    with True u(1) show ?thesis by (simp add: rec)
  next
    case False
    with wf have "?a = l" by (simp add: lease_wf_def active_lease_def)
    with False show ?thesis by (simp add: rec)
  qed
qed

lemma import_leases_loads:
  assumes "bt_wf (as_address_leases st)" "\<forall>l \<in> set ls. lease_wf l"
    "distinct (map al_deployment_id ls)" "distinct (map al_address ls)"
    "\<forall>l \<in> set ls. map_of (as_address_leases st) (al_deployment_id l) = None \<and> al_address l \<notin> leased st"
  shows "import_leases ls st =
    (Inr (), st\<lparr>as_address_leases := foldl (\<lambda>t l. bt_insert (al_deployment_id l) l t) (as_address_leases st) ls\<rparr>)"
  using assms
proof (induction ls arbitrary: st)
  case (Cons l ls)
  let ?st = "st\<lparr>as_address_leases := bt_insert (al_deployment_id l) l (as_address_leases st)\<rparr>"
  have "leased ?st \<subseteq> insert (al_address l) (leased st)"
    using bt.ins_del_vals [OF Cons.prems(1), of "al_deployment_id l" l] by auto
  then have "map_of (as_address_leases ?st) (al_deployment_id x) = None \<and> al_address x \<notin> leased ?st" if "x \<in> set ls" for x
  proof -
    have "al_deployment_id x \<noteq> al_deployment_id l" "al_address x \<noteq> al_address l"
      using Cons.prems(3,4) imageI [OF that, of al_deployment_id] imageI [OF that, of al_address] by auto
    moreover have "map_of (as_address_leases st) (al_deployment_id x) = None" "al_address x \<notin> leased st"
      using Cons.prems(5) that by auto
    ultimately show ?thesis using \<open>leased ?st \<subseteq> _\<close> by auto
  qed
  with Cons.IH [of ?st] Cons.prems have "import_leases ls ?st =
      (Inr (), st\<lparr>as_address_leases := foldl (\<lambda>t l. bt_insert (al_deployment_id l) l t) (as_address_leases st) (l # ls)\<rparr>)"
    by simp
  then show ?case using import_lease_step [of l st ls] Cons.prems(2,5) by simp
qed simp

lemma loaded_store_inv:
  assumes "loaded hash pid ep mem rs st" "distinct (map hash rs)"
  shows "catalog_store_inv hash pid ep mem st"
  using assms catalog_stored [of hash pid ep mem st]
  by (auto simp: loaded_def catalog_store_inv_def log_ok_def comp_def)

section \<open>Sample stores\<close>

text \<open>Two deployments of one replica, the second after its node was enrolled again.\<close>

definition reenrolled :: "string \<Rightarrow> string \<Rightarrow> CatalogRecord list" where
  "reenrolled old new = [demo_deployment ''r'' old 1 1 Tombstoned Unhealthy, demo_deployment ''r'' new 2 1 Active Healthy]"

definition reenrolled_store :: "string \<Rightarrow> string \<Rightarrow> AgentStore" where
  "reenrolled_store old new =
     snd (apply_catalogs demo_catalog_hash (\<lambda>_. (0, 0)) ''p'' 1 membership_empty Verified (reenrolled old new) store_empty)"

lemma reenrolled_loaded:
  assumes "old \<noteq> new" "old \<noteq> []" "new \<noteq> []"
  shows "loaded demo_catalog_hash ''p'' 1 membership_empty (reenrolled old new) (reenrolled_store old new)"
proof -
  have fresh: "loaded demo_catalog_hash ''p'' 1 membership_empty [] store_empty"
    by (simp add: loaded_def store_empty_def catalog_operations_def catalog_from_records_def catalog_empty_def)
  have "\<forall>r \<in> set (reenrolled old new). catalog_verify r Verified ''p'' 1 membership_empty = Inr () \<and> storable r"
    using assms by (simp add: reenrolled_def demo_deployment_def catalog_verify_def catalog_validate_def
        CATALOG_PROTOCOL_VERSION_def CATALOG_SCHEMA_VERSION_def)
  moreover have "sorted_wrt epoch_order (reenrolled old new)" "distinct (map cr_deployment_id (reenrolled old new))"
    "distinct (map demo_catalog_hash (reenrolled old new))"
    using assms by (simp_all add: reenrolled_def demo_deployment_def demo_catalog_hash_def)
  ultimately show ?thesis
    using apply_catalogs_loads [OF fresh, of "reenrolled old new" Verified "\<lambda>_. (0, 0)"]
    by (auto simp: reenrolled_store_def)
qed

section \<open>Properties\<close>

text \<open>C33. A backup restores the catalog of a rebuilt agent exactly when the snapshot is in epoch order. The
  snapshot lists the records of a replica by deployment id. Imported into a store without catalog
  records, it reproduces the catalog table if no record follows one of the same replica with a greater
  owner epoch; then no catalog error occurs. Otherwise the import fails as stale, on records that were all accepted
  once.\<close>

theorem backup_restores_catalog:
  assumes src: "catalog_store_inv ch pid ep mem src" "\<forall>r \<in> set (latest_catalog src). storable r"
    and dst: "membership_store_inv mh \<lparr>ms_project_id = pid, ms_recovery_epoch = ep\<rparr> dst" "as_soft_quota_bytes dst = None"
      "as_catalog_operations dst = []" "as_catalog_records dst = []"
  shows "case backup_import mh ch dh usage (backup_export src pid ep node) pid ep dst of (res, dst') \<Rightarrow>
    if sorted_wrt (\<lambda>x y. cr_replica_id x = cr_replica_id y \<longrightarrow> cr_owner_epoch x \<le> cr_owner_epoch y) (latest_catalog src)
    then as_catalog_records dst' = as_catalog_records src \<and> (\<forall>e. res \<noteq> Inl (BackupStore (SCatalog e)))
    else res = Inl (BackupStore (SCatalog CStaleOwnerEpoch))"
proof -
  obtain view where view: "membership_from_records mh \<lparr>ms_project_id = pid, ms_recovery_epoch = ep\<rparr> (membership_operations dst) = Inr view"
    using membership_store_view [OF dst(1)] by blast
  have "catalog_store_inv ch pid ep view src" using src(1) catalog_store_inv_membership by blast
  note win = latest_catalog_winners [OF this]
  have fresh: "loaded ch pid ep view [] dst"
    using dst by (simp add: loaded_def catalog_operations_def catalog_from_records_def catalog_empty_def)
  have "\<exists>st1. if sorted_wrt epoch_order (latest_catalog src)
    then apply_catalogs ch usage pid ep view Verified (latest_catalog src) dst = (Inr (), st1) \<and> loaded ch pid ep view (latest_catalog src) st1
    else apply_catalogs ch usage pid ep view Verified (latest_catalog src) dst = (Inl (SCatalog CStaleOwnerEpoch), st1)"
    by (rule apply_catalogs_loads [OF fresh, of "latest_catalog src" Verified usage, unfolded append_Nil]) (use win(1-3) src(2) in auto)
  then obtain st1 where load: "if sorted_wrt epoch_order (latest_catalog src)
    then apply_catalogs ch usage pid ep view Verified (latest_catalog src) dst = (Inr (), st1) \<and> loaded ch pid ep view (latest_catalog src) st1
    else apply_catalogs ch usage pid ep view Verified (latest_catalog src) dst = (Inl (SCatalog CStaleOwnerEpoch), st1)" ..
  have imp: "backup_import mh ch dh usage (backup_export src pid ep node) pid ep dst =
    (case apply_catalogs ch usage pid ep view Verified (latest_catalog src) dst of
       (Inl e, st') \<Rightarrow> (Inl (BackupStore e), st')
     | (Inr _, st') \<Rightarrow>
         (case apply_desireds dh usage pid ep view Verified (desired_snapshot_operations src) st' of
            (Inl e, st'') \<Rightarrow> (Inl (BackupStore e), st'')
          | (Inr _, st'') \<Rightarrow> import_leases (address_leases src) st''))"
    unfolding backup_import_def backup_export_simps by (simp add: validate_identity_def view)
  show ?thesis
  proof (cases "sorted_wrt epoch_order (latest_catalog src)")
    case False
    with load show ?thesis by (simp add: imp)
  next
    case True
    with load have st1: "apply_catalogs ch usage pid ep view Verified (latest_catalog src) dst = (Inr (), st1)"
      "loaded ch pid ep view (latest_catalog src) st1" by auto
    have tab: "as_catalog_records st1 = as_catalog_records src"
      using st1(2) unfolding loaded_def win(4) [symmetric] by blast
    obtain res2 st2 where d: "apply_desireds dh usage pid ep view Verified (desired_snapshot_operations src) st1 = (res2, st2)"
      by (cases "apply_desireds dh usage pid ep view Verified (desired_snapshot_operations src) st1")
    obtain res3 st3 where l: "import_leases (address_leases src) st2 = (res3, st3)"
      by (cases "import_leases (address_leases src) st2")
    show ?thesis
      unfolding imp st1(1) if_P [OF True]
      using apply_desireds_catalog [OF d] import_leases_catalog [OF l] tab by (cases res2) (simp_all add: d l)
  qed
qed

theorem backup_restores_catalog_witness:
  "fst (backup_import demo_hash demo_catalog_hash (\<lambda>_. []) (\<lambda>_. (0, 0)) (backup_export (reenrolled_store ''d2'' ''d1'') ''p'' 1 ''a'')
     ''p'' 1 demo_store) = Inl (BackupStore (SCatalog CStaleOwnerEpoch)) \<and>
   as_catalog_records (snd (backup_import demo_hash demo_catalog_hash (\<lambda>_. []) (\<lambda>_. (0, 0))
     (backup_export (reenrolled_store ''d1'' ''d2'') ''p'' 1 ''a'') ''p'' 1 demo_store)) = as_catalog_records (reenrolled_store ''d1'' ''d2'')"
proof -
  have dst: "membership_store_inv demo_hash \<lparr>ms_project_id = ''p'', ms_recovery_epoch = 1\<rparr> demo_store" "as_soft_quota_bytes demo_store = None"
    "as_catalog_operations demo_store = []" "as_catalog_records demo_store = []"
    using demo_store_inv(1) by (simp_all add: demo_scope_def demo_store_def store_empty_def)
  note l = reenrolled_loaded [of "''d2''" "''d1''"] reenrolled_loaded [of "''d1''" "''d2''"]
  have late: "latest_catalog (reenrolled_store ''d2'' ''d1'') = rev (reenrolled ''d2'' ''d1'')"
    and soon: "latest_catalog (reenrolled_store ''d1'' ''d2'') = reenrolled ''d1'' ''d2''"
    using l by (simp_all add: loaded_def latest_catalog_def reenrolled_def bt_map_def catalog_row_of_def demo_deployment_def)
  have inv: "catalog_store_inv demo_catalog_hash ''p'' 1 membership_empty (reenrolled_store ''d2'' ''d1'')"
    "catalog_store_inv demo_catalog_hash ''p'' 1 membership_empty (reenrolled_store ''d1'' ''d2'')"
    using l by (simp_all add: loaded_store_inv reenrolled_def demo_catalog_hash_def demo_deployment_def)
  have small: "\<forall>r \<in> set (latest_catalog (reenrolled_store ''d2'' ''d1'')). storable r"
    "\<forall>r \<in> set (latest_catalog (reenrolled_store ''d1'' ''d2'')). storable r"
    by (simp_all add: late soon) (simp_all add: reenrolled_def demo_deployment_def)
  have ord: "\<not> sorted_wrt epoch_order (latest_catalog (reenrolled_store ''d2'' ''d1''))"
    "sorted_wrt epoch_order (latest_catalog (reenrolled_store ''d1'' ''d2''))"
    by (simp_all add: late soon) (simp_all add: reenrolled_def demo_deployment_def word_le_nat_alt)
  show ?thesis
    using backup_restores_catalog [OF inv(1) small(1) dst, of "\<lambda>_. []" "\<lambda>_. (0, 0)" "''a''"]
      backup_restores_catalog [OF inv(2) small(2) dst, of "\<lambda>_. []" "\<lambda>_. (0, 0)" "''a''"]
    unfolding if_not_P [OF ord(1)] if_P [OF ord(2)] by (auto split: prod.splits)
qed

text \<open>A backup restores the leases. Imported into a store without leases, the exported leases give back the
  same table, quarantines and their ends included, without a conflict.\<close>

theorem backup_restores_leases:
  assumes "lease_inv src" "\<forall>l \<in> set (address_leases src). lease_wf l" "as_address_leases dst = []"
  shows "import_leases (bk_address_leases (backup_export src pid ep node)) dst =
    (Inr (), dst\<lparr>as_address_leases := as_address_leases src\<rparr>)"
proof -
  have k: "keyed al_deployment_id (as_address_leases src)" and inj: "inj_on al_address (set (bt_values (as_address_leases src)))"
    using assms(1) by (simp_all add: lease_inv_def)
  have ms: "mset (address_leases src) = mset (bt_values (as_address_leases src))" by (simp add: address_leases_def)
  note d = keyed_distinct [OF k ms]
  have "distinct (map al_address (address_leases src))"
    using inj d unfolding mset_eq_setD [OF ms, symmetric] by (simp add: distinct_map)
  with import_leases_loads [of dst "address_leases src"] d assms(2,3) collected_keyed [OF k ms]
  show ?thesis by (simp add: bt_values_def)
qed

theorem backup_restores_leases_witness:
  "import_leases (bk_address_leases (backup_export
     (store_empty\<lparr>as_address_leases := [(''d1'', active_lease ''d1'' ''r1'' 7),
        (''d2'', (active_lease ''d2'' ''r2'' 5)\<lparr>al_state := ''quarantined'', al_quarantine_until := Some 9\<rparr>)]\<rparr>) ''p'' 1 ''a'')) store_empty =
   (Inr (), store_empty\<lparr>as_address_leases := [(''d1'', active_lease ''d1'' ''r1'' 7),
        (''d2'', (active_lease ''d2'' ''r2'' 5)\<lparr>al_state := ''quarantined'', al_quarantine_until := Some 9\<rparr>)]\<rparr>)"
  (is "import_leases (bk_address_leases (backup_export ?src ''p'' 1 ''a'')) store_empty = _")
proof -
  have "lease_inv ?src"
    by (simp add: lease_inv_def keyed_def bt_values_def active_lease_def)
  moreover have "set (address_leases ?src) = set (bt_values (as_address_leases ?src))" by (simp add: address_leases_def)
  then have "\<forall>l \<in> set (address_leases ?src). lease_wf l"
    by (simp add: bt_values_def lease_wf_def active_lease_def)
  ultimately have "import_leases (bk_address_leases (backup_export ?src ''p'' 1 ''a'')) store_empty =
      (Inr (), store_empty\<lparr>as_address_leases := as_address_leases ?src\<rparr>)"
    by (rule backup_restores_leases) (simp add: store_empty_def)
  then show ?thesis by simp
qed

end
