(* ===== verification/Dns.thy ===== *)
theory Dns
  imports Store_Log
begin

text \<open>
  The name server of the agent (\<^verbatim>\<open>crates/jiji-agent/src/dns.rs\<close>): reading a query, the zone the catalog
  implies, and the answer on the wire. The answers of the forwarders are a parameter. A small reader of
  answers, the client's side of the format, is the specification of what is sent.
\<close>

unbundle bit_operations_syntax

section \<open>Text and numbers in messages\<close>

text \<open>\<^verbatim>\<open>String::from_utf8_lossy\<close>: each longest start of a sequence that cannot be completed becomes the three bytes
  of the replacement character. \<open>utf8_second\<close> gives the bytes that may follow a leading byte.\<close>

definition between :: "nat \<Rightarrow> nat \<Rightarrow> u8 \<Rightarrow> bool" where
  "between lo hi b = (lo \<le> unat b \<and> unat b \<le> hi)"

definition utf8_width :: "u8 \<Rightarrow> nat" where
  "utf8_width b =
     (if between 0 127 b then 1 else if between 194 223 b then 2 else if between 224 239 b then 3
      else if between 240 244 b then 4 else 0)"

definition utf8_second :: "u8 \<Rightarrow> u8 \<Rightarrow> bool" where
  "utf8_second b =
     (if b = 224 then between 160 191 else if b = 237 then between 128 159 else if b = 240 then between 144 191
      else if b = 244 then between 128 143 else between 128 191)"

text \<open>The length of the longest acceptable start of a sequence.\<close>

definition utf8_accepted :: "u8 \<Rightarrow> u8 list \<Rightarrow> nat" where
  "utf8_accepted b bs =
     (case bs of
        [] \<Rightarrow> 1
      | c # cs \<Rightarrow>
          (if utf8_width b \<le> 1 \<or> \<not> utf8_second b c then 1
           else 2 + length (takeWhile (between 128 191) (take (utf8_width b - 2) cs))))"

function from_utf8_lossy :: "u8 list \<Rightarrow> u8 list" where
  "from_utf8_lossy [] = []"
| "from_utf8_lossy (b # bs) =
     (let n = utf8_accepted b bs
      in (if n = utf8_width b then take n (b # bs) else [239, 191, 189]) @ from_utf8_lossy (drop (n - 1) bs))"
  by pat_completeness auto
termination by (relation "measure length") auto

definition byte_string :: "u8 list \<Rightarrow> string" where
  "byte_string bs = map (\<lambda>b. char_of (unat b)) bs"

definition be16 :: "u16 \<Rightarrow> u8 list" where
  "be16 w = [of_nat (unat w div 256), of_nat (unat w mod 256)]"

definition from_be16 :: "u8 \<Rightarrow> u8 \<Rightarrow> u16" where
  "from_be16 a b = of_nat (unat a * 256 + unat b)"

definition be32 :: "u32 \<Rightarrow> u8 list" where
  "be32 w = (case octets w of (a, b, c, d) \<Rightarrow> [of_nat a, of_nat b, of_nat c, of_nat d])"

section \<open>Constants and data\<close>

definition QTYPE_A :: u16 where "QTYPE_A = 1"

definition QTYPE_ANY :: u16 where "QTYPE_ANY = 255"

definition QCLASS_IN :: u16 where "QCLASS_IN = 1"

definition RCODE_NOERROR :: u8 where "RCODE_NOERROR = 0"

definition RCODE_SERVFAIL :: u8 where "RCODE_SERVFAIL = 2"

definition RCODE_NOTIMP :: u8 where "RCODE_NOTIMP = 4"

definition RCODE_NXDOMAIN :: u8 where "RCODE_NXDOMAIN = 3"

definition DEFAULT_TTL :: u32 where "DEFAULT_TTL = 5"

definition MAX_ANSWERS :: nat where "MAX_ANSWERS = 64"

definition MAX_UDP_RESPONSE_BYTES :: nat where "MAX_UDP_RESPONSE_BYTES = 512"

datatype DnsError = NStore StoreError | NMembership MembershipError | NCatalog CatalogError

record DnsConfig =
  nc_project_id :: string
  nc_recovery_epoch :: u64
  nc_local_node_id :: string
  nc_reachability_timeout :: u64
  nc_forwarders :: "SocketAddr list"

definition dns_scope :: "DnsConfig \<Rightarrow> MembershipScope" where
  "dns_scope c = \<lparr>ms_project_id = nc_project_id c, ms_recovery_epoch = nc_recovery_epoch c\<rparr>"

record ParsedQuery =
  pq_id :: u16
  pq_opcode :: u8
  pq_recursion_desired :: bool
  pq_name :: string
  pq_qtype :: u16
  pq_qclass :: u16
  pq_question_bytes :: "u8 list"

type_synonym zone = "(string, Ipv4Addr list) btree_map"

section \<open>Queries\<close>

function label_loop :: "u8 list \<Rightarrow> nat \<Rightarrow> string list \<Rightarrow> (nat \<times> string list) option" where
  "label_loop buf offset labels =
     (if length buf \<le> offset then None
      else let len = unat (buf ! offset); start = offset + 1
           in if len = 0 then Some (start, labels)
              else if 63 < len \<or> 32 < length labels then None
              else if length buf < start + len then None
              else label_loop buf (start + len)
                     (labels @ [map to_ascii_lowercase (byte_string (from_utf8_lossy (take len (drop start buf))))]))"
  by pat_completeness auto
termination by (relation "measure (\<lambda>(buf, offset, _). length buf - offset)") auto

definition parse_query :: "u8 list \<Rightarrow> ParsedQuery option" where
  "parse_query buf =
     (if length buf < 12 then None
      else let flags1 = buf ! 2
           in if from_be16 (buf ! 4) (buf ! 5) \<noteq> 1 then None
              else case label_loop buf 12 [] of
                None \<Rightarrow> None
              | Some (offset, labels) \<Rightarrow>
                  (if length buf < offset + 2 then None
                   else if length buf < offset + 4 then None
                   else Some \<lparr>pq_id = from_be16 (buf ! 0) (buf ! 1), pq_opcode = drop_bit 3 flags1 AND 15,
                              pq_recursion_desired = (flags1 AND 1 \<noteq> 0), pq_name = join ''.'' labels,
                              pq_qtype = from_be16 (buf ! offset) (buf ! (offset + 1)),
                              pq_qclass = from_be16 (buf ! (offset + 2)) (buf ! (offset + 3)),
                              pq_question_bytes = take (offset + 4 - 12) (drop 12 buf)\<rparr>))"

section \<open>Answers\<close>

definition encode_answer :: "Ipv4Addr \<Rightarrow> u8 list" where
  "encode_answer a = [192, 12] @ be16 QTYPE_A @ be16 QCLASS_IN @ be32 DEFAULT_TTL @ be16 4 @ be32 a"

definition encode_response :: "ParsedQuery \<Rightarrow> u8 \<Rightarrow> Ipv4Addr list \<Rightarrow> bool \<Rightarrow> bool \<Rightarrow> u8 list" where
  "encode_response q rcode answers truncated authoritative =
     (let flags1 = 128 OR push_bit 3 (pq_opcode q) OR (if authoritative then 4 else 0) OR (if truncated then 2 else 0) OR
                   (if pq_recursion_desired q then 1 else 0);
          flags2 = rcode AND 15
      in be16 (pq_id q) @ [flags1] @ [flags2] @ be16 1 @ be16 (of_nat (length answers)) @ be16 0 @ be16 0 @
         pq_question_bytes q @ concat (map encode_answer answers))"

definition respond :: "u8 list \<Rightarrow> zone \<Rightarrow> bool \<Rightarrow> u8 list option" where
  "respond buf zone is_udp =
     (case parse_query buf of
        None \<Rightarrow> None
      | Some query \<Rightarrow>
          (if pq_opcode query \<noteq> 0 then Some (encode_response query RCODE_NOTIMP [] False True)
           else if pq_qclass query \<noteq> QCLASS_IN then Some (encode_response query RCODE_NOTIMP [] False True)
           else
             let (rcode, found) =
                   (case map_of zone (pq_name query) of
                      None \<Rightarrow> (RCODE_NXDOMAIN, [])
                    | Some addresses \<Rightarrow>
                        (if pq_qtype query = QTYPE_A \<or> pq_qtype query = QTYPE_ANY then (RCODE_NOERROR, addresses)
                         else (RCODE_NOERROR, [])));
                 answers = take MAX_ANSWERS found;
                 full = encode_response query rcode answers False True
             in if is_udp \<and> MAX_UDP_RESPONSE_BYTES < length full then Some (encode_response query rcode [] True True)
                else Some full))"

definition is_authoritative_name :: "string \<Rightarrow> bool" where
  "is_authoritative_name name = (name = ''jiji'' \<or> ends_with name ''.jiji'')"

text \<open>\<open>forward\<close> is the answer of one forwarder to the bytes of a query, if one arrives in time.\<close>

fun forward_query :: "(u8 list \<Rightarrow> SocketAddr \<Rightarrow> u8 list option) \<Rightarrow> u8 list \<Rightarrow> SocketAddr list \<Rightarrow> u8 list option" where
  "forward_query forward query_bytes [] = None"
| "forward_query forward query_bytes (f # fs) =
     (case forward query_bytes f of Some answer \<Rightarrow> Some answer | None \<Rightarrow> forward_query forward query_bytes fs)"

definition handle_query ::
  "(u8 list \<Rightarrow> SocketAddr \<Rightarrow> u8 list option) \<Rightarrow> u8 list \<Rightarrow> zone \<Rightarrow> SocketAddr list \<Rightarrow> bool \<Rightarrow> u8 list option" where
  "handle_query forward buf zone forwarders is_udp =
     (case parse_query buf of
        None \<Rightarrow> None
      | Some query \<Rightarrow>
          (if is_authoritative_name (pq_name query) then respond buf zone is_udp
           else case forward_query forward buf forwarders of
                  Some response \<Rightarrow> Some response
                | None \<Rightarrow> Some (encode_response query RCODE_SERVFAIL [] False False)))"

section \<open>The zone\<close>

definition service_name :: "string \<Rightarrow> string \<Rightarrow> string" where
  "service_name project_id service = project_id @ ''-'' @ service @ ''.jiji''"

definition server_name :: "string \<Rightarrow> string \<Rightarrow> string \<Rightarrow> string" where
  "server_name project_id service node = project_id @ ''-'' @ service @ ''-'' @ node @ ''.jiji''"

fun zone_from_records :: "string \<Rightarrow> CatalogRecord list \<Rightarrow> (string \<Rightarrow> bool) \<Rightarrow> zone \<Rightarrow> zone" where
  "zone_from_records project_id [] reachable zone = zone"
| "zone_from_records project_id (r # rs) reachable zone =
     (if \<not> reachable (cr_owner_node_id r) then zone_from_records project_id rs reachable zone
      else zone_from_records project_id rs reachable
             (bt_push (server_name project_id (cr_service r) (cr_owner_node_id r)) (cr_address r)
               (bt_push (service_name project_id (cr_service r)) (cr_address r) zone)))"

definition node_reachable :: "DnsConfig \<Rightarrow> u64 \<Rightarrow> (string, u64) btree_map \<Rightarrow> string \<Rightarrow> bool" where
  "node_reachable c now liveness node_id =
     (node_id = nc_local_node_id c \<or>
      (case map_of liveness node_id of
         None \<Rightarrow> False
       | Some seen_at \<Rightarrow> u64_saturating_sub now seen_at \<le> nc_reachability_timeout c))"

definition build_zone ::
  "(MembershipRecord \<Rightarrow> string) \<Rightarrow> (CatalogRecord \<Rightarrow> string) \<Rightarrow> u64 \<Rightarrow> AgentStore \<Rightarrow> DnsConfig \<Rightarrow> (DnsError, zone) result" where
  "build_zone mh ch now st c =
     (case membership_from_records mh (dns_scope c) (membership_operations st) of
        Inl e \<Rightarrow> Inl (NMembership e)
      | Inr membership \<Rightarrow>
          (case catalog_from_records ch (nc_project_id c) (nc_recovery_epoch c) membership (verified (catalog_operations st)) of
             Inl e \<Rightarrow> Inl (NCatalog e)
           | Inr catalog \<Rightarrow>
               Inr (zone_from_records (nc_project_id c) (active_healthy catalog) (node_reachable c now (node_liveness st)) [])))"

text \<open>One datagram, and one message of a connection with its two bytes of length.\<close>

definition answer_udp ::
  "(MembershipRecord \<Rightarrow> string) \<Rightarrow> (CatalogRecord \<Rightarrow> string) \<Rightarrow> (u8 list \<Rightarrow> SocketAddr \<Rightarrow> u8 list option) \<Rightarrow> u64 \<Rightarrow> AgentStore \<Rightarrow>
   DnsConfig \<Rightarrow> u8 list \<Rightarrow> u8 list option" where
  "answer_udp mh ch forward now st c query_bytes =
     (case build_zone mh ch now st c of
        Inl _ \<Rightarrow> None
      | Inr zone \<Rightarrow> handle_query forward query_bytes zone (nc_forwarders c) True)"

definition answer_tcp ::
  "(MembershipRecord \<Rightarrow> string) \<Rightarrow> (CatalogRecord \<Rightarrow> string) \<Rightarrow> (u8 list \<Rightarrow> SocketAddr \<Rightarrow> u8 list option) \<Rightarrow> u64 \<Rightarrow> AgentStore \<Rightarrow>
   DnsConfig \<Rightarrow> u8 list \<Rightarrow> (DnsError, u8 list option) result" where
  "answer_tcp mh ch forward now st c message =
     (case build_zone mh ch now st c of
        Inl e \<Rightarrow> Inl e
      | Inr zone \<Rightarrow>
          Inr (map_option (\<lambda>response. be16 (of_nat (length response)) @ response)
                 (handle_query forward message zone (nc_forwarders c) False)))"

section \<open>The client's reading of an answer\<close>

definition reply_id :: "u8 list \<Rightarrow> u16" where
  "reply_id r = from_be16 (r ! 0) (r ! 1)"

definition reply_truncated :: "u8 list \<Rightarrow> bool" where
  "reply_truncated r = (r ! 2 AND 2 \<noteq> 0)"

definition reply_code :: "u8 list \<Rightarrow> u8" where
  "reply_code r = r ! 3 AND 15"

text \<open>Address records that point back to the name of the question, up to the end of the message.\<close>

function address_records :: "u8 list \<Rightarrow> Ipv4Addr list option" where
  "address_records bs =
     (if bs = [] then Some []
      else if length bs < 16 \<or> take 12 bs \<noteq> [192, 12, 0, 1, 0, 1, 0, 0, 0, 5, 0, 4] then None
      else map_option ((#) (ipv4_of_octets (unat (bs ! 12)) (unat (bs ! 13)) (unat (bs ! 14)) (unat (bs ! 15))))
             (address_records (drop 16 bs)))"
  by pat_completeness auto
termination by (relation "measure length") auto

text \<open>The addresses behind a question of \<open>n\<close> bytes, when their number is the one announced.\<close>

definition reply_addresses :: "nat \<Rightarrow> u8 list \<Rightarrow> Ipv4Addr list option" where
  "reply_addresses n r =
     (case address_records (drop (12 + n) r) of
        None \<Rightarrow> None
      | Some xs \<Rightarrow> (if unat (from_be16 (r ! 6) (r ! 7)) = length xs then Some xs else None))"

declare address_records.simps [simp del] label_loop.simps [simp del]

lemma be16_length [simp]: "length (be16 w) = 2"
  by (simp add: be16_def)

lemma be32_length [simp]: "length (be32 w) = 4"
  by (simp add: be32_def split: prod.splits)

lemma unat_byte: "n < 256 \<Longrightarrow> unat (of_nat n :: u8) = n"
  by (simp add: unat_of_nat)

lemma from_be16_be16: "from_be16 (of_nat (unat w div 256)) (of_nat (unat w mod 256)) = w"
proof -
  have "unat w < 2 ^ 16" using unsigned_less [of w] by simp
  then have "unat w div 256 < 256" by (simp add: less_mult_imp_div_less)
  then show ?thesis by (simp add: from_be16_def unat_byte)
qed

lemma address_records_encode: "address_records (encode_answer a @ bs) = map_option ((#) a) (address_records bs)"
proof -
  obtain x y z w where o: "octets a = (x, y, z, w)" by (cases "octets a") auto
  then have small: "x < 256" "y < 256" "z < 256" "w < 256" by (auto simp: octets_def)
  have whole: "ipv4_of_octets x y z w = a" by (rule ipv4_of_octets_octets [OF o])
  have ttl: "be32 5 = [0, 0, 0, 5]" by (simp add: be32_def octets_def)
  have enc: "encode_answer a = [192, 12, 0, 1, 0, 1, 0, 0, 0, 5, 0, 4, of_nat x, of_nat y, of_nat z, of_nat w]"
    unfolding encode_answer_def DEFAULT_TTL_def ttl by (simp add: be16_def be32_def o QTYPE_A_def QCLASS_IN_def)
  show ?thesis
    by (subst address_records.simps) (simp add: enc unat_byte small whole)
qed

lemma address_records_answers: "address_records (concat (map encode_answer as)) = Some as"
  by (induction as) (simp_all add: address_records_encode address_records.simps [of "[]"])

lemma encode_answer_length [simp]: "length (encode_answer a) = 16"
  by (simp add: encode_answer_def)

lemma encode_response_length:
  "length (encode_response q rcode answers tc aa) = 12 + length (pq_question_bytes q) + 16 * length answers"
  by (simp add: encode_response_def Let_def length_concat comp_def sum_list_triv)

lemma encode_response_read:
  assumes "length answers < 2 ^ 16"
  shows "reply_id (encode_response q rcode answers tc aa) = pq_id q"
    "reply_truncated (encode_response q rcode answers tc aa) = tc"
    "reply_code (encode_response q rcode answers tc aa) = rcode AND 15"
    "reply_addresses (length (pq_question_bytes q)) (encode_response q rcode answers tc aa) = Some answers"
proof -
  let ?r = "encode_response q rcode answers tc aa"
  show "reply_id ?r = pq_id q"
    by (simp add: reply_id_def encode_response_def Let_def be16_def from_be16_be16)
  show "reply_code ?r = rcode AND 15"
    by (simp add: reply_code_def encode_response_def Let_def be16_def and.assoc)
  have "(x AND 2 \<noteq> 0) = bit x 1" for x :: u8
  proof -
    have "x AND 2 = (if bit x 1 then 2 else 0)"
      by (rule bit_eqI) (auto simp: bit_and_iff bit_2_iff)
    then show ?thesis by simp
  qed
  then show "reply_truncated ?r = tc"
    by (simp add: reply_truncated_def encode_response_def Let_def be16_def bit_or_iff bit_push_bit_iff)
  define n :: u16 where "n = of_nat (length answers)"
  have n: "unat n = length answers" using assms by (simp add: n_def unat_of_nat)
  obtain h where h: "length h = 12" "h ! 6 = of_nat (unat n div 256)" "h ! 7 = of_nat (unat n mod 256)"
    "?r = h @ pq_question_bytes q @ concat (map encode_answer answers)"
    by (rule that [of "take 12 ?r"]) (simp_all add: encode_response_def Let_def be16_def n_def)
  have "from_be16 (h ! 6) (h ! 7) = n" unfolding h(2,3) by (rule from_be16_be16)
  with n show "reply_addresses (length (pq_question_bytes q)) ?r = Some answers"
    by (simp add: reply_addresses_def h(1,4) nth_append address_records_answers)
qed

section \<open>What the zone holds\<close>

abbreviation names :: "string \<Rightarrow> string \<Rightarrow> CatalogRecord \<Rightarrow> bool" where
  "names project_id name r \<equiv>
     name = service_name project_id (cr_service r) \<or> name = server_name project_id (cr_service r) (cr_owner_node_id r)"

lemma service_not_server: "service_name p s \<noteq> server_name p s n"
  by (simp add: service_name_def server_name_def)

lemma zone_from_records_get:
  "map_of (zone_from_records p rs reachable zone) name =
     (let found = map cr_address (filter (names p name) (filter (\<lambda>r. reachable (cr_owner_node_id r)) rs))
      in case map_of zone name of Some xs \<Rightarrow> Some (xs @ found) | None \<Rightarrow> (if found = [] then None else Some found))"
proof (induction rs arbitrary: zone)
  case Nil
  show ?case by (simp split: option.splits)
next
  case (Cons r rs)
  have ne: "server_name p (cr_service r) (cr_owner_node_id r) \<noteq> service_name p (cr_service r)"
    using service_not_server by metis
  show ?case
  proof (cases "reachable (cr_owner_node_id r)")
    case False
    with Cons show ?thesis by simp
  next
    case True
    let ?zone = "bt_push (server_name p (cr_service r) (cr_owner_node_id r)) (cr_address r)
        (bt_push (service_name p (cr_service r)) (cr_address r) zone)"
    have "map_of ?zone name =
        (if names p name r then Some ((case map_of zone name of None \<Rightarrow> [] | Some xs \<Rightarrow> xs) @ [cr_address r]) else map_of zone name)"
      using ne by (auto simp: bt_push_def)
    with True show ?thesis
      by (cases "names p name r"; cases "map_of zone name") (auto simp: Cons.IH Let_def)
  qed
qed

section \<open>Names in queries are lower case\<close>

lemma label_loop_lower:
  "label_loop buf offset labels = Some (n, ls) \<Longrightarrow> \<forall>l \<in> set labels. list_all (Not \<circ> is_ascii_uppercase) l \<Longrightarrow>
   \<forall>l \<in> set ls. list_all (Not \<circ> is_ascii_uppercase) l"
proof (induction buf offset labels rule: label_loop.induct)
  case (1 buf offset labels)
  show ?case
    using 1(2,3) 1(1) by (subst (asm) label_loop.simps)
      (auto simp: Let_def list_all_iff to_ascii_lowercase_not_uppercase split: if_splits)
qed

lemma join_dot_lower: "\<forall>l \<in> set ls. list_all (Not \<circ> is_ascii_uppercase) l \<Longrightarrow> list_all (Not \<circ> is_ascii_uppercase) (join ''.'' ls)"
  by (induction "''.''" ls rule: join.induct) (auto simp: is_ascii_uppercase_def)

lemma parse_query_lower: "parse_query buf = Some q \<Longrightarrow> list_all (Not \<circ> is_ascii_uppercase) (pq_name q)"
  by (auto simp: parse_query_def Let_def split: if_splits option.splits prod.splits intro!: join_dot_lower dest: label_loop_lower)

section \<open>Sample query\<close>

definition demo_dns :: DnsConfig where
  "demo_dns = \<lparr>nc_project_id = ''p'', nc_recovery_epoch = 1, nc_local_node_id = ''a'', nc_reachability_timeout = 30, nc_forwarders = []\<rparr>"

definition demo_zone_store :: AgentStore where
  "demo_zone_store = store_empty\<lparr>as_catalog_operations := [(''d11'', web_1), (''d22'', web_2)]\<rparr>"

text \<open>A query for the addresses of \<^verbatim>\<open>P-web.jiji\<close>.\<close>

definition demo_query :: "u8 list" where
  "demo_query = [7, 9, 1, 0, 0, 1, 0, 0, 0, 0, 0, 0, 5, 80, 45, 119, 101, 98, 4, 106, 105, 106, 105, 0, 0, 1, 0, 1]"

lemma demo_query_parsed:
  "parse_query demo_query = Some \<lparr>pq_id = 1801, pq_opcode = 0, pq_recursion_desired = True, pq_name = ''p-web.jiji'', pq_qtype = 1,
     pq_qclass = 1, pq_question_bytes = [5, 80, 45, 119, 101, 98, 4, 106, 105, 106, 105, 0, 0, 1, 0, 1]\<rparr>"
  by code_simp

section \<open>Properties\<close>

text \<open>C5. The name server answers with the live replicas. To a datagram asking for the addresses of a name of the zone it replies
  under the query's identifier. If a service or per-server name matches, the client reads the addresses of
  the active healthy winners on reachable nodes, at most 64 of them, or no address and the truncation mark when the
  answer would exceed 512 bytes; over a connection it always reads the addresses. If no record matches,
  the reply denies the name.\<close>

theorem dns_answers_live_replicas:
  assumes q: "parse_query buf = Some q" "pq_opcode q = 0" "pq_qclass q = QCLASS_IN" "pq_qtype q = QTYPE_A"
      "is_authoritative_name (pq_name q)"
    and m: "membership_from_records mh (dns_scope c) (membership_operations st) = Inr mem"
    and v: "catalog_from_records ch (nc_project_id c) (nc_recovery_epoch c) mem (verified (catalog_operations st)) = Inr v"
  shows "\<exists>u t. answer_udp mh ch forward now st c buf = Some u \<and>
    answer_tcp mh ch forward now st c buf = Inr (Some (be16 (of_nat (length t)) @ t)) \<and>
    reply_id u = pq_id q \<and> reply_id t = pq_id q \<and> \<not> reply_truncated t \<and>
    (let n = length (pq_question_bytes q);
         live = filter (\<lambda>r. pq_name q = service_name (nc_project_id c) (cr_service r) \<or>
                  pq_name q = server_name (nc_project_id c) (cr_service r) (cr_owner_node_id r))
                (filter (\<lambda>r. node_reachable c now (node_liveness st) (cr_owner_node_id r)) (active_healthy v));
         addresses = take 64 (map cr_address live);
         code = (if live = [] then RCODE_NXDOMAIN else RCODE_NOERROR)
     in reply_code u = code \<and> reply_code t = code \<and> reply_addresses n t = Some addresses \<and>
        (if 512 < 12 + n + 16 * length addresses then reply_truncated u \<and> reply_addresses n u = Some []
         else \<not> reply_truncated u \<and> reply_addresses n u = Some addresses))"
proof -
  define live where "live = filter (names (nc_project_id c) (pq_name q))
      (filter (\<lambda>r. node_reachable c now (node_liveness st) (cr_owner_node_id r)) (active_healthy v))"
  define addresses where "addresses = take 64 (map cr_address live)"
  define code where "code = (if live = [] then RCODE_NXDOMAIN else RCODE_NOERROR)"
  define zone where "zone = zone_from_records (nc_project_id c) (active_healthy v) (node_reachable c now (node_liveness st)) []"
  define t where "t = encode_response q code addresses False True"
  define u where "u = (if 512 < 12 + length (pq_question_bytes q) + 16 * length addresses then encode_response q code [] True True else t)"
  have built: "build_zone mh ch now st c = Inr zone" using m v by (simp add: build_zone_def zone_def)
  have get: "map_of zone (pq_name q) = (if live = [] then None else Some (map cr_address live))"
    by (simp add: zone_def zone_from_records_get live_def Let_def)
  have resp: "respond buf zone udp = Some (if udp then u else t)" for udp
  proof -
    have "(case map_of zone (pq_name q) of None \<Rightarrow> (RCODE_NXDOMAIN, [])
        | Some as \<Rightarrow> (if pq_qtype q = QTYPE_A \<or> pq_qtype q = QTYPE_ANY then (RCODE_NOERROR, as) else (RCODE_NOERROR, []))) =
      (code, map cr_address live)"
      using q(4) by (simp add: get code_def)
    moreover have "min (length live) 64 = length addresses" by (simp add: addresses_def)
    ultimately show ?thesis
      unfolding respond_def q(1) option.case q(2,3) MAX_ANSWERS_def MAX_UDP_RESPONSE_BYTES_def
      by (simp add: Let_def addresses_def [symmetric] encode_response_length del: take_map) (simp add: u_def t_def)
  qed
  have len: "length addresses < 2 ^ 16" "length ([] :: Ipv4Addr list) < 2 ^ 16" by (simp_all add: addresses_def)
  have code: "code AND 15 = code" by (simp add: code_def RCODE_NXDOMAIN_def RCODE_NOERROR_def)
  note rd = encode_response_read [OF len(1), of q code False True, folded t_def] encode_response_read [OF len(2), of q code True True]
  have "answer_udp mh ch forward now st c buf = Some u"
    "answer_tcp mh ch forward now st c buf = Inr (Some (be16 (of_nat (length t)) @ t))"
    using q resp by (simp_all add: answer_udp_def answer_tcp_def built handle_query_def)
  moreover have "reply_id u = pq_id q" "reply_code u = code" using rd code by (simp_all add: u_def)
  moreover have "if 512 < 12 + length (pq_question_bytes q) + 16 * length addresses
      then reply_truncated u \<and> reply_addresses (length (pq_question_bytes q)) u = Some []
      else \<not> reply_truncated u \<and> reply_addresses (length (pq_question_bytes q)) u = Some addresses"
    using rd by (simp add: u_def)
  ultimately show ?thesis
    unfolding Let_def live_def [symmetric] addresses_def [symmetric] code_def [symmetric] using rd(1-4) code by auto
qed

theorem dns_answers_live_replicas_witness:
  "\<exists>u. answer_udp (\<lambda>_. []) demo_catalog_hash (\<lambda>_ _. None) 100 demo_zone_store demo_dns demo_query = Some u \<and>
     reply_addresses 16 u = Some [42]"
proof -
  let ?q = "\<lparr>pq_id = 1801, pq_opcode = 0, pq_recursion_desired = True, pq_name = ''p-web.jiji'', pq_qtype = 1,
     pq_qclass = 1, pq_question_bytes = [5, 80, 45, 119, 101, 98, 4, 106, 105, 106, 105, 0, 0, 1, 0, 1]\<rparr>"
  have m: "membership_from_records (\<lambda>_. []) (dns_scope demo_dns) (membership_operations demo_zone_store) = Inr membership_empty"
    by (simp add: demo_zone_store_def store_empty_def membership_operations_def membership_from_records_def)
  have v: "catalog_from_records demo_catalog_hash (nc_project_id demo_dns) (nc_recovery_epoch demo_dns) membership_empty
      (verified (catalog_operations demo_zone_store)) = Inr demo_catalog"
    by (simp add: demo_dns_def demo_zone_store_def catalog_operations_def catalog_from_records_def demo_catalog_steps)
  have ah: "active_healthy demo_catalog = [web_2]"
    by (simp add: active_healthy_def demo_catalog_def bt_values_def keep_winner_def)
      (simp add: demo_deployment_def catalog_record_order_def keep_winner_def)
  have "pq_opcode ?q = 0" "pq_qclass ?q = QCLASS_IN" "pq_qtype ?q = QTYPE_A" "is_authoritative_name (pq_name ?q)"
    by (simp_all add: QCLASS_IN_def QTYPE_A_def is_authoritative_name_def ends_with_iff)
  note dns_answers_live_replicas [OF demo_query_parsed this m v, of "\<lambda>_ _. None" 100]
  then show ?thesis
    by (simp add: ah Let_def) (auto simp: demo_dns_def demo_deployment_def node_reachable_def service_name_def eval_nat_numeral)
qed

text \<open>The per-server name of a service on a node is the name of the service called after both: the addresses of
  a live replica are also served under that other service's name.\<close>

theorem server_name_shadows_service:
  assumes z: "build_zone mh ch now st c = Inr zone"
    and v: "catalog_from_records ch (nc_project_id c) (nc_recovery_epoch c) mem (verified (catalog_operations st)) = Inr v"
    and r: "r \<in> set (active_healthy v)" "node_reachable c now (node_liveness st) (cr_owner_node_id r)"
  shows "\<exists>addresses. map_of zone (service_name (nc_project_id c) (cr_service r @ ''-'' @ cr_owner_node_id r)) = Some addresses \<and>
    cr_address r \<in> set addresses"
proof -
  obtain mem' where mem': "membership_from_records mh (dns_scope c) (membership_operations st) = Inr mem'"
    using z by (auto simp: build_zone_def split: sum.splits)
  have v': "catalog_from_records ch (nc_project_id c) (nc_recovery_epoch c) mem' (verified (catalog_operations st)) = Inr v"
    using v unfolding catalog_from_verified catalog_step_membership [of _ _ _ mem' mem] .
  have name: "service_name (nc_project_id c) (cr_service r @ ''-'' @ cr_owner_node_id r) =
      server_name (nc_project_id c) (cr_service r) (cr_owner_node_id r)"
    by (simp add: service_name_def server_name_def)
  define live where "live = filter (names (nc_project_id c) (server_name (nc_project_id c) (cr_service r) (cr_owner_node_id r)))
      (filter (\<lambda>r. node_reachable c now (node_liveness st) (cr_owner_node_id r)) (active_healthy v))"
  have "r \<in> set live" using r by (simp add: live_def)
  moreover have "map_of zone (server_name (nc_project_id c) (cr_service r) (cr_owner_node_id r)) = Some (map cr_address live)"
  proof -
    have "zone = zone_from_records (nc_project_id c) (active_healthy v) (node_reachable c now (node_liveness st)) []"
      using z mem' v' by (simp add: build_zone_def)
    then have "map_of zone (server_name (nc_project_id c) (cr_service r) (cr_owner_node_id r)) =
        (if live = [] then None else Some (map cr_address live))"
      by (simp add: zone_from_records_get live_def Let_def)
    with calculation show ?thesis by auto
  qed
  ultimately show ?thesis unfolding name by auto
qed

theorem server_name_shadows_service_witness:
  "\<exists>zone addresses. build_zone (\<lambda>_. []) demo_catalog_hash 100 demo_zone_store demo_dns = Inr zone \<and>
     map_of zone ''p-web-a.jiji'' = Some addresses \<and> 42 \<in> set addresses"
proof -
  have v: "catalog_from_records demo_catalog_hash (nc_project_id demo_dns) (nc_recovery_epoch demo_dns) membership_empty
      (verified (catalog_operations demo_zone_store)) = Inr demo_catalog"
    by (simp add: demo_dns_def demo_zone_store_def catalog_operations_def catalog_from_records_def demo_catalog_steps)
  have ah: "web_2 \<in> set (active_healthy demo_catalog)"
    by (simp add: active_healthy_def demo_catalog_def bt_values_def keep_winner_def)
      (simp add: demo_deployment_def catalog_record_order_def keep_winner_def)
  obtain zone where z: "build_zone (\<lambda>_. []) demo_catalog_hash 100 demo_zone_store demo_dns = Inr zone"
    using v by (auto simp: build_zone_def membership_operations_def demo_zone_store_def store_empty_def membership_from_records_def)
  have "node_reachable demo_dns 100 (node_liveness demo_zone_store) (cr_owner_node_id web_2)"
    by (simp add: node_reachable_def demo_dns_def demo_deployment_def)
  from server_name_shadows_service [OF z v ah this] z show ?thesis
    by (auto simp: service_name_def demo_dns_def demo_deployment_def)
qed

text \<open>A project or service whose name has an upper-case letter is never found: queries are lowered before they
  are looked up, the zone is not.\<close>

theorem upper_case_names_unreachable:
  assumes "parse_query buf = Some q" "is_ascii_uppercase ch" "ch \<in> set (project_id @ service)"
  shows "pq_name q \<noteq> service_name project_id service \<and> pq_name q \<noteq> server_name project_id service node"
  using parse_query_lower [OF assms(1)] assms(2,3) by (auto simp: service_name_def server_name_def list_all_iff)

theorem upper_case_names_unreachable_witness:
  "parse_query demo_query \<noteq> None \<and> pq_name (the (parse_query demo_query)) \<noteq> service_name ''P'' ''web''"
proof -
  have "is_ascii_uppercase (CHR ''P'')" by (simp add: is_ascii_uppercase_def)
  from upper_case_names_unreachable [OF demo_query_parsed this, of "''P''" "''web''" "[]"] demo_query_parsed show ?thesis by simp
qed

end
