(* ===== verification/Env_Resolution.thy ===== *)
theory Env_Resolution
  imports Schema "HOL-Library.AList" "HOL-Library.Sublist"
begin

text \<open>
  Environments and secrets of a service, \<^verbatim>\<open>crates/jiji-cli/src/env_resolution.rs\<close>: reading \<^verbatim>\<open>.env\<close> files,
  merging and resolving an environment, the file handed to the container engine, and the redaction
  of secrets in messages.  The host's environment and file system are parameters; running a command
  for a value and writing the file over SSH are not modelled.

  The results: no secret value survives redaction; an environment resolves exactly when every
  secret is found, and the engine reads back from the staged file exactly the variables that are
  not kept for the control plane.
\<close>

section \<open>Reading environment files\<close>

definition is_ascii_alphabetic :: "char \<Rightarrow> bool" where
  "is_ascii_alphabetic c = (is_ascii_lowercase c \<or> is_ascii_uppercase c)"

definition is_valid_env_var_name :: "string \<Rightarrow> bool" where
  "is_valid_env_var_name name =
     (case name of
        [] \<Rightarrow> False
      | c # cs \<Rightarrow> (is_ascii_alphabetic c \<or> c = CHR ''_'') \<and> list_all (\<lambda>c. is_ascii_alphanumeric c \<or> c = CHR ''_'') cs)"

text \<open>The text before the first occurrence of a pattern.\<close>

fun cut_at :: "string \<Rightarrow> string \<Rightarrow> string option" where
  "cut_at pat [] = (if pat = [] then Some [] else None)"
| "cut_at pat (c # cs) = (if starts_with (c # cs) pat then Some [] else map_option (\<lambda>t. c # t) (cut_at pat cs))"

text \<open>The further lines of a quoted value, up to the closing quote, and the lines after it.\<close>

fun quoted_lines :: "char \<Rightarrow> string list \<Rightarrow> string list \<times> string list" where
  "quoted_lines quote [] = ([], [])"
| "quoted_lines quote (line # rest) =
     (case split_once quote line of
        Some (part, _) \<Rightarrow> ([part], rest)
      | None \<Rightarrow> (let (parts, rest') = quoted_lines quote rest in (line # parts, rest')))"

definition env_value :: "string \<Rightarrow> string list \<Rightarrow> string \<times> string list" where
  "env_value value_part rest =
     (case value_part of
        [] \<Rightarrow> ([], rest)
      | quote # text' \<Rightarrow>
          (if quote = CHR 0x22 \<or> quote = CHR 0x27 then
             (case split_once quote text' of
                Some (inner, _) \<Rightarrow> (inner, rest)
              | None \<Rightarrow> (let (parts, rest') = quoted_lines quote rest in (join [CHR 0x0A] (text' # parts), rest')))
           else
             (case cut_at '' #'' value_part of
                Some before \<Rightarrow> (trim before, rest)
              | None \<Rightarrow> (value_part, rest))))"

lemma quoted_lines_length: "length (snd (quoted_lines quote rest)) \<le> length rest"
  by (induction rest) (auto split: option.splits prod.splits)

lemma env_value_length: "(value, rest') = env_value v rest \<Longrightarrow> length rest' \<le> length rest"
  using quoted_lines_length [of "hd v" rest]
  by (cases v; cases "split_once (hd v) (tl v)"; cases "cut_at '' #'' v") (auto simp: env_value_def split: if_splits prod.splits)

function parse_env_lines :: "string list \<Rightarrow> (string, string) btree_map \<Rightarrow> (string, string) btree_map" where
  "parse_env_lines [] result = result"
| "parse_env_lines (raw_line # rest) result =
     (let trimmed = trim raw_line in
      if trimmed = [] \<or> hd trimmed = CHR ''#'' then parse_env_lines rest result
      else
        case split_once (CHR ''='') trimmed of
          None \<Rightarrow> parse_env_lines rest result
        | Some (k, v) \<Rightarrow>
            (let key = trim k in
             if \<not> is_valid_env_var_name key then parse_env_lines rest result
             else let (value, rest') = env_value (trim v) rest in parse_env_lines rest' (bt_insert key value result)))"
  by pat_completeness auto
termination by (relation "measure (\<lambda>(ls, _). length ls)") (auto simp only: in_measure case_prod_conv list.size dest: env_value_length)

definition parse_env_file :: "string \<Rightarrow> (string, string) btree_map" where
  "parse_env_file content = parse_env_lines (split_on (CHR 0x0A) content) []"

text \<open>\<^verbatim>\<open>Path::join\<close>: an absolute second part replaces the first.\<close>

definition path_join :: "string \<Rightarrow> string \<Rightarrow> string" where
  "path_join root p =
     (if starts_with p ''/'' \<or> root = [] then p
      else if ends_with root ''/'' then root @ p
      else root @ ''/'' @ p)"

definition env_file_search_paths :: "string \<Rightarrow> string option \<Rightarrow> string option \<Rightarrow> string list" where
  "env_file_search_paths project_root environment custom_path =
     (let base = (case custom_path of None \<Rightarrow> ''.env'' | Some p \<Rightarrow> p)
      in (case environment of None \<Rightarrow> [] | Some env \<Rightarrow> [path_join project_root (base @ ''.'' @ env)])
         @ [path_join project_root base])"

text \<open>A file system answers with nothing for what is no file, and with an error for an unreadable one.\<close>

fun load_first :: "(string \<Rightarrow> (string, string) result option) \<Rightarrow> string list \<Rightarrow>
    (string, (string, string) btree_map \<times> string option) result" where
  "load_first fs [] = Inr ([], None)"
| "load_first fs (path # paths) =
     (case fs path of
        None \<Rightarrow> load_first fs paths
      | Some (Inl e) \<Rightarrow> Inl (''Could not read env file '' @ path)
      | Some (Inr content) \<Rightarrow> Inr (parse_env_file content, Some path))"

definition load_env_file :: "(string \<Rightarrow> (string, string) result option) \<Rightarrow> string \<Rightarrow> string option \<Rightarrow> string option \<Rightarrow>
    (string, (string, string) btree_map \<times> string option) result" where
  "load_env_file fs project_root environment custom_path =
     load_first fs (env_file_search_paths project_root environment custom_path)"

section \<open>Resolving an environment\<close>

definition merge_environment :: "Environment \<Rightarrow> Environment \<Rightarrow> Environment" where
  "merge_environment shared service =
     \<lparr>env_clear = foldl (\<lambda>m (k, v). AList.update k v m) (env_clear shared) (env_clear service),
      env_secrets = foldl (\<lambda>ss s. if s \<in> set ss then ss else ss @ [s]) (env_secrets shared) (env_secrets service)\<rparr>"

record ResolvedEnvironment =
  re_values :: "(string, string) btree_map"
  re_secret_keys :: "string list"
  re_control_keys :: "string list"

definition resolve_secret_name :: "(string \<Rightarrow> string option) \<Rightarrow> string \<Rightarrow> (string, string) btree_map \<Rightarrow> bool \<Rightarrow> string option" where
  "resolve_secret_name host_env name loaded allow_host_env =
     (case map_of loaded name of
        Some v \<Rightarrow> Some v
      | None \<Rightarrow> (if allow_host_env then host_env name else None))"

fun resolve_secrets ::
  "(string \<Rightarrow> string option) \<Rightarrow> string list \<Rightarrow> (string, string) btree_map \<Rightarrow> string list \<Rightarrow> string list \<Rightarrow>
   (string, string) btree_map \<times> string list \<times> string list" where
  "resolve_secrets lookup [] vals keys missing = (vals, keys, missing)"
| "resolve_secrets lookup (name # names) vals keys missing =
     (case lookup name of
        Some v \<Rightarrow> resolve_secrets lookup names (bt_insert name v vals) (insort_insert name keys) missing
      | None \<Rightarrow> resolve_secrets lookup names vals keys (missing @ [name]))"

definition missing_secrets_message :: "string list \<Rightarrow> string" where
  "missing_secrets_message missing =
     ''Missing required secrets: '' @ join '', '' missing @
     ''. Create a .env file with these secrets, or pass --host-env to read from the host environment.''"

definition resolve_environment ::
  "(string \<Rightarrow> string option) \<Rightarrow> Environment \<Rightarrow> (string, string) btree_map \<Rightarrow> bool \<Rightarrow> (string, ResolvedEnvironment) result" where
  "resolve_environment host_env env loaded allow_host_env =
     (let vals = foldl (\<lambda>m (k, v). bt_insert k (show_ClearValue v) m) [] (env_clear env);
          (vals', secret_keys, missing) =
            resolve_secrets (\<lambda>name. resolve_secret_name host_env name loaded allow_host_env) (env_secrets env) vals [] []
      in if missing \<noteq> [] then Inl (missing_secrets_message missing)
         else Inr \<lparr>re_values = vals', re_secret_keys = secret_keys, re_control_keys = []\<rparr>)"

definition is_command_expression :: "string \<Rightarrow> string option" where
  "is_command_expression value = Option.bind (strip_prefix ''$('' (trim value)) (strip_suffix '')'')"

definition redacted_summary :: "ResolvedEnvironment \<Rightarrow> string list" where
  "redacted_summary r =
     map (\<lambda>(key, value). if key \<in> set (re_secret_keys r) then key @ ''=<redacted>'' else key @ ''='' @ value) (re_values r)"

section \<open>Redaction\<close>

text \<open>\<^verbatim>\<open>str::replace\<close> for a pattern that is not empty: the leftmost matches that do not overlap.\<close>

function replace_all :: "string \<Rightarrow> string \<Rightarrow> string \<Rightarrow> string" where
  "replace_all pat rep s =
     (case s of
        [] \<Rightarrow> []
      | c # cs \<Rightarrow>
          (if pat \<noteq> [] \<and> starts_with s pat then rep @ replace_all pat rep (drop (length pat) s)
           else c # replace_all pat rep cs))"
  by pat_completeness auto
termination by (relation "measure (\<lambda>(_, _, s). length s)") auto

declare replace_all.simps [simp del]

definition secret_values :: "ResolvedEnvironment \<Rightarrow> string list" where
  "secret_values r =
     filter (\<lambda>v. v \<noteq> []) (List.map_filter (map_of (re_values r)) (re_secret_keys r @ re_control_keys r))"

definition redact_secrets :: "string \<Rightarrow> ResolvedEnvironment \<Rightarrow> string" where
  "redact_secrets t r =
     foldl (\<lambda>redacted value. replace_all value ''<redacted>'' redacted) t
       (remdups_adj (sort_key (\<lambda>v. - int (length v)) (secret_values r)))"

section \<open>The staged file\<close>

definition project_staging_dir :: "string \<Rightarrow> string" where
  "project_staging_dir project = ''.jiji/'' @ project"

fun env_file_lines :: "string \<Rightarrow> string list \<Rightarrow> (string \<times> string) list \<Rightarrow> (string, string) result" where
  "env_file_lines service control [] = Inr []"
| "env_file_lines service control ((key, value) # rest) =
     (if key \<in> set control then env_file_lines service control rest
      else if CHR 0x0A \<in> set value then
        Inl (''Environment variable '' @ [CHR 0x27] @ key @ [CHR 0x27] @ '' for service '' @ [CHR 0x27] @ service @ [CHR 0x27] @
             '' contains a newline, which the container engine'' @ [CHR 0x27] @
             ''s --env-file format cannot represent. Remove the newline from that value and retry.'')
      else map_sum id (\<lambda>t. key @ ''='' @ value @ [CHR 0x0A] @ t) (env_file_lines service control rest))"

definition env_file_content :: "string \<Rightarrow> ResolvedEnvironment \<Rightarrow> (string, string) result" where
  "env_file_content service r = env_file_lines service (re_control_keys r) (re_values r)"

definition env_file_path :: "string \<Rightarrow> string \<Rightarrow> string \<Rightarrow> string" where
  "env_file_path project service server = ''.jiji/'' @ project @ ''/env/'' @ service @ ''-'' @ server @ ''.env''"

section \<open>Redaction leaves no secret\<close>

lemma replace_all_Nil [simp]: "replace_all pat rep [] = []"
  by (simp add: replace_all.simps)

lemma replace_all_match: "pat \<noteq> [] \<Longrightarrow> replace_all pat rep (pat @ s) = rep @ replace_all pat rep s"
  by (subst replace_all.simps) (cases pat; simp add: starts_with_def)

lemma replace_all_skip: "\<not> prefix pat (c # cs) \<Longrightarrow> replace_all pat rep (c # cs) = c # replace_all pat rep cs"
  by (subst replace_all.simps) (auto simp: starts_with_iff prefix_def)

lemma replace_all_cases [consumes 1, case_names Nil Match Skip]:
  assumes "pat \<noteq> []" "P []" "\<And>s. P s \<Longrightarrow> P (pat @ s)" "\<And>c cs. \<lbrakk>\<not> prefix pat (c # cs); P cs\<rbrakk> \<Longrightarrow> P (c # cs)"
  shows "P s"
proof (induction s rule: length_induct)
  case (1 s)
  show ?case
  proof (cases "prefix pat s")
    case True
    then obtain t where "s = pat @ t" by (auto simp: prefix_def)
    then show ?thesis using 1 assms(1,3) by simp
  next
    case False
    then show ?thesis using 1 assms(2,4) by (cases s) auto
  qed
qed

text \<open>What survives a replacement: no bracket of the mark, and no part of its word.\<close>

definition redactable :: "string \<Rightarrow> bool" where
  "redactable v \<longleftrightarrow> v \<noteq> [] \<and> CHR ''<'' \<notin> set v \<and> CHR ''>'' \<notin> set v \<and> \<not> sublist v ''redacted''"

lemma replace_all_prefix:
  assumes "pat \<noteq> []" "CHR ''<'' \<notin> set u" "prefix u (replace_all pat ''<redacted>'' s)"
  shows "prefix u s"
  using assms
proof (induction arbitrary: u rule: replace_all_cases)
  case (Match s)
  then show ?case using \<open>pat \<noteq> []\<close> by (cases u) (auto simp: replace_all_match)
next
  case (Skip c cs)
  then show ?case by (cases u) (auto simp: replace_all_skip)
qed simp

lemma prefix_before: "\<lbrakk>prefix v (xs @ c # ys); c \<notin> set v\<rbrakk> \<Longrightarrow> prefix v xs"
  by (induction xs arbitrary: v) (auto simp: prefix_Cons)

lemma sublist_apart:
  assumes "v \<noteq> []" "c \<notin> set v" "sublist v (xs @ c # ys)"
  shows "sublist v xs \<or> sublist v ys"
  using assms
proof (induction xs)
  case Nil
  then show ?case by (cases v) (auto simp: sublist_Cons_right)
next
  case (Cons x xs)
  have "prefix v (x # xs)" if "prefix v (x # xs @ c # ys)"
    using prefix_before [of v "x # xs" c ys] that Cons.prems(2) by simp
  then show ?case using Cons by (auto simp: sublist_Cons_right)
qed

lemma sublist_mark:
  assumes "redactable v" "sublist v (''<redacted>'' @ t)"
  shows "sublist v t"
proof -
  have "v \<noteq> []" using assms(1) by (simp add: redactable_def)
  then have "sublist v (''redacted'' @ CHR ''>'' # t)"
    using sublist_apart [of v "CHR ''<''" "[]" "''redacted'' @ CHR ''>'' # t"] assms by (simp add: redactable_def)
  then show ?thesis
    using sublist_apart [of v "CHR ''>''" "''redacted''" t] assms(1) unfolding redactable_def by blast
qed

lemma replace_all_sublist:
  assumes "pat \<noteq> []" "redactable v" "sublist v (replace_all pat ''<redacted>'' s)"
  shows "sublist v s"
  using assms
proof (induction rule: replace_all_cases)
  case (Match s)
  have "sublist v (''<redacted>'' @ replace_all pat ''<redacted>'' s)"
    using Match.prems(2) unfolding replace_all_match [OF \<open>pat \<noteq> []\<close>] .
  then have "sublist v (replace_all pat ''<redacted>'' s)" by (rule sublist_mark [OF Match.prems(1)])
  then show ?case using Match sublist_append by blast
next
  case (Skip c cs)
  then have "prefix v (c # replace_all pat ''<redacted>'' cs) \<or> sublist v (replace_all pat ''<redacted>'' cs)"
    by (simp add: replace_all_skip sublist_Cons_right)
  moreover have "prefix v (c # cs)" if "prefix v (c # replace_all pat ''<redacted>'' cs)"
    using that replace_all_prefix [OF \<open>pat \<noteq> []\<close>, of "tl v" cs] Skip.prems(1)
    by (cases v) (auto simp: redactable_def)
  ultimately show ?case using Skip by (auto simp: sublist_Cons_right)
qed simp

lemma replace_all_gone:
  assumes "redactable v"
  shows "\<not> sublist v (replace_all v ''<redacted>'' s)"
proof -
  have ne: "v \<noteq> []" using assms by (simp add: redactable_def)
  then show ?thesis
  proof (induction s rule: replace_all_cases)
    case Nil
    then show ?case using ne by simp
  next
    case (Match s)
    then show ?case using sublist_mark [OF assms] by (auto simp: replace_all_match ne)
  next
    case (Skip c cs)
    have "\<not> prefix v (c # replace_all v ''<redacted>'' cs)"
      using replace_all_prefix [OF ne, of "tl v" cs] Skip(1) assms ne by (cases v) (auto simp: redactable_def)
    then show ?case using Skip by (auto simp: replace_all_skip sublist_Cons_right)
  qed
qed

lemma replace_each_sublist:
  assumes "\<forall>p \<in> set ps. p \<noteq> []" "redactable v" "sublist v (foldl (\<lambda>t p. replace_all p ''<redacted>'' t) s ps)"
  shows "sublist v s"
  using assms by (induction ps arbitrary: s) (auto dest: replace_all_sublist)

lemma secret_values_mem:
  assumes "k \<in> set (re_secret_keys r) \<union> set (re_control_keys r)" "map_of (re_values r) k = Some v" "v \<noteq> []"
  shows "v \<in> set (secret_values r)"
  using assms by (force simp: secret_values_def map_filter_def)

text \<open>
  No secret survives redaction: the value of a secret or of a control key does not occur
  anywhere in the redacted text, unless it contains an angle bracket or is part of the word that
  marks the redaction.
\<close>

theorem redaction_complete:
  assumes "k \<in> set (re_secret_keys r) \<union> set (re_control_keys r)" "map_of (re_values r) k = Some v" "redactable v"
  shows "\<not> sublist v (redact_secrets t r)"
proof -
  let ?vs = "remdups_adj (sort_key (\<lambda>v. - int (length v)) (secret_values r))"
  have ne: "\<forall>p \<in> set ?vs. p \<noteq> []" by (simp add: secret_values_def)
  have "v \<in> set ?vs" using secret_values_mem [OF assms(1,2)] assms(3) by (simp add: redactable_def)
  then obtain as bs where vs: "?vs = as @ v # bs" by (meson split_list)
  have "\<not> sublist v (foldl (\<lambda>t p. replace_all p ''<redacted>'' t) (replace_all v ''<redacted>'' s) bs)" for s
    using replace_each_sublist [of bs v] replace_all_gone [OF assms(3)] ne vs assms(3) by auto
  then show ?thesis by (simp add: redact_secrets_def vs)
qed

definition demo_resolved :: ResolvedEnvironment where
  "demo_resolved = \<lparr>re_values = [(''DB_PASS'', ''foo-v2''), (''MODE'', ''live''), (''PIN'', ''foo'')],
     re_secret_keys = [''DB_PASS'', ''PIN''], re_control_keys = []\<rparr>"

theorem redaction_complete_witness:
  "redact_secrets ''login foo-v2 failed, pin foo'' demo_resolved = ''login <redacted> failed, pin <redacted>'' \<and>
   \<not> sublist ''foo'' (redact_secrets ''login foo-v2 failed, pin foo'' demo_resolved)"
proof
  show "redact_secrets ''login foo-v2 failed, pin foo'' demo_resolved = ''login <redacted> failed, pin <redacted>''"
    by code_simp
  have "redactable ''foo''" by (simp add: redactable_def sublist_Cons_right)
  then show "\<not> sublist ''foo'' (redact_secrets ''login foo-v2 failed, pin foo'' demo_resolved)"
    by (intro redaction_complete [of "''PIN''"]) (simp_all add: demo_resolved_def)
qed

section \<open>Resolution and the staged file\<close>

text \<open>
  The format the container engines document for \<^verbatim>\<open>--env-file\<close>: one variable per line, its name up to
  the first equals sign.
\<close>

definition read_env_file :: "string \<Rightarrow> (string \<times> string) list" where
  "read_env_file content = List.map_filter (split_once (CHR ''='')) (split_on (CHR 0x0A) content)"

lemma clear_values_get:
  assumes "distinct (map fst cl)"
  shows "map_of (foldl (\<lambda>m (k, v). bt_insert k (show_ClearValue v) m) m cl) k =
    (case map_of cl k of None \<Rightarrow> map_of m k | Some v \<Rightarrow> Some (show_ClearValue v))"
  using assms by (induction cl arbitrary: m) (force split: option.splits)+

lemma resolve_secrets_spec:
  "resolve_secrets lookup names vals keys missing = (vals', keys', missing') \<Longrightarrow>
     missing' = missing @ filter (\<lambda>n. lookup n = None) names \<and>
     set keys' = set keys \<union> {n \<in> set names. lookup n \<noteq> None} \<and>
     map_of vals' k = (if k \<in> set names \<and> lookup k \<noteq> None then lookup k else map_of vals k)"
proof (induction names arbitrary: vals keys missing)
  case (Cons n names)
  show ?case
  proof (cases "lookup n")
    case None
    with Cons.prems have "resolve_secrets lookup names vals keys (missing @ [n]) = (vals', keys', missing')" by simp
    note ih = Cons.IH [OF this]
    have "set (n # names) \<inter> {m. lookup m \<noteq> None} = set names \<inter> {m. lookup m \<noteq> None}" using None by auto
    then show ?thesis using ih None by (simp add: Int_def conj_commute) auto
  next
    case (Some v)
    with Cons.prems have "resolve_secrets lookup names (bt_insert n v vals) (insort_insert n keys) missing = (vals', keys', missing')"
      by simp
    from Cons.IH [OF this] show ?thesis using Some by (auto simp: set_insort_insert)
  qed
qed simp

lemma resolve_secrets_wf:
  "\<lbrakk>resolve_secrets lookup names vals keys missing = (vals', keys', missing'); bt_wf vals\<rbrakk> \<Longrightarrow> bt_wf vals'"
  by (induction names arbitrary: vals keys missing) (auto split: option.splits)

lemma clear_values_wf: "bt_wf m \<Longrightarrow> bt_wf (foldl (\<lambda>m (k, v). bt_insert k (show_ClearValue v) m) m cl)"
  by (induction cl arbitrary: m) auto

lemma valid_name_chars:
  assumes "is_valid_env_var_name k"
  shows "CHR ''='' \<notin> set k" "CHR 0x0A \<notin> set k"
proof -
  have "is_ascii_alphanumeric c \<or> c = CHR ''_''" if "c \<in> set k" for c
    using assms that
    by (auto simp: is_valid_env_var_name_def is_ascii_alphabetic_def is_ascii_alphanumeric_def list_all_iff split: list.splits)
  from this [of "CHR ''=''"] this [of "CHR 0x0A"] show "CHR ''='' \<notin> set k" "CHR 0x0A \<notin> set k"
    by (auto simp: is_ascii_alphanumeric_def is_ascii_digit_def is_ascii_lowercase_def is_ascii_uppercase_def)
qed

lemma env_file_lines_read:
  assumes "\<forall>(k, v) \<in> set vals. is_valid_env_var_name k" "env_file_lines service control vals = Inr content"
  shows "read_env_file content = filter (\<lambda>(k, v). k \<notin> set control) vals"
  using assms
proof (induction vals arbitrary: content)
  case Nil
  then show ?case by (simp add: read_env_file_def map_filter_def)
next
  case (Cons kv vals)
  obtain k v where kv: "kv = (k, v)" by (cases kv)
  show ?case
  proof (cases "k \<in> set control")
    case True
    then show ?thesis using Cons kv by simp
  next
    case False
    then obtain t where t: "env_file_lines service control vals = Inr t" "CHR 0x0A \<notin> set v"
      and content: "content = (k @ CHR ''='' # v) @ CHR 0x0A # t"
      using Cons.prems(2) kv by (cases "env_file_lines service control vals") (auto split: if_splits)
    have k: "CHR ''='' \<notin> set k" "CHR 0x0A \<notin> set k" using Cons.prems(1) kv valid_name_chars by auto
    then have "split_on (CHR 0x0A) content = (k @ CHR ''='' # v) # split_on (CHR 0x0A) t"
      unfolding content using t(2) by (intro split_on_append) auto
    then show ?thesis using Cons.IH [OF _ t(1)] Cons.prems(1) False kv split_once_append [OF k(1)]
      by (simp add: read_env_file_def map_filter_simps)
  qed
qed

lemma env_file_lines_error:
  "env_file_lines service control vals = Inl e \<Longrightarrow> \<exists>(k, v) \<in> set vals. k \<notin> set control \<and> CHR 0x0A \<in> set v"
proof (induction vals)
  case (Cons kv vals)
  then show ?case by (cases kv; cases "env_file_lines service control vals") (auto split: if_splits)
qed simp

definition resolved_as :: "Environment \<Rightarrow> (string \<Rightarrow> string option) \<Rightarrow> string \<Rightarrow> string option" where
  "resolved_as env lookup k =
     (if k \<in> set (env_secrets env) then lookup k else map_option show_ClearValue (map_of (env_clear env) k))"

lemma map_of_filter_keys: "map_of (filter (\<lambda>(k, v). P k) xs) k = (if P k then map_of xs k else None)"
  by (induction xs) auto

text \<open>
  An environment resolves exactly when every secret is found, and otherwise the error names all
  missing secrets.  A secret takes precedence over a clear value of its name.  The engine reads from
  the staged file exactly the resolved variables that are not control keys, and staging fails only
  for a value with a line break.
\<close>

theorem environment_staged:
  fixes host_env loaded allow_host_env
  defines "lookup \<equiv> \<lambda>name. resolve_secret_name host_env name loaded allow_host_env"
  assumes names: "\<forall>k \<in> fst ` set (env_clear env) \<union> set (env_secrets env). is_valid_env_var_name k"
    and hash_map: "distinct (map fst (env_clear env))"
  shows "case resolve_environment host_env env loaded allow_host_env of
      Inl e \<Rightarrow> e = missing_secrets_message (filter (\<lambda>s. lookup s = None) (env_secrets env)) \<and>
        (\<exists>s \<in> set (env_secrets env). lookup s = None)
    | Inr r \<Rightarrow> (\<forall>s \<in> set (env_secrets env). lookup s \<noteq> None) \<and>
        map_of (re_values r) = resolved_as env lookup \<and> set (re_secret_keys r) = set (env_secrets env) \<and>
        (case env_file_content service (r\<lparr>re_control_keys := control\<rparr>) of
           Inl _ \<Rightarrow> \<exists>k v. k \<notin> set control \<and> resolved_as env lookup k = Some v \<and> CHR 0x0A \<in> set v
         | Inr content \<Rightarrow> map_of (read_env_file content) = resolved_as env lookup |` (- set control))"
proof -
  let ?clear = "foldl (\<lambda>m (k, v). bt_insert k (show_ClearValue v) m) [] (env_clear env)"
  obtain vals keys missing where run: "resolve_secrets lookup (env_secrets env) ?clear [] [] = (vals, keys, missing)"
    by (cases "resolve_secrets lookup (env_secrets env) ?clear [] []")
  note spec = resolve_secrets_spec [OF run]
  have res: "resolve_environment host_env env loaded allow_host_env =
    (if missing \<noteq> [] then Inl (missing_secrets_message missing)
     else Inr \<lparr>re_values = vals, re_secret_keys = keys, re_control_keys = []\<rparr>)"
    using run by (simp add: resolve_environment_def lookup_def)
  show ?thesis
  proof (cases "missing = []")
    case False
    then show ?thesis using spec by (auto simp: res filter_empty_conv)
  next
    case True
    then have all: "\<forall>s \<in> set (env_secrets env). lookup s \<noteq> None" using spec by (auto simp: filter_empty_conv)
    have get: "map_of vals = resolved_as env lookup"
      using spec all by (auto simp: fun_eq_iff resolved_as_def clear_values_get [OF hash_map] split: option.splits)
    have valid: "is_valid_env_var_name k" if "(k, v) \<in> set vals" for k v
    proof -
      have "map_of vals k \<noteq> None" using that map_of_eq_None_iff [of vals k] by force
      then have "k \<in> fst ` set (env_clear env) \<union> set (env_secrets env)"
        unfolding get resolved_as_def using map_of_eq_None_iff [of "env_clear env" k] by (cases "k \<in> set (env_secrets env)") auto
      then show ?thesis using names by blast
    qed
    show ?thesis
    proof (cases "env_file_lines service control vals")
      case (Inl e)
      have "distinct (map fst vals)" using resolve_secrets_wf [OF run clear_values_wf] bt_wf_distinct by auto
      then have "\<exists>k v. k \<notin> set control \<and> resolved_as env lookup k = Some v \<and> CHR 0x0A \<in> set v"
        using env_file_lines_error [OF Inl] get [symmetric] by (auto dest: map_of_is_SomeI)
      then show ?thesis using Inl all get spec True by (auto simp: res env_file_content_def)
    next
      case (Inr content)
      have "read_env_file content = filter (\<lambda>(k, v). k \<notin> set control) vals"
        using env_file_lines_read [OF _ Inr] valid by blast
      then have "map_of (read_env_file content) = resolved_as env lookup |` (- set control)"
        by (auto simp: map_of_filter_keys get restrict_map_def fun_eq_iff)
      then show ?thesis using Inr all get spec True by (auto simp: res env_file_content_def)
    qed
  qed
qed

definition demo_environment :: Environment where
  "demo_environment = \<lparr>env_clear = [(''MODE'', ClearString ''live''), (''PIN'', ClearString ''0'')], env_secrets = [''PIN'', ''TLS'']\<rparr>"

theorem environment_staged_witness:
  "\<exists>r content. resolve_environment (\<lambda>_. None) demo_environment [(''PIN'', ''foo''), (''TLS'', ''pem'')] False = Inr r \<and>
     env_file_content ''web'' (r\<lparr>re_control_keys := [''TLS'']\<rparr>) = Inr content \<and>
     map_of (read_env_file content) = [''MODE'' \<mapsto> ''live'', ''PIN'' \<mapsto> ''foo'']"
proof -
  let ?loaded = "[(''PIN'', ''foo''), (''TLS'', ''pem'')]" and ?find = "\<lambda>n. resolve_secret_name (\<lambda>_. None) n [(''PIN'', ''foo''), (''TLS'', ''pem'')] False"
  have ok: "\<forall>k \<in> fst ` set (env_clear demo_environment) \<union> set (env_secrets demo_environment). is_valid_env_var_name k"
    "distinct (map fst (env_clear demo_environment))"
    by code_simp+
  obtain r where r: "resolve_environment (\<lambda>_. None) demo_environment ?loaded False = Inr r"
    "re_values r = [(''MODE'', ''live''), (''PIN'', ''foo''), (''TLS'', ''pem'')]"
    by (simp add: resolve_environment_def demo_environment_def resolve_secret_name_def show_ClearValue_def)
  obtain content where content: "env_file_content ''web'' (r\<lparr>re_control_keys := [''TLS'']\<rparr>) = Inr content"
    by (simp add: env_file_content_def r(2))
  have "resolved_as demo_environment ?find |` (- set [''TLS'']) = [''MODE'' \<mapsto> ''live'', ''PIN'' \<mapsto> ''foo'']"
    by (auto simp: fun_eq_iff restrict_map_def resolved_as_def demo_environment_def resolve_secret_name_def show_ClearValue_def)
  then show ?thesis
    using environment_staged [OF ok, where host_env = "\<lambda>_. None" and loaded = ?loaded and allow_host_env = False and service = "''web''" and control = "[''TLS'']"] r(1) content by simp
qed

end
