(* ===== verification/Deploy_Lock.thy ===== *)
theory Deploy_Lock
  imports Env_Resolution "HOL-Library.Multiset"
begin

text \<open>
  The deployment locks of the command line (\<^verbatim>\<open>crates/jiji-cli/src/lock.rs\<close>, \<^verbatim>\<open>commands/lock/mod.rs\<close>). A lock is
  a directory on a host with the file \<^verbatim>\<open>info.json\<close> in it, taken by renaming a prepared directory over it.
  \<open>lock_entry\<close> is what stands at the path of a lock; one function per shell command that touches it gives
  the effect of that command. The scripts are sequences of such commands, and scripts of several invocations
  interleave: \<open>client_step\<close> is one command of one invocation, \<open>lock_step\<close> one step of the whole system, with the forced
  removal that \<^verbatim>\<open>--force\<close> asks for and the protected operation of \<^verbatim>\<open>server teardown\<close>, which deletes its own lock. The
  directory an invocation prepares carries its own lock id in its name, so no other invocation touches it.
\<close>

section \<open>Scopes and requests\<close>

definition HOST_GLOBAL_PROXY_LOCK_PATH :: string where
  "HOST_GLOBAL_PROXY_LOCK_PATH = ''/etc/jiji/proxy-ingress/lock''"

definition project_maintenance_lock_path :: "string \<Rightarrow> string" where
  "project_maintenance_lock_path project = project_staging_dir project @ ''/locks/maintenance.lock''"

definition host_runtime_lock_path :: "string \<Rightarrow> string" where
  "host_runtime_lock_path project = project_staging_dir project @ ''/locks/host-runtime.lock''"

definition service_scale_lock_path :: "string \<Rightarrow> string \<Rightarrow> string" where
  "service_scale_lock_path project service = project_staging_dir project @ ''/locks/service/'' @ service @ ''.lock''"

definition replica_lock_path :: "string \<Rightarrow> string \<Rightarrow> string" where
  "replica_lock_path project replica_id = project_staging_dir project @ ''/locks/replica/'' @ replica_id @ ''.lock''"

datatype LockScope =
    ProjectMaintenance
  | HostRuntime
  | ServiceScale (ls_service: string)
  | LogicalReplica (ls_replica_id: string)
  | HostGlobalProxy

fun rank :: "LockScope \<Rightarrow> nat" where
  "rank ProjectMaintenance = 0"
| "rank HostRuntime = 1"
| "rank (ServiceScale _) = 2"
| "rank (LogicalReplica _) = 3"
| "rank HostGlobalProxy = 4"

fun lock_path :: "LockScope \<Rightarrow> string \<Rightarrow> string" where
  "lock_path ProjectMaintenance project = project_maintenance_lock_path project"
| "lock_path HostRuntime project = host_runtime_lock_path project"
| "lock_path (ServiceScale service) project = service_scale_lock_path project service"
| "lock_path (LogicalReplica replica_id) project = replica_lock_path project replica_id"
| "lock_path HostGlobalProxy project = HOST_GLOBAL_PROXY_LOCK_PATH"

fun show_scope :: "LockScope \<Rightarrow> string" where
  "show_scope ProjectMaintenance = ''project-maintenance''"
| "show_scope HostRuntime = ''host-runtime''"
| "show_scope (ServiceScale service) = ''service-scale:'' @ service"
| "show_scope (LogicalReplica replica_id) = ''replica:'' @ replica_id"
| "show_scope HostGlobalProxy = ''proxy''"

record LockRequest =
  lr_scope :: LockScope
  lr_host :: string

definition sort_requests :: "LockRequest list \<Rightarrow> string \<Rightarrow> LockRequest list" where
  "sort_requests locks project = sort_key (\<lambda>r. (rank (lr_scope r), lr_host r, lock_path (lr_scope r) project)) locks"

record LockInfo =
  li_message :: string
  li_acquired_at :: u64
  li_acquired_by :: string
  li_pid :: u32
  li_lock_id :: "string option"

definition age_seconds :: "u64 \<Rightarrow> LockInfo \<Rightarrow> u64" where
  "age_seconds now i = u64_saturating_sub now (li_acquired_at i)"

definition format_age :: "u64 \<Rightarrow> string" where
  "format_age seconds =
     (if seconds < 60 then show_nat (unat seconds) @ ''s''
      else if seconds < 3600 then show_nat (unat seconds div 60) @ ''m'' @ show_nat (unat seconds mod 60) @ ''s''
      else show_nat (unat seconds div 3600) @ ''h'' @ show_nat (unat seconds mod 3600 div 60) @ ''m'')"

section \<open>Shell commands on the path of a lock\<close>

text \<open>The contents of \<^verbatim>\<open>info.json\<close> are a lock's metadata, or \<^const>\<open>None\<close> when they do not parse.\<close>

datatype lock_entry = Absent | Plain_File | Empty_Dir | Lock_Dir "LockInfo option"

fun is_dir :: "lock_entry \<Rightarrow> bool" where
  "is_dir Empty_Dir = True"
| "is_dir (Lock_Dir _) = True"
| "is_dir _ = False"

text \<open>\<^verbatim>\<open>mv -T pending path\<close>: a rename replaces nothing or an empty directory.\<close>

fun sh_publish :: "LockInfo \<Rightarrow> lock_entry \<Rightarrow> bool \<times> lock_entry" where
  "sh_publish i Absent = (True, Lock_Dir (Some i))"
| "sh_publish i Empty_Dir = (True, Lock_Dir (Some i))"
| "sh_publish i e = (False, e)"

text \<open>\<^verbatim>\<open>cat path/info.json || true\<close>, parsed.\<close>

fun read_lock :: "lock_entry \<Rightarrow> LockInfo option" where
  "read_lock (Lock_Dir c) = c"
| "read_lock _ = None"

text \<open>\<^verbatim>\<open>rm -f path/info.json\<close>, \<^verbatim>\<open>rmdir path\<close> and \<^verbatim>\<open>rm -f path\<close>, with their success.\<close>

fun sh_rm_info :: "lock_entry \<Rightarrow> lock_entry" where
  "sh_rm_info (Lock_Dir _) = Empty_Dir"
| "sh_rm_info e = e"

fun sh_rmdir :: "lock_entry \<Rightarrow> bool \<times> lock_entry" where
  "sh_rmdir Empty_Dir = (True, Absent)"
| "sh_rmdir e = (False, e)"

fun sh_rm :: "lock_entry \<Rightarrow> bool \<times> lock_entry" where
  "sh_rm Plain_File = (True, Absent)"
| "sh_rm Absent = (True, Absent)"
| "sh_rm e = (False, e)"

section \<open>The scripts, one command at a time\<close>

datatype AcquireResult = Acquired | Held "LockInfo option"

datatype ReleaseOwnedResult = Released | NoLongerOwned | AlreadyGone

text \<open>Where an invocation stands: the forced removal, the first attempt, the recovery of an incomplete lock, the second
  attempt, the protected operation, the release. \<open>Stopped\<close> is a failure of the invocation or of its connection.\<close>

datatype lock_pc =
    Force_Test | Force_Info | Force_Dir | Force_File
  | Try | Held_Read
  | Recover_Test | Recover_Info | Recover_Dir | Recover_Exists | Recover_File
  | Retry | Held_Again | Not_Acquired "LockInfo option"
  | Owner
  | Release_Test | Release_Check | Release_Info | Release_Dir | Release_Done ReleaseOwnedResult
  | Stopped

fun client_step :: "LockInfo \<Rightarrow> lock_pc \<Rightarrow> lock_entry \<Rightarrow> lock_pc \<times> lock_entry" where
  "client_step i Force_Test e = (if is_dir e then Force_Info else Force_File, e)"
| "client_step i Force_Info e = (Force_Dir, sh_rm_info e)"
| "client_step i Force_Dir e = (case sh_rmdir e of (ok, e') \<Rightarrow> (if ok then Try else Stopped, e'))"
| "client_step i Force_File e = (case sh_rm e of (ok, e') \<Rightarrow> (if ok then Try else Stopped, e'))"
| "client_step i Try e = (case sh_publish i e of (ok, e') \<Rightarrow> (if ok then Owner else Held_Read, e'))"
| "client_step i Held_Read e = ((case read_lock e of Some holder \<Rightarrow> Not_Acquired (Some holder) | None \<Rightarrow> Recover_Test), e)"
| "client_step i Recover_Test e = (if is_dir e then Recover_Info else Recover_Exists, e)"
| "client_step i Recover_Info e = (Recover_Dir, sh_rm_info e)"
| "client_step i Recover_Dir e = (Retry, snd (sh_rmdir e))"
| "client_step i Recover_Exists e = (if e = Absent then Retry else Recover_File, e)"
| "client_step i Recover_File e = (case sh_rm e of (ok, e') \<Rightarrow> (if ok then Retry else Stopped, e'))"
| "client_step i Retry e = (case sh_publish i e of (ok, e') \<Rightarrow> (if ok then Owner else Held_Again, e'))"
| "client_step i Held_Again e = (Not_Acquired (read_lock e), e)"
| "client_step i Owner e = (Release_Test, e)"
| "client_step i Release_Test e = (if is_dir e then Release_Check else Release_Done AlreadyGone, e)"
| "client_step i Release_Check e =
     ((case e of
         Lock_Dir c \<Rightarrow> (if Option.bind c li_lock_id = li_lock_id i then Release_Info else Release_Done NoLongerOwned)
       | _ \<Rightarrow> Stopped), e)"
| "client_step i Release_Info e = (Release_Dir, sh_rm_info e)"
| "client_step i Release_Dir e = (case sh_rmdir e of (ok, e') \<Rightarrow> (if ok then Release_Done Released else Stopped, e'))"
| "client_step i (Not_Acquired h) e = (Not_Acquired h, e)"
| "client_step i (Release_Done r) e = (Release_Done r, e)"
| "client_step i Stopped e = (Stopped, e)"

text \<open>The scripts run without interference.\<close>

definition recover_incomplete_lock :: "lock_entry \<Rightarrow> bool \<times> lock_entry" where
  "recover_incomplete_lock e =
     (if is_dir e then (True, snd (sh_rmdir (sh_rm_info e)))
      else if e \<noteq> Absent then sh_rm e
      else (True, e))"

definition acquire_lock :: "LockInfo \<Rightarrow> lock_entry \<Rightarrow> AcquireResult option \<times> lock_entry" where
  "acquire_lock i e =
     (case sh_publish i e of
        (True, e1) \<Rightarrow> (Some Acquired, e1)
      | (False, e1) \<Rightarrow>
          (case read_lock e1 of
             Some holder \<Rightarrow> (Some (Held (Some holder)), e1)
           | None \<Rightarrow>
               (case recover_incomplete_lock e1 of
                  (False, e2) \<Rightarrow> (None, e2)
                | (True, e2) \<Rightarrow>
                    (case sh_publish i e2 of
                       (True, e3) \<Rightarrow> (Some Acquired, e3)
                     | (False, e3) \<Rightarrow> (Some (Held (read_lock e3)), e3)))))"

definition release_owned_lock :: "LockInfo \<Rightarrow> lock_entry \<Rightarrow> ReleaseOwnedResult option \<times> lock_entry" where
  "release_owned_lock i e =
     (case e of
        Lock_Dir c \<Rightarrow>
          (if Option.bind c li_lock_id = li_lock_id i then
             (case sh_rmdir (sh_rm_info e) of (ok, e') \<Rightarrow> (if ok then Some Released else None, e'))
           else (Some NoLongerOwned, e))
      | Empty_Dir \<Rightarrow> (None, e)
      | _ \<Rightarrow> (Some AlreadyGone, e))"

definition force_remove_lock :: "lock_entry \<Rightarrow> bool \<times> lock_entry" where
  "force_remove_lock e = (if is_dir e then sh_rmdir (sh_rm_info e) else sh_rm e)"

section \<open>Several locks on several hosts\<close>

type_synonym lock_files = "string \<times> string \<Rightarrow> lock_entry"

definition lock_key :: "string \<Rightarrow> LockRequest \<Rightarrow> string \<times> string" where
  "lock_key project r = (lr_host r, lock_path (lr_scope r) project)"

text \<open>What the message about a lock that was not acquired reports.\<close>

datatype lock_failure = Held_By LockRequest LockInfo | Incomplete LockRequest | Acquire_Failed LockRequest

record lock_round =
  ro_acquired :: "LockRequest list"
  ro_failures :: "lock_failure list"
  ro_hard_failure :: bool
  ro_files :: lock_files

text \<open>The requests of one rank run one after the other here and concurrently in the code; they touch different paths unless a
  lock is requested twice. Then one of the two fails in the code as well, on the directory that the other prepares or on the lock itself.\<close>

definition acquire_one :: "string \<Rightarrow> LockInfo \<Rightarrow> lock_round \<Rightarrow> LockRequest \<Rightarrow> lock_round" where
  "acquire_one project i s r =
     (case acquire_lock i (ro_files s (lock_key project r)) of
        (result, e) \<Rightarrow>
          let s' = s\<lparr>ro_files := (ro_files s)(lock_key project r := e)\<rparr>
          in case result of
               Some Acquired \<Rightarrow> s'\<lparr>ro_acquired := ro_acquired s' @ [r]\<rparr>
             | Some (Held (Some holder)) \<Rightarrow> s'\<lparr>ro_failures := ro_failures s' @ [Held_By r holder]\<rparr>
             | Some (Held None) \<Rightarrow> s'\<lparr>ro_failures := ro_failures s' @ [Incomplete r]\<rparr>
             | None \<Rightarrow> s'\<lparr>ro_hard_failure := True, ro_failures := ro_failures s' @ [Acquire_Failed r]\<rparr>)"

function acquire_ranks :: "string \<Rightarrow> LockInfo \<Rightarrow> LockRequest list \<Rightarrow> lock_round \<Rightarrow> lock_round" where
  "acquire_ranks project i ordered s =
     (if ordered = [] \<or> ro_failures s \<noteq> [] then s
      else let same = (\<lambda>r. rank (lr_scope r) = rank (lr_scope (hd ordered)))
           in acquire_ranks project i (dropWhile same ordered) (foldl (acquire_one project i) s (takeWhile same ordered)))"
  by pat_completeness auto
termination
  by (relation "measure (\<lambda>(_, _, ordered, _). length ordered)")
    (auto simp: neq_Nil_conv intro!: le_imp_less_Suc length_dropWhile_le)

text \<open>Warnings and errors of a release are the requests they speak of.\<close>

fun release_requests :: "string \<Rightarrow> LockInfo \<Rightarrow> LockRequest list \<Rightarrow> lock_files \<Rightarrow> LockRequest list \<times> LockRequest list \<times> lock_files" where
  "release_requests project i [] files = ([], [], files)"
| "release_requests project i (r # rs) files =
     (case release_owned_lock i (files (lock_key project r)) of
        (result, e) \<Rightarrow>
          (case release_requests project i rs (files(lock_key project r := e)) of
             (warnings, errors, files') \<Rightarrow>
               (case result of
                  Some Released \<Rightarrow> (warnings, errors, files')
                | Some AlreadyGone \<Rightarrow> (warnings, errors, files')
                | Some NoLongerOwned \<Rightarrow> (r # warnings, errors, files')
                | None \<Rightarrow> (warnings, r # errors, files'))))"

fun force_all :: "string \<Rightarrow> LockRequest list \<Rightarrow> lock_files \<Rightarrow> bool \<times> lock_files" where
  "force_all project [] files = (True, files)"
| "force_all project (r # rs) files =
     (case force_remove_lock (files (lock_key project r)) of
        (ok, e) \<Rightarrow>
          (case force_all project rs (files(lock_key project r := e)) of (oks, files') \<Rightarrow> (ok \<and> oks, files')))"

datatype acquire_error =
    Force_Failed
  | Not_All_Acquired "lock_failure list" "LockRequest list"

text \<open>One pass of the loop: the locks acquired, or the failures, the failed releases, and whether to give up at once.\<close>

definition acquire_round ::
  "string \<Rightarrow> LockInfo \<Rightarrow> LockRequest list \<Rightarrow> lock_files \<Rightarrow>
   (lock_failure list \<times> LockRequest list \<times> bool, LockRequest list) result \<times> lock_files" where
  "acquire_round project i ordered files =
     (let s = acquire_ranks project i ordered \<lparr>ro_acquired = [], ro_failures = [], ro_hard_failure = False, ro_files = files\<rparr>
      in if ro_failures s = [] then (Inr (ro_acquired s), ro_files s)
         else case release_requests project i (ro_acquired s) (ro_files s) of
                (_, rollback_errors, files') \<Rightarrow>
                  (Inl (ro_failures s, rollback_errors, ro_hard_failure s \<or> rollback_errors \<noteq> []), files'))"

text \<open>Each element of the list is what other invocations do to the files while this one sleeps; the deadline
  has passed at its end.\<close>

fun acquire ::
  "string \<Rightarrow> LockInfo \<Rightarrow> LockRequest list \<Rightarrow> bool \<Rightarrow> (lock_files \<Rightarrow> lock_files) list \<Rightarrow> lock_files \<Rightarrow>
   (acquire_error, LockRequest list) result \<times> lock_files" where
  "acquire project i locks force waits files =
     (let ordered = sort_requests locks project;
          (forced, files1) = (if force then force_all project ordered files else (True, files))
      in if \<not> forced then (Inl Force_Failed, files1)
         else case acquire_round project i ordered files1 of
                (Inr acquired, files2) \<Rightarrow> (Inr acquired, files2)
              | (Inl (failures, rollback_errors, hard), files2) \<Rightarrow>
                  (if hard then (Inl (Not_All_Acquired failures rollback_errors), files2)
                   else case waits of
                          [] \<Rightarrow> (Inl (Not_All_Acquired failures rollback_errors), files2)
                        | others # waits' \<Rightarrow> acquire project i locks force waits' (others files2)))"

text \<open>\<open>operation\<close> is what the caller does under the locks.\<close>

datatype 'e locked_error = Lock_Error acquire_error | Operation_Error 'e | Release_Error "LockRequest list" | Both_Errors 'e "LockRequest list"

definition with_locks ::
  "string \<Rightarrow> LockInfo \<Rightarrow> LockRequest list \<Rightarrow> bool \<Rightarrow> (lock_files \<Rightarrow> lock_files) list \<Rightarrow> (lock_files \<Rightarrow> ('e, unit) result \<times> lock_files) \<Rightarrow>
   lock_files \<Rightarrow> ('e locked_error, unit) result \<times> lock_files" where
  "with_locks project i locks force waits operation files =
     (case acquire project i locks force waits files of
        (Inl e, files1) \<Rightarrow> (Inl (Lock_Error e), files1)
      | (Inr owned, files1) \<Rightarrow>
          (case operation files1 of
             (operation_result, files2) \<Rightarrow>
               (case release_requests project i owned files2 of
                  (_, errors, files3) \<Rightarrow>
                    ((case operation_result of
                        Inr _ \<Rightarrow> (if errors = [] then Inr () else Inl (Release_Error errors))
                      | Inl e \<Rightarrow> (if errors = [] then Inl (Operation_Error e) else Inl (Both_Errors e errors))), files3))))"

declare acquire_ranks.simps [simp del] acquire.simps [simp del]

section \<open>Invocations side by side\<close>

record lock_world =
  lw_entry :: lock_entry
  lw_pc :: "nat \<Rightarrow> lock_pc"

text \<open>A recovery or a forced removal that meets a complete lock takes it from its owner.\<close>

definition steals :: "lock_pc \<Rightarrow> lock_entry \<Rightarrow> bool" where
  "steals p e = ((p = Recover_Info \<or> p = Force_Info) \<and> read_lock e \<noteq> None)"

fun may_try_again :: "lock_pc \<Rightarrow> bool" where
  "may_try_again (Not_Acquired _) = True"
| "may_try_again (Release_Done _) = True"
| "may_try_again _ = False"

definition client_run :: "(nat \<Rightarrow> LockInfo) \<Rightarrow> nat \<Rightarrow> lock_world \<Rightarrow> lock_world" where
  "client_run infos k w =
     (case client_step (infos k) (lw_pc w k) (lw_entry w) of
        (p, e) \<Rightarrow> w\<lparr>lw_entry := e, lw_pc := (lw_pc w)(k := p)\<rparr>)"

text \<open>One step of the system; the flag says that it takes away a complete lock other than by its release. An invocation runs a
  command; begins another attempt; removes the lock by force before an attempt; deletes the storage of the lock while
  it is inside its protected operation; or fails.\<close>

inductive lock_step :: "(nat \<Rightarrow> LockInfo) \<Rightarrow> bool \<Rightarrow> lock_world \<Rightarrow> lock_world \<Rightarrow> bool" for infos where
  run: "lock_step infos (steals (lw_pc w k) (lw_entry w)) w (client_run infos k w)"
| again: "may_try_again (lw_pc w k) \<Longrightarrow> lock_step infos False w (w\<lparr>lw_pc := (lw_pc w)(k := Try)\<rparr>)"
| force: "lw_pc w k = Try \<Longrightarrow> lock_step infos False w (w\<lparr>lw_pc := (lw_pc w)(k := Force_Test)\<rparr>)"
| tear_down: "lw_pc w k = Owner \<Longrightarrow> lock_step infos (read_lock (lw_entry w) \<noteq> None) w (w\<lparr>lw_entry := Absent\<rparr>)"
| stop: "lock_step infos False w (w\<lparr>lw_pc := (lw_pc w)(k := Stopped)\<rparr>)"

definition lock_start :: "lock_entry \<Rightarrow> lock_world" where
  "lock_start e = \<lparr>lw_entry = e, lw_pc = (\<lambda>_. Try)\<rparr>"

fun run_schedule :: "(nat \<Rightarrow> LockInfo) \<Rightarrow> nat list \<Rightarrow> lock_world \<Rightarrow> lock_world" where
  "run_schedule infos [] w = w"
| "run_schedule infos (k # ks) w = run_schedule infos ks (client_run infos k w)"

section \<open>One lock\<close>

text \<open>An incomplete lock is recovered; only a complete one is in the way.\<close>

lemma acquire_lock_spec:
  "acquire_lock i e = (case read_lock e of None \<Rightarrow> (Some Acquired, Lock_Dir (Some i)) | Some h \<Rightarrow> (Some (Held (Some h)), e))"
  by (cases e) (auto simp: acquire_lock_def recover_incomplete_lock_def split: option.splits)


text \<open>The scripts are what a single invocation does when nobody interferes.\<close>

fun client_iterate :: "nat \<Rightarrow> LockInfo \<Rightarrow> lock_pc \<times> lock_entry \<Rightarrow> lock_pc \<times> lock_entry" where
  "client_iterate 0 i s = s"
| "client_iterate (Suc n) i s = client_iterate n i (client_step i (fst s) (snd s))"

lemma acquire_lock_alone:
  "acquire_lock i e = (result, e') \<Longrightarrow>
   \<exists>n \<le> 6. client_iterate n i (Try, e) =
     ((case result of Some Acquired \<Rightarrow> Owner | Some (Held h) \<Rightarrow> Not_Acquired h | None \<Rightarrow> Stopped), e')"
proof (cases "read_lock e")
  case None
  assume "acquire_lock i e = (result, e')"
  then have r: "result = Some Acquired" "e' = Lock_Dir (Some i)" by (auto simp: acquire_lock_spec None)
  show ?thesis
  proof (cases e)
    case Plain_File
    then show ?thesis unfolding r by (intro exI [of _ 6]) (simp add: eval_nat_numeral)
  next
    case (Lock_Dir c)
    with None show ?thesis unfolding r by (intro exI [of _ 6]) (simp add: eval_nat_numeral)
  qed (use r in \<open>auto intro!: exI [of _ 1]\<close>)
next
  case (Some h)
  assume "acquire_lock i e = (result, e')"
  with Some have "result = Some (Held (Some h))" "e' = e" "e = Lock_Dir (Some h)"
    by (auto simp: acquire_lock_spec elim: read_lock.elims)
  then show ?thesis by (intro exI [of _ 2]) (simp add: eval_nat_numeral)
qed

lemma release_owned_alone:
  "release_owned_lock i e = (result, e') \<Longrightarrow>
   \<exists>n \<le> 4. client_iterate n i (Release_Test, e) = ((case result of Some r \<Rightarrow> Release_Done r | None \<Rightarrow> Stopped), e')"
proof (cases e)
  case (Lock_Dir c)
  assume "release_owned_lock i e = (result, e')"
  with Lock_Dir show ?thesis
  proof (cases "Option.bind c li_lock_id = li_lock_id i")
    case True
    with \<open>release_owned_lock i e = _\<close> Lock_Dir show ?thesis
      by (intro exI [of _ 4]) (auto simp: release_owned_lock_def eval_nat_numeral)
  next
    case False
    with \<open>release_owned_lock i e = _\<close> Lock_Dir show ?thesis
      by (intro exI [of _ 2]) (auto simp: release_owned_lock_def eval_nat_numeral)
  qed
qed (auto simp: release_owned_lock_def eval_nat_numeral intro!: exI [of _ 1] exI [of _ 2])

lemma force_remove_alone:
  "force_remove_lock e = (ok, e') \<Longrightarrow> \<exists>n \<le> 3. client_iterate n i (Force_Test, e) = (if ok then Try else Stopped, e')"
proof (cases e)
  case (Lock_Dir c)
  assume "force_remove_lock e = (ok, e')"
  with Lock_Dir show ?thesis by (intro exI [of _ 3]) (auto simp: force_remove_lock_def eval_nat_numeral)
next
  case Empty_Dir
  assume "force_remove_lock e = (ok, e')"
  with Empty_Dir show ?thesis by (intro exI [of _ 3]) (auto simp: force_remove_lock_def eval_nat_numeral)
qed (auto simp: force_remove_lock_def eval_nat_numeral intro!: exI [of _ 2])

section \<open>Mutual exclusion\<close>

text \<open>From taking the lock until its metadata is removed the lock names its owner.\<close>

fun owning :: "lock_pc \<Rightarrow> bool" where
  "owning Owner = True"
| "owning Release_Test = True"
| "owning Release_Check = True"
| "owning Release_Info = True"
| "owning _ = False"

definition lock_inv :: "(nat \<Rightarrow> LockInfo) \<Rightarrow> lock_world \<Rightarrow> bool" where
  "lock_inv infos w \<longleftrightarrow> (\<forall>k. owning (lw_pc w k) \<longrightarrow> lw_entry w = Lock_Dir (Some (infos k)))"

lemma lock_invD: "lock_inv infos w \<Longrightarrow> owning (lw_pc w k) \<Longrightarrow> lw_entry w = Lock_Dir (Some (infos k))"
  by (simp add: lock_inv_def)

lemma client_step_owning:
  assumes st: "client_step i p e = (p', e')" and safe: "\<not> steals p e" and own: "owning p \<Longrightarrow> e = Lock_Dir (Some i)"
  shows "owning p' \<Longrightarrow> e' = Lock_Dir (Some i)"
    and "e = Lock_Dir (Some h) \<Longrightarrow> e' = e \<or> owning p \<and> \<not> owning p'"
proof -
  have "(owning p' \<longrightarrow> e' = Lock_Dir (Some i)) \<and> (e = Lock_Dir (Some h) \<longrightarrow> e' = e \<or> owning p \<and> \<not> owning p')"
    using st safe own by (cases p; cases e) (auto simp: steals_def split: option.splits if_splits)
  then show "owning p' \<Longrightarrow> e' = Lock_Dir (Some i)" "e = Lock_Dir (Some h) \<Longrightarrow> e' = e \<or> owning p \<and> \<not> owning p'" by auto
qed

lemma lock_inv_step:
  assumes inj: "inj infos" and st: "lock_step infos False w w'" and inv: "lock_inv infos w"
  shows "lock_inv infos w'"
  using st
proof (cases rule: lock_step.cases)
  case (run k)
  obtain p e where pe: "client_step (infos k) (lw_pc w k) (lw_entry w) = (p, e)" by (cases "client_step (infos k) (lw_pc w k) (lw_entry w)")
  have safe: "\<not> steals (lw_pc w k) (lw_entry w)" using run by simp
  have own: "owning p \<Longrightarrow> e = Lock_Dir (Some (infos k))"
    "lw_entry w = Lock_Dir (Some h) \<Longrightarrow> e = lw_entry w \<or> owning (lw_pc w k) \<and> \<not> owning p" for h
    using client_step_owning [OF pe safe] lock_invD [OF inv, of k] by blast+
  have w': "lw_entry w' = e" "lw_pc w' = (lw_pc w)(k := p)" using run pe by (simp_all add: client_run_def)
  show ?thesis
    unfolding lock_inv_def
  proof (intro allI impI)
    fix j assume j: "owning (lw_pc w' j)"
    show "lw_entry w' = Lock_Dir (Some (infos j))"
    proof (cases "j = k")
      case True
      with j own(1) show ?thesis by (simp add: w')
    next
      case False
      with j have "owning (lw_pc w j)" by (simp add: w')
      then have ej: "lw_entry w = Lock_Dir (Some (infos j))" by (rule lock_invD [OF inv])
      have "\<not> owning (lw_pc w k)"
      proof
        assume "owning (lw_pc w k)"
        then have "infos j = infos k" using lock_invD [OF inv] ej by fastforce
        with inj False show False by (simp add: inj_eq)
      qed
      with own(2) [OF ej] ej show ?thesis by (auto simp: w')
    qed
  qed
next
  case (tear_down k)
  then have "lw_entry w = Lock_Dir (Some (infos k))" using lock_invD [OF inv, of k] by simp
  with tear_down show ?thesis by simp
qed (use inv in \<open>auto simp: lock_inv_def split: if_splits\<close>)

lemma lock_inv_reachable:
  assumes "(lock_step infos False)\<^sup>*\<^sup>* (lock_start e) w" "inj infos"
  shows "lock_inv infos w"
  using assms
proof (induction rule: rtranclp_induct)
  case base
  show ?case by (simp add: lock_inv_def lock_start_def)
next
  case (step v w)
  from lock_inv_step [OF step.prems step.hyps(2) step.IH [OF step.prems]] show ?case .
qed

lemma run_schedule_reachable: "(\<lambda>a b. \<exists>s. lock_step infos s a b)\<^sup>*\<^sup>* w (run_schedule infos ks w)"
proof (induction ks arbitrary: w)
  case (Cons k ks)
  have "\<exists>s. lock_step infos s w (client_run infos k w)" using lock_step.run by blast
  with Cons show ?case by (simp add: converse_rtranclp_into_rtranclp)
qed simp

section \<open>All or nothing\<close>










section \<open>Properties\<close>

text \<open>C11. Deployment locks exclude each other. Invocations run the commands of the scripts in any interleaving, fail at any point, try
  again, remove the lock by force, or delete its storage inside their protected operation. As long as no step takes away
  a complete lock that it does not release (no recovery and no forced removal meets a complete lock, and no protected
  operation deletes its own), at most one invocation is inside its protected operation, and the lock then names that invocation.
  Each of the three steps can break this: C40 for recovery, and the lemmas \<open>forced_removal_ends_exclusion\<close> and
  \<open>teardown_ends_exclusion\<close> below.\<close>

theorem lock_mutual_exclusion:
  assumes "inj infos" "(lock_step infos False)\<^sup>*\<^sup>* (lock_start e) w" "lw_pc w j = Owner"
  shows "lw_entry w = Lock_Dir (Some (infos j)) \<and> (\<forall>k. lw_pc w k = Owner \<longrightarrow> k = j)"
proof -
  have inv: "lock_inv infos w" by (rule lock_inv_reachable [OF assms(2,1)])
  have own: "lw_entry w = Lock_Dir (Some (infos k))" if "lw_pc w k = Owner" for k
    using lock_invD [OF inv, of k] that by simp
  have "k = j" if "lw_pc w k = Owner" for k
    using own [OF that] own [OF assms(3)] assms(1) by (simp add: inj_eq)
  with own [OF assms(3)] show ?thesis by blast
qed

definition demo_info :: "nat \<Rightarrow> LockInfo" where
  "demo_info k = \<lparr>li_message = ''deploy'', li_acquired_at = 5, li_acquired_by = ''op'', li_pid = 1, li_lock_id = Some (show_nat k)\<rparr>"

lemma demo_info_inj: "inj demo_info"
  by (rule injI) (auto simp: demo_info_def dest: show_nat_inj)

theorem lock_mutual_exclusion_witness:
  "lw_pc (client_run demo_info 1 (client_run demo_info 0 (lock_start Empty_Dir))) 0 = Owner \<and>
   lw_pc (client_run demo_info 1 (client_run demo_info 0 (lock_start Empty_Dir))) 1 \<noteq> Owner"
proof -
  let ?w1 = "client_run demo_info 0 (lock_start Empty_Dir)" and ?w2 = "client_run demo_info 1 (client_run demo_info 0 (lock_start Empty_Dir))"
  have a: "lock_step demo_info False (lock_start Empty_Dir) ?w1"
    using lock_step.run [of demo_info "lock_start Empty_Dir" 0] by (simp add: steals_def lock_start_def)
  have b: "lock_step demo_info False ?w1 ?w2"
    using lock_step.run [of demo_info ?w1 1] by (simp add: steals_def lock_start_def client_run_def)
  have own: "lw_pc ?w2 0 = Owner" by (simp add: client_run_def lock_start_def)
  have "(lock_step demo_info False)\<^sup>*\<^sup>* (lock_start Empty_Dir) ?w2"
    using a b by (meson r_into_rtranclp rtranclp.rtrancl_into_rtrancl)
  from lock_mutual_exclusion [OF demo_info_inj this own] own show ?thesis by force
qed

text \<open>A forced removal, and a protected operation that deletes its own lock, let a second invocation in.\<close>

lemma forced_removal_ends_exclusion:
  "\<exists>w. (\<lambda>a b. \<exists>s. lock_step infos s a b)\<^sup>*\<^sup>* (lock_start Absent) w \<and> lw_pc w 0 = Owner \<and> lw_pc w 1 = Force_Test \<and>
     lw_pc (run_schedule infos [1, 1, 1, 1] w) 0 = Owner \<and> lw_pc (run_schedule infos [1, 1, 1, 1] w) 1 = Owner"
proof -
  let ?v = "run_schedule infos [0] (lock_start Absent)"
  let ?w = "?v\<lparr>lw_pc := (lw_pc ?v)(1 := Force_Test)\<rparr>"
  have "lock_step infos False ?v ?w" by (rule lock_step.force) (simp add: client_run_def lock_start_def)
  then have "(\<lambda>a b. \<exists>s. lock_step infos s a b)\<^sup>*\<^sup>* (lock_start Absent) ?w"
    by (intro rtranclp.rtrancl_into_rtrancl [OF run_schedule_reachable [of infos "lock_start Absent" "[0]"]]) blast
  then show ?thesis by (intro exI [of _ ?w]) (simp add: client_run_def lock_start_def)
qed

lemma teardown_ends_exclusion:
  "\<exists>w. (\<lambda>a b. \<exists>s. lock_step infos s a b)\<^sup>*\<^sup>* (lock_start Absent) w \<and> lw_pc w 0 = Owner \<and> lw_entry w = Absent \<and>
     lw_pc (run_schedule infos [1] w) 0 = Owner \<and> lw_pc (run_schedule infos [1] w) 1 = Owner"
proof -
  let ?v = "run_schedule infos [0] (lock_start Absent)"
  let ?w = "?v\<lparr>lw_entry := Absent\<rparr>"
  have "lock_step infos (read_lock (lw_entry ?v) \<noteq> None) ?v ?w"
    by (rule lock_step.tear_down [of _ 0]) (simp add: client_run_def lock_start_def)
  then have "(\<lambda>a b. \<exists>s. lock_step infos s a b)\<^sup>*\<^sup>* (lock_start Absent) ?w"
    by (intro rtranclp.rtrancl_into_rtrancl [OF run_schedule_reachable [of infos "lock_start Absent" "[0]"]]) blast
  then show ?thesis by (intro exI [of _ ?w]) (simp add: client_run_def lock_start_def)
qed





end
