(* ===== verification/Health_Check.thy ===== *)
theory Health_Check
  imports Schema
begin

text \<open>
  The health gate of a deployment, \<^verbatim>\<open>crates/jiji-cli/src/health_check.rs\<close>: durations, the command that
  probes a candidate, and the polling loop.  The results of the probes, with the seconds that have
  passed after each, are an argument; \<open>None\<close> is the loop still running when they are used up.

  The results: the gate opens exactly at the first successful probe and gives up at the first failed
  probe after the time limit, so it always ends once that much time has passed; it reports each
  change of the failure and nothing twice in a row.
\<close>

section \<open>Durations\<close>

text \<open>
  \<^verbatim>\<open>split_at\<close> panics inside a multi-byte character: the outer \<open>None\<close>.  The product wraps around.
\<close>

definition parse_duration :: "string \<Rightarrow> u64 option option" where
  "parse_duration s =
     (let value = trim s in
      if length value < 2 then Some None
      else if is_utf8_continuation (last value) then None
      else
        case parse_uint (2 ^ 64 - 1) (butlast value) of
          Inl _ \<Rightarrow> Some None
        | Inr amount \<Rightarrow>
            Some (if last value = CHR ''s'' then Some (of_nat amount)
                  else if last value = CHR ''m'' then Some (of_nat amount * 60)
                  else None))"

text \<open>
  A value that ends in a multi-byte character, here the micro sign, makes the parser panic, and a
  large number of minutes wraps around to a short time.
\<close>

lemma parse_duration_edges:
  "parse_duration [CHR ''5'', CHR 0xC2, CHR 0xB5] = None"
  "parse_duration ''307445734561825861m'' = Some (Some 44)"
proof -
  have "trim [CHR ''5'', CHR 0xC2, CHR 0xB5] = [CHR ''5'', CHR 0xC2, CHR 0xB5]" by code_simp
  then show "parse_duration [CHR ''5'', CHR 0xC2, CHR 0xB5] = None"
    by (simp add: parse_duration_def is_utf8_continuation_def)
  show "parse_duration ''307445734561825861m'' = Some (Some 44)"
    by (simp add: parse_duration_def is_plain_def is_whitespace_def is_utf8_continuation_def parse_uint_def
        is_ascii_digit_def digit_val_def)
qed

text \<open>A configured duration, or the default where it is absent or has another shape.\<close>

definition duration_or :: "u64 \<Rightarrow> string option \<Rightarrow> u64 option" where
  "duration_or d value =
     (case value of
        None \<Rightarrow> Some d
      | Some s \<Rightarrow> map_option (\<lambda>p. case p of None \<Rightarrow> d | Some t \<Rightarrow> t) (parse_duration s))"

definition DEFAULT_INTERVAL :: u64 where
  "DEFAULT_INTERVAL = 2"

definition DEFAULT_DEPLOY_TIMEOUT :: u64 where
  "DEFAULT_DEPLOY_TIMEOUT = 30"

definition DEFAULT_HTTP_TIMEOUT :: u64 where
  "DEFAULT_HTTP_TIMEOUT = 5"

section \<open>The probe\<close>

definition exec_prefix :: "ContainerEngine \<Rightarrow> string" where
  "exec_prefix engine = (case engine of Docker \<Rightarrow> ''docker exec'' | Podman \<Rightarrow> ''podman exec --no-session'')"

record HealthCheckPlan =
  hp_command :: string
  hp_interval :: u64
  hp_deploy_timeout :: u64

definition container_readiness_command :: "ContainerEngine \<Rightarrow> string \<Rightarrow> string" where
  "container_readiness_command engine container_name =
     show_ContainerEngine engine @ '' inspect '' @ container_name @ '' --format '' @ [CHR 0x27] @ ''{{.State.Status}}'' @ [CHR 0x27] @
     '' | grep -qx running''"

definition probe_command ::
  "ContainerEngine \<Rightarrow> string \<Rightarrow> Ipv4Addr \<Rightarrow> nat \<Rightarrow> HealthcheckConfig \<Rightarrow> string option" where
  "probe_command engine container_name backend_address port check =
     (case hc_cmd check of
        Some cmd \<Rightarrow>
          Some (exec_prefix (case hc_cmd_runtime check of None \<Rightarrow> engine | Some e \<Rightarrow> e) @ '' '' @ container_name @ '' '' @ cmd)
      | None \<Rightarrow>
          (case hc_path check of
             None \<Rightarrow> Some (container_readiness_command engine container_name)
           | Some path \<Rightarrow>
               map_option (\<lambda>timeout. ''curl -fsS --max-time '' @ show_nat (max (unat timeout) 1) @ '' http://'' @
                   show_ipv4 backend_address @ '':'' @ show_nat port @ path)
                 (duration_or DEFAULT_HTTP_TIMEOUT (hc_timeout check))))"

definition plan_for_candidate ::
  "ContainerEngine \<Rightarrow> string \<Rightarrow> Ipv4Addr \<Rightarrow> nat \<Rightarrow> HealthcheckConfig option \<Rightarrow> HealthCheckPlan option" where
  "plan_for_candidate engine container_name backend_address port healthcheck =
     (case healthcheck of
        None \<Rightarrow>
          Some \<lparr>hp_command = container_readiness_command engine container_name, hp_interval = DEFAULT_INTERVAL,
                hp_deploy_timeout = DEFAULT_DEPLOY_TIMEOUT\<rparr>
      | Some check \<Rightarrow>
          Option.bind (duration_or DEFAULT_INTERVAL (hc_interval check)) (\<lambda>interval.
          Option.bind (duration_or DEFAULT_DEPLOY_TIMEOUT (hc_deploy_timeout check)) (\<lambda>deploy_timeout.
          map_option (\<lambda>command. \<lparr>hp_command = command, hp_interval = interval, hp_deploy_timeout = deploy_timeout\<rparr>)
            (probe_command engine container_name backend_address port check))))"

section \<open>Polling\<close>

record CommandResult =
  cmd_stdout :: string
  cmd_stderr :: string
  cmd_success :: bool
  cmd_code :: "nat option"

text \<open>\<^verbatim>\<open>str::lines\<close>, trimmed and without the blank ones; a trailing carriage return is trimmed too.\<close>

definition text_lines :: "string \<Rightarrow> string list" where
  "text_lines s = filter (\<lambda>l. l \<noteq> []) (map trim (split_on (CHR 0x0A) s))"

definition summarize_stream :: "string \<Rightarrow> string option" where
  "summarize_stream s =
     (case text_lines s of
        [] \<Rightarrow> None
      | first # rest \<Rightarrow>
          Some (if rest \<noteq> [] \<and> last rest \<noteq> first then first @ '' (... '' @ last rest @ '')'' else first))"

definition summarize_attempt :: "CommandResult \<Rightarrow> string" where
  "summarize_attempt r =
     (case summarize_stream (cmd_stderr r) of
        Some summary \<Rightarrow> summary
      | None \<Rightarrow>
          (case summarize_stream (cmd_stdout r) of
             Some summary \<Rightarrow> summary
           | None \<Rightarrow>
               (case cmd_code r of
                  Some code \<Rightarrow> ''exited with status '' @ show_nat code
                | None \<Rightarrow> ''no exit status (killed by signal)'')))"

text \<open>The error of an attempt, if it failed: the session may fail as well as the command.\<close>

definition attempt_error :: "(string, CommandResult) result \<Rightarrow> string option" where
  "attempt_error r =
     (case r of
        Inr res \<Rightarrow> (if cmd_success res then None else Some (summarize_attempt res))
      | Inl e \<Rightarrow> Some e)"

text \<open>
  The loop returns what it reported and its verdict, \<open>None\<close> for healthy or the last error.
\<close>

fun wait_loop ::
  "u64 \<Rightarrow> string option \<Rightarrow> ((string, CommandResult) result \<times> u64) list \<Rightarrow> (string list \<times> string option) option" where
  "wait_loop deploy_timeout last_reported [] = None"
| "wait_loop deploy_timeout last_reported ((attempt, elapsed) # attempts) =
     (case attempt_error attempt of
        None \<Rightarrow> Some ([], None)
      | Some e \<Rightarrow>
          (let reported = (if last_reported = Some e then [] else [e]) in
           if deploy_timeout \<le> elapsed then Some (reported, Some e)
           else map_option (\<lambda>(rs, verdict). (reported @ rs, verdict)) (wait_loop deploy_timeout (Some e) attempts)))"

definition wait_until_healthy ::
  "HealthCheckPlan \<Rightarrow> ((string, CommandResult) result \<times> u64) list \<Rightarrow> (string list \<times> string option) option" where
  "wait_until_healthy hp attempts = wait_loop (hp_deploy_timeout hp) None attempts"

section \<open>Properties\<close>

text \<open>An attempt that ends the loop: a success, or a failure after the time limit.\<close>

definition decisive :: "u64 \<Rightarrow> (string, CommandResult) result \<times> u64 \<Rightarrow> bool" where
  "decisive deploy_timeout a \<longleftrightarrow> attempt_error (fst a) = None \<or> deploy_timeout \<le> snd a"

definition failures :: "((string, CommandResult) result \<times> u64) list \<Rightarrow> string list" where
  "failures attempts = List.map_filter (\<lambda>a. attempt_error (fst a)) attempts"

lemma wait_loop_spec:
  assumes "\<forall>a \<in> set waiting. \<not> decisive t a" "decisive t a"
  shows "wait_loop t r (waiting @ a # rest) =
    Some (case r of None \<Rightarrow> remdups_adj (failures (waiting @ [a]))
                  | Some e \<Rightarrow> tl (remdups_adj (e # failures (waiting @ [a]))),
          attempt_error (fst a))"
  using assms
proof (induction waiting arbitrary: r)
  case Nil
  then show ?case by (cases a; cases r) (auto simp: decisive_def failures_def map_filter_simps split: option.splits)
next
  case (Cons b waiting)
  obtain attempt elapsed where b: "b = (attempt, elapsed)" by (cases b)
  then obtain e where e: "attempt_error attempt = Some e" and early: "\<not> t \<le> elapsed"
    using Cons.prems(1) by (auto simp: decisive_def)
  have "wait_loop t (Some e) (waiting @ a # rest) =
      Some (tl (remdups_adj (e # failures (waiting @ [a]))), attempt_error (fst a))"
    using Cons.IH [of "Some e"] Cons.prems by simp
  moreover have "remdups_adj (e # xs) = e # tl (remdups_adj (e # xs))" for xs :: "string list"
    by (cases xs) auto
  ultimately show ?case
    using e early by (cases r) (auto simp: b failures_def map_filter_simps)
qed

text \<open>
  The health gate always ends once the time limit has passed: at the first attempt that succeeds
  or that fails after the limit.  Its verdict is that of this attempt, and the lines it reports are
  the failures up to then without immediate repetitions.
\<close>

theorem health_gate_decides:
  assumes "\<exists>a \<in> set attempts. decisive (hp_deploy_timeout hp) a"
  shows "\<exists>waiting a rest. attempts = waiting @ a # rest \<and> (\<forall>b \<in> set waiting. \<not> decisive (hp_deploy_timeout hp) b) \<and>
    decisive (hp_deploy_timeout hp) a \<and>
    wait_until_healthy hp attempts = Some (remdups_adj (failures (waiting @ [a])), attempt_error (fst a))"
proof -
  obtain waiting a rest where at: "attempts = waiting @ a # rest" "decisive (hp_deploy_timeout hp) a"
    "\<forall>b \<in> set waiting. \<not> decisive (hp_deploy_timeout hp) b"
    using split_list_first_prop [OF assms] by blast
  then have "wait_until_healthy hp attempts = Some (remdups_adj (failures (waiting @ [a])), attempt_error (fst a))"
    unfolding wait_until_healthy_def at(1) by (subst wait_loop_spec) simp_all
  then show ?thesis using at by blast
qed

definition probe_result :: "string \<Rightarrow> bool \<Rightarrow> (string, CommandResult) result" where
  "probe_result err ok = Inr \<lparr>cmd_stdout = [], cmd_stderr = err, cmd_success = ok, cmd_code = Some (if ok then 0 else 1)\<rparr>"

theorem health_gate_decides_witness:
  "wait_until_healthy \<lparr>hp_command = ''true'', hp_interval = 2, hp_deploy_timeout = 5\<rparr>
     [(probe_result ''refused'' False, 0), (probe_result ''refused'' False, 2), (probe_result [] True, 4)] = Some ([''refused''], None)"
proof -
  let ?hp = "\<lparr>hp_command = ''true'', hp_interval = 2, hp_deploy_timeout = 5 :: u64\<rparr>"
  let ?as = "[(probe_result ''refused'' False, 0), (probe_result ''refused'' False, 2), (probe_result [] True, 4)]"
  have "\<exists>a \<in> set ?as. decisive (hp_deploy_timeout ?hp) a" by (simp add: decisive_def probe_result_def attempt_error_def)
  from health_gate_decides [OF this] have "\<exists>x. wait_until_healthy ?hp ?as = Some x" by blast
  moreover have "wait_until_healthy ?hp ?as = Some ([''refused''], None)" by code_simp
  ultimately show ?thesis by simp
qed

end
