(* ===== verification/Proxy_Routes.thy ===== *)
theory Proxy_Routes
  imports Runtime Env_Resolution Health_Check
begin

text \<open>
  The routes of a service at the proxy, \<^verbatim>\<open>crates/jiji-cli/src/proxy_routes.rs\<close>: the HTTP and TCP routes a
  configuration asks for, the TLS material they need, and the commands sent to the proxy.  Sending
  them over SSH and parsing the proxy's JSON answers are not modelled.

  The results: the routes of a service are exactly those of its configured hosts and TCP ports, they
  are built unless a port does not fit 16 bits, and the agent is given the same routes; resolved
  routes carry PEM data only, and the variables that supply it are demanded as secrets and kept from
  the container.
\<close>

section \<open>HTTP routes\<close>

record RouteTarget =
  rt_host :: string
  rt_path_prefix :: "string option"
  rt_dns_server :: SocketAddr
  rt_name :: string
  rt_port :: u16
  rt_ssl :: "SslValue option"
  rt_healthcheck :: "HealthcheckConfig option"

definition rt_tls :: "RouteTarget \<Rightarrow> bool" where
  "rt_tls t =
     (case rt_ssl t of
        Some (SslEnabled b) \<Rightarrow> b
      | Some (SslCerts _ _) \<Rightarrow> True
      | None \<Rightarrow> False)"

definition is_pem :: "string \<Rightarrow> bool" where
  "is_pem value = starts_with (trim_start value) ''-----BEGIN ''"

text \<open>The SSL settings of a proxy, in the order in which they are inspected.\<close>

definition proxy_ssls :: "ProxyConfig option \<Rightarrow> SslValue option list" where
  "proxy_ssls proxy =
     (case proxy of
        None \<Rightarrow> []
      | Some p \<Rightarrow> px_ssl p # (case px_targets p of None \<Rightarrow> [] | Some ts \<Rightarrow> map pt_ssl ts))"

definition add_secret_ref :: "string \<Rightarrow> Environment \<Rightarrow> Environment" where
  "add_secret_ref value env =
     (if \<not> is_pem value \<and> value \<notin> set (env_secrets env) then env\<lparr>env_secrets := env_secrets env @ [value]\<rparr> else env)"

definition add_ssl_refs :: "Environment \<Rightarrow> SslValue option \<Rightarrow> Environment" where
  "add_ssl_refs env ssl =
     (case ssl of
        Some (SslCerts cert key) \<Rightarrow> add_secret_ref key (add_secret_ref cert env)
      | _ \<Rightarrow> env)"

definition add_tls_secret_refs :: "ProxyConfig option \<Rightarrow> Environment \<Rightarrow> Environment" where
  "add_tls_secret_refs proxy env = foldl add_ssl_refs env (proxy_ssls proxy)"

definition mark_secret :: "string \<Rightarrow> ResolvedEnvironment \<Rightarrow> ResolvedEnvironment" where
  "mark_secret value r =
     (if is_pem value then r else r\<lparr>re_control_keys := insort_insert value (re_control_keys r)\<rparr>)"

definition mark_ssl :: "ResolvedEnvironment \<Rightarrow> SslValue option \<Rightarrow> ResolvedEnvironment" where
  "mark_ssl r ssl =
     (case ssl of
        Some (SslCerts cert key) \<Rightarrow> mark_secret key (mark_secret cert r)
      | _ \<Rightarrow> r)"

definition mark_tls_control_secrets :: "ProxyConfig option \<Rightarrow> ResolvedEnvironment \<Rightarrow> ResolvedEnvironment" where
  "mark_tls_control_secrets proxy r = foldl mark_ssl r (proxy_ssls proxy)"

definition resolve_tls_value :: "ResolvedEnvironment \<Rightarrow> string \<Rightarrow> string \<Rightarrow> string \<Rightarrow> (string, string) result" where
  "resolve_tls_value env host kind value =
     (let resolved =
        (if is_pem value then Inr value
         else case map_of (re_values env) value of
                Some v \<Rightarrow> Inr v
              | None \<Rightarrow> Inl (''TLS '' @ kind @ '' variable '' @ [CHR 0x27] @ value @ [CHR 0x27] @ '' for host '' @ [CHR 0x27] @ host @
                          [CHR 0x27] @ '' was not resolved''))
      in case resolved of
           Inl e \<Rightarrow> Inl e
         | Inr v \<Rightarrow>
             (if is_pem v then Inr v
              else Inl (''TLS '' @ kind @ '' for host '' @ [CHR 0x27] @ host @ [CHR 0x27] @ '' is not PEM data'')))"

definition resolve_target :: "ResolvedEnvironment \<Rightarrow> RouteTarget \<Rightarrow> (string, RouteTarget) result" where
  "resolve_target env t =
     (case rt_ssl t of
        Some (SslCerts cert key) \<Rightarrow>
          (case resolve_tls_value env (rt_host t) ''certificate'' cert of
             Inl e \<Rightarrow> Inl e
           | Inr cert' \<Rightarrow>
               (case resolve_tls_value env (rt_host t) ''private key'' key of
                  Inl e \<Rightarrow> Inl e
                | Inr key' \<Rightarrow> Inr (t\<lparr>rt_ssl := Some (SslCerts cert' key')\<rparr>)))
      | _ \<Rightarrow> Inr t)"

text \<open>Results collected in order, up to the first error.\<close>

fun collect_results :: "('a \<Rightarrow> ('e, 'b) result) \<Rightarrow> 'a list \<Rightarrow> ('e, 'b list) result" where
  "collect_results f [] = Inr []"
| "collect_results f (x # xs) =
     (case f x of
        Inl e \<Rightarrow> Inl e
      | Inr y \<Rightarrow> map_sum id (\<lambda>ys. y # ys) (collect_results f xs))"

definition resolve_tls_secrets :: "RouteTarget list \<Rightarrow> ResolvedEnvironment \<Rightarrow> (string, RouteTarget list) result" where
  "resolve_tls_secrets targets env = collect_results (resolve_target env) targets"

definition port_u16 :: "string \<Rightarrow> nat \<Rightarrow> (string, u16) result" where
  "port_u16 what port =
     (if port < 2 ^ 16 then Inr (of_nat port)
      else Inl (what @ '' '' @ show_nat port @ '' is out of range (must fit in 16 bits)''))"

definition quoted_service :: "string \<Rightarrow> string" where
  "quoted_service service_name = ''service '' @ [CHR 0x27] @ service_name @ [CHR 0x27]"

definition route_name :: "string \<Rightarrow> string \<Rightarrow> string" where
  "route_name project service_name = project @ ''-'' @ service_name @ ''.jiji''"

definition target_routes ::
  "string \<Rightarrow> string \<Rightarrow> SocketAddr \<Rightarrow> ProxyTarget \<Rightarrow> (string, RouteTarget list) result" where
  "target_routes project service_name dns_server target =
     (if pt_listen_port target \<noteq> None then Inr []
      else
        case port_u16 (quoted_service service_name @ '' proxy target port'') (pt_port target) of
          Inl e \<Rightarrow> Inl e
        | Inr port \<Rightarrow>
            Inr (map (\<lambda>host. \<lparr>rt_host = host, rt_path_prefix = pt_path_prefix target, rt_dns_server = dns_server,
                              rt_name = route_name project service_name, rt_port = port, rt_ssl = pt_ssl target,
                              rt_healthcheck = pt_healthcheck target\<rparr>)
                   (case pt_hosts target of None \<Rightarrow> [] | Some hs \<Rightarrow> hs)))"

definition targets_for_service ::
  "string \<Rightarrow> string \<Rightarrow> ProxyConfig option \<Rightarrow> SocketAddr \<Rightarrow> (string, RouteTarget list) result" where
  "targets_for_service project service_name proxy dns_server =
     (case proxy of
        None \<Rightarrow> Inr []
      | Some p \<Rightarrow>
          (case px_targets p of
             Some targets \<Rightarrow> map_sum id concat (collect_results (target_routes project service_name dns_server) targets)
           | None \<Rightarrow>
               (if px_listen_port p \<noteq> None then Inr []
                else
                  case px_port p of
                    None \<Rightarrow> Inr []
                  | Some port \<Rightarrow>
                      (case port_u16 (quoted_service service_name @ '' proxy port'') port of
                         Inl e \<Rightarrow> Inl e
                       | Inr port' \<Rightarrow>
                           Inr (map (\<lambda>host. \<lparr>rt_host = host, rt_path_prefix = px_path_prefix p, rt_dns_server = dns_server,
                                             rt_name = route_name project service_name, rt_port = port', rt_ssl = px_ssl p,
                                             rt_healthcheck = px_healthcheck p\<rparr>)
                                  (case px_hosts p of None \<Rightarrow> [] | Some hs \<Rightarrow> hs))))))"

section \<open>TCP routes\<close>

record TcpRouteTarget =
  tt_listen_port :: nat
  tt_dns_server :: SocketAddr
  tt_name :: string
  tt_port :: u16
  tt_healthcheck :: "HealthcheckConfig option"

definition target_tcp_routes ::
  "string \<Rightarrow> string \<Rightarrow> SocketAddr \<Rightarrow> ProxyTarget \<Rightarrow> (string, TcpRouteTarget list) result" where
  "target_tcp_routes project service_name dns_server target =
     (case pt_listen_port target of
        None \<Rightarrow> Inr []
      | Some listen_port \<Rightarrow>
          map_sum id
            (\<lambda>port. [\<lparr>tt_listen_port = listen_port, tt_dns_server = dns_server, tt_name = route_name project service_name,
                     tt_port = port, tt_healthcheck = pt_healthcheck target\<rparr>])
            (port_u16 (quoted_service service_name @ '' proxy target port'') (pt_port target)))"

definition tcp_targets_for_service ::
  "string \<Rightarrow> string \<Rightarrow> ProxyConfig option \<Rightarrow> SocketAddr \<Rightarrow> (string, TcpRouteTarget list) result" where
  "tcp_targets_for_service project service_name proxy dns_server =
     (case proxy of
        None \<Rightarrow> Inr []
      | Some p \<Rightarrow>
          (case px_targets p of
             Some targets \<Rightarrow> map_sum id concat (collect_results (target_tcp_routes project service_name dns_server) targets)
           | None \<Rightarrow>
               (case (px_listen_port p, px_port p) of
                  (Some listen_port, Some port) \<Rightarrow>
                    map_sum id
                      (\<lambda>port. [\<lparr>tt_listen_port = listen_port, tt_dns_server = dns_server,
                               tt_name = route_name project service_name, tt_port = port, tt_healthcheck = px_healthcheck p\<rparr>])
                      (port_u16 (quoted_service service_name @ '' proxy port'') port)
                | _ \<Rightarrow> Inr [])))"

section \<open>Arguments of the proxy's commands\<close>

definition seconds_arg :: "string \<Rightarrow> string option \<Rightarrow> string list option" where
  "seconds_arg flag value =
     (case value of
        None \<Rightarrow> Some []
      | Some s \<Rightarrow>
          map_option (\<lambda>p. case p of None \<Rightarrow> [] | Some t \<Rightarrow> [flag @ show_nat (max (unat t) 1)]) (parse_duration s))"

definition health_args :: "HealthcheckConfig option \<Rightarrow> string list option" where
  "health_args healthcheck =
     (case healthcheck of
        None \<Rightarrow> Some []
      | Some check \<Rightarrow>
          Option.bind (seconds_arg ''--health-check-interval-secs='' (hc_interval check)) (\<lambda>interval.
          Option.bind (seconds_arg ''--health-check-timeout-secs='' (hc_timeout check)) (\<lambda>timeout.
          Some ([''--health-check''] @
                (case hc_path check of None \<Rightarrow> [] | Some path \<Rightarrow> [''--health-check-path='' @ path]) @
                interval @ timeout))))"

definition policy_args :: "RouteTarget \<Rightarrow> string list option" where
  "policy_args t = map_option (\<lambda>hs. (if rt_tls t then [''--tls''] else []) @ hs) (health_args (rt_healthcheck t))"

definition tcp_policy_args :: "TcpRouteTarget \<Rightarrow> string list option" where
  "tcp_policy_args t = health_args (tt_healthcheck t)"

definition render_apply_args :: "(128 word \<Rightarrow> string) \<Rightarrow> RouteTarget \<Rightarrow> string list option" where
  "render_apply_args show_v6 t =
     map_option
       (\<lambda>policy. [''--host='' @ rt_host t, ''--dns-server='' @ show_socket_addr show_v6 (rt_dns_server t),
                 ''--name='' @ rt_name t, ''--port='' @ show_nat (unat (rt_port t))] @
                (case rt_path_prefix t of None \<Rightarrow> [] | Some p \<Rightarrow> [''--path-prefix='' @ p]) @
                policy @
                (case rt_ssl t of Some (SslCerts _ _) \<Rightarrow> [''--reload-certificate''] | _ \<Rightarrow> []))
       (policy_args t)"

definition render_tcp_apply_args :: "(128 word \<Rightarrow> string) \<Rightarrow> TcpRouteTarget \<Rightarrow> string list option" where
  "render_tcp_apply_args show_v6 t =
     map_option
       (\<lambda>policy. [''--listen-port='' @ show_nat (tt_listen_port t), ''--dns-server='' @ show_socket_addr show_v6 (tt_dns_server t),
                 ''--name='' @ tt_name t, ''--port='' @ show_nat (unat (tt_port t))] @ policy)
       (tcp_policy_args t)"

definition proxy_command :: "ContainerEngine \<Rightarrow> string \<Rightarrow> string list \<Rightarrow> string" where
  "proxy_command engine what args = exec_prefix engine @ '' jiji-proxy jiji-proxy '' @ what @ '' '' @ join '' '' args"

definition route_key_args :: "string \<Rightarrow> string option \<Rightarrow> string list" where
  "route_key_args host path_prefix =
     (''--host='' @ host) # (case path_prefix of None \<Rightarrow> [] | Some p \<Rightarrow> [''--path-prefix='' @ p])"

definition render_apply_command :: "(128 word \<Rightarrow> string) \<Rightarrow> ContainerEngine \<Rightarrow> RouteTarget \<Rightarrow> string option" where
  "render_apply_command show_v6 engine t = map_option (proxy_command engine ''route apply'') (render_apply_args show_v6 t)"

definition render_remove_command :: "ContainerEngine \<Rightarrow> string \<Rightarrow> string option \<Rightarrow> string" where
  "render_remove_command engine host path_prefix = proxy_command engine ''route remove'' (route_key_args host path_prefix)"

definition render_status_command :: "ContainerEngine \<Rightarrow> string \<Rightarrow> string option \<Rightarrow> string" where
  "render_status_command engine host path_prefix = proxy_command engine ''route status'' (route_key_args host path_prefix)"

definition render_tcp_apply_command :: "(128 word \<Rightarrow> string) \<Rightarrow> ContainerEngine \<Rightarrow> TcpRouteTarget \<Rightarrow> string option" where
  "render_tcp_apply_command show_v6 engine t = map_option (proxy_command engine ''tcp-route apply'') (render_tcp_apply_args show_v6 t)"

definition render_tcp_remove_command :: "ContainerEngine \<Rightarrow> nat \<Rightarrow> string" where
  "render_tcp_remove_command engine listen_port = proxy_command engine ''tcp-route remove'' [''--listen-port='' @ show_nat listen_port]"

definition render_tcp_status_command :: "ContainerEngine \<Rightarrow> nat \<Rightarrow> string" where
  "render_tcp_status_command engine listen_port = proxy_command engine ''tcp-route status'' [''--listen-port='' @ show_nat listen_port]"

section \<open>Routes of the agent\<close>

definition UNUSED_DNS_SERVER :: SocketAddr where
  "UNUSED_DNS_SERVER = SocketAddr (V4 0) 0"

definition runtime_spec :: "RouteTarget \<Rightarrow> ProxyRouteSpec option" where
  "runtime_spec t =
     map_option
       (\<lambda>args. \<lparr>pr_host = rt_host t, pr_path_prefix = rt_path_prefix t, pr_name = rt_name t, pr_port = rt_port t,
               pr_apply_args = args @ [''--preserve-existing-tls'']\<rparr>)
       (policy_args t)"

definition runtime_specs_for_service ::
  "string \<Rightarrow> string \<Rightarrow> ProxyConfig option \<Rightarrow> (string, ProxyRouteSpec list) result option" where
  "runtime_specs_for_service project service_name proxy =
     (case targets_for_service project service_name proxy UNUSED_DNS_SERVER of
        Inl e \<Rightarrow> Some (Inl e)
      | Inr targets \<Rightarrow> map_option Inr (collect_options runtime_spec targets))"

definition runtime_tcp_spec :: "TcpRouteTarget \<Rightarrow> TcpRouteSpec option" where
  "runtime_tcp_spec t =
     map_option
       (\<lambda>args. \<lparr>tr_listen_port = of_nat (tt_listen_port t), tr_name = tt_name t, tr_port = tt_port t, tr_apply_args = args\<rparr>)
       (tcp_policy_args t)"

definition runtime_tcp_specs_for_service ::
  "string \<Rightarrow> string \<Rightarrow> ProxyConfig option \<Rightarrow> (string, TcpRouteSpec list) result option" where
  "runtime_tcp_specs_for_service project service_name proxy =
     (case tcp_targets_for_service project service_name proxy UNUSED_DNS_SERVER of
        Inl e \<Rightarrow> Some (Inl e)
      | Inr targets \<Rightarrow> map_option Inr (collect_options runtime_tcp_spec targets))"

section \<open>Waiting for an address\<close>

record BackendStatus =
  bk_address :: string
  bk_healthy :: bool

record RouteStatus =
  rs_route_exists :: bool
  rs_backends :: "BackendStatus list"

text \<open>
  The loop of \<^verbatim>\<open>verify_route_address\<close> and of its TCP twin over the answers of the proxy and the times
  at which the deadline is checked; \<open>None\<close> is the loop still running.
\<close>

fun verify_address ::
  "string \<Rightarrow> string \<Rightarrow> string \<Rightarrow> string \<Rightarrow> nat \<Rightarrow> nat \<Rightarrow> ((string, RouteStatus) result \<times> nat) list \<Rightarrow> (string, unit) result option" where
  "verify_address kind key session_host expected timeout deadline [] = None"
| "verify_address kind key session_host expected timeout deadline ((Inl e, now) # rest) = Some (Inl e)"
| "verify_address kind key session_host expected timeout deadline ((Inr status, now) # rest) =
     (if \<not> rs_route_exists status then Some (Inl (kind @ '' for '' @ key @ '' is not registered on '' @ session_host))
      else if list_ex (\<lambda>b. bk_address b = expected \<and> bk_healthy b) (rs_backends status) then Some (Inr ())
      else if deadline \<le> now then
        Some (Inl (''jiji-proxy on '' @ session_host @ '' did not report '' @ expected @ '' as a healthy backend for '' @ key @
                   '' within '' @ show_nat timeout @ ''s (currently sees: ['' @
                   join '', '' (map bk_address (rs_backends status)) @ ''])''))
      else verify_address kind key session_host expected timeout deadline rest)"

definition verify_route_address ::
  "string \<Rightarrow> string \<Rightarrow> string \<Rightarrow> nat \<Rightarrow> nat \<Rightarrow> ((string, RouteStatus) result \<times> nat) list \<Rightarrow> (string, unit) result option" where
  "verify_route_address host = verify_address ''Proxy route'' (''host '' @ [CHR 0x27] @ host @ [CHR 0x27])"

definition verify_tcp_route_address ::
  "nat \<Rightarrow> string \<Rightarrow> string \<Rightarrow> nat \<Rightarrow> nat \<Rightarrow> ((string, RouteStatus) result \<times> nat) list \<Rightarrow> (string, unit) result option" where
  "verify_tcp_route_address listen_port = verify_address ''TCP proxy route'' (''listen_port '' @ show_nat listen_port)"

section \<open>Routes as configured\<close>

lemma collect_results_Inr: "collect_results f xs = Inr ys \<Longrightarrow> list_all2 (\<lambda>x y. f x = Inr y) xs ys"
proof (induction xs arbitrary: ys)
  case (Cons x xs)
  then obtain y zs where "f x = Inr y" "collect_results f xs = Inr zs" "ys = y # zs"
    by (cases "f x"; cases "collect_results f xs") auto
  then show ?case using Cons.IH by blast
qed auto

text \<open>The targets of a configuration, with the single-target form read as one target.\<close>

definition config_targets :: "ProxyConfig option \<Rightarrow> ProxyTarget list" where
  "config_targets proxy =
     (case proxy of
        None \<Rightarrow> []
      | Some p \<Rightarrow>
          (case px_targets p of
             Some ts \<Rightarrow> ts
           | None \<Rightarrow>
               (case px_port p of
                  None \<Rightarrow> []
                | Some port \<Rightarrow>
                    [\<lparr>pt_port = port, pt_hosts = px_hosts p, pt_ssl = px_ssl p, pt_path_prefix = px_path_prefix p,
                      pt_healthcheck = px_healthcheck p, pt_listen_port = px_listen_port p\<rparr>])))"

definition http_routes :: "ProxyTarget \<Rightarrow> (string \<times> string option \<times> nat) list" where
  "http_routes t =
     (if pt_listen_port t = None then map (\<lambda>host. (host, pt_path_prefix t, pt_port t)) (case pt_hosts t of None \<Rightarrow> [] | Some hs \<Rightarrow> hs)
      else [])"

definition route_of :: "RouteTarget \<Rightarrow> string \<times> string option \<times> nat" where
  "route_of r = (rt_host r, rt_path_prefix r, unat (rt_port r))"

lemma port_u16_Inr: "port_u16 what port = Inr p \<longleftrightarrow> port < 2 ^ 16 \<and> p = of_nat port"
  by (auto simp: port_u16_def)

lemma unat_port: "port < 2 ^ 16 \<Longrightarrow> unat (of_nat port :: u16) = port"
  by (simp add: unat_of_nat)

lemma target_routes_Inr:
  assumes "target_routes project service_name dns t = Inr rs"
  shows "map route_of rs = http_routes t \<and> (\<forall>r \<in> set rs. rt_ssl r = pt_ssl t \<and> rt_name r = route_name project service_name)"
  using assms
  by (cases "pt_listen_port t") (auto simp: target_routes_def http_routes_def route_of_def port_u16_Inr unat_port split: sum.splits)

lemma targets_for_service_Inr:
  assumes "targets_for_service project service_name proxy dns = Inr rs"
  shows "\<exists>rss. list_all2 (\<lambda>t ts. map route_of ts = http_routes t \<and> (\<forall>r \<in> set ts. rt_ssl r = pt_ssl t)) (config_targets proxy) rss \<and>
    rs = concat rss"
proof (cases proxy)
  case None
  then show ?thesis using assms by (simp add: targets_for_service_def config_targets_def)
next
  case (Some p)
  show ?thesis
  proof (cases "px_targets p")
    case (Some ts)
    then obtain rss where rss: "collect_results (target_routes project service_name dns) ts = Inr rss" "rs = concat rss"
      using assms \<open>proxy = Some p\<close> by (cases "collect_results (target_routes project service_name dns) ts") (auto simp: targets_for_service_def)
    have "list_all2 (\<lambda>t ts. map route_of ts = http_routes t \<and> (\<forall>r \<in> set ts. rt_ssl r = pt_ssl t)) ts rss"
      by (rule list_all2_mono [OF collect_results_Inr [OF rss(1)]]) (use target_routes_Inr in blast)
    then show ?thesis using rss(2) Some \<open>proxy = Some p\<close> by (auto simp: config_targets_def)
  next
    case None
    then have "list_all2 (\<lambda>t ts. map route_of ts = http_routes t \<and> (\<forall>r \<in> set ts. rt_ssl r = pt_ssl t)) (config_targets proxy)
        (if config_targets proxy = [] then [] else [rs]) \<and> (config_targets proxy = [] \<longrightarrow> rs = [])"
      using assms \<open>proxy = Some p\<close>
      by (cases "px_listen_port p"; cases "px_port p") (auto simp: targets_for_service_def config_targets_def http_routes_def route_of_def port_u16_Inr unat_port split: sum.splits)
    then show ?thesis by (intro exI [of _ "if config_targets proxy = [] then [] else [rs]"]) auto
  qed
qed

lemma routes_exact:
  assumes "targets_for_service project service_name proxy dns = Inr rs"
  shows "map route_of rs = concat (map http_routes (config_targets proxy))"
proof -
  obtain rss where rss: "list_all2 (\<lambda>t ts. map route_of ts = http_routes t \<and> (\<forall>r \<in> set ts. rt_ssl r = pt_ssl t)) (config_targets proxy) rss"
    "rs = concat rss"
    using targets_for_service_Inr [OF assms] by blast
  have "map route_of (concat rss) = concat (map http_routes ts)"
    if "list_all2 (\<lambda>t ts. map route_of ts = http_routes t \<and> (\<forall>r \<in> set ts. rt_ssl r = pt_ssl t)) ts rss" for ts rss
    using that by (induction rule: list_all2_induct) auto
  then show ?thesis using rss by blast
qed

lemma config_targets_ssl: "t \<in> set (config_targets proxy) \<Longrightarrow> pt_ssl t \<in> set (proxy_ssls proxy)"
  by (auto simp: config_targets_def proxy_ssls_def split: option.splits)

lemma routes_ssl:
  assumes "targets_for_service project service_name proxy dns = Inr rs" "r \<in> set rs"
  shows "rt_ssl r \<in> set (proxy_ssls proxy)"
proof -
  obtain rss ts where rss: "list_all2 (\<lambda>t ts. map route_of ts = http_routes t \<and> (\<forall>r \<in> set ts. rt_ssl r = pt_ssl t)) (config_targets proxy) rss"
    "ts \<in> set rss" "r \<in> set ts"
    using targets_for_service_Inr [OF assms(1)] assms(2) by auto
  then obtain i where "i < length rss" "ts = rss ! i" by (metis in_set_conv_nth)
  then have "config_targets proxy ! i \<in> set (config_targets proxy)" "rt_ssl r = pt_ssl (config_targets proxy ! i)"
    using rss by (auto simp: list_all2_conv_all_nth)
  then show ?thesis using config_targets_ssl by metis
qed

section \<open>TLS material\<close>

definition ssl_refs :: "SslValue option \<Rightarrow> string list" where
  "ssl_refs ssl = (case ssl of Some (SslCerts cert key) \<Rightarrow> filter (\<lambda>v. \<not> is_pem v) [cert, key] | _ \<Rightarrow> [])"

lemma add_tls_secret_refs_set:
  "set (env_secrets (add_tls_secret_refs proxy env)) = set (env_secrets env) \<union> (\<Union>ssl \<in> set (proxy_ssls proxy). set (ssl_refs ssl))"
proof -
  have "set (env_secrets (add_ssl_refs env ssl)) = set (env_secrets env) \<union> set (ssl_refs ssl)" for env ssl
    by (auto simp: add_ssl_refs_def add_secret_ref_def ssl_refs_def split: option.splits SslValue.splits)
  then have "set (env_secrets (foldl add_ssl_refs env ssls)) = set (env_secrets env) \<union> (\<Union>ssl \<in> set ssls. set (ssl_refs ssl))" for ssls
    by (induction ssls arbitrary: env) auto
  then show ?thesis by (simp add: add_tls_secret_refs_def)
qed

lemma mark_tls_control_secrets_set:
  "set (re_control_keys (mark_tls_control_secrets proxy r)) = set (re_control_keys r) \<union> (\<Union>ssl \<in> set (proxy_ssls proxy). set (ssl_refs ssl))"
  "re_values (mark_tls_control_secrets proxy r) = re_values r"
proof -
  have step: "set (re_control_keys (mark_ssl r ssl)) = set (re_control_keys r) \<union> set (ssl_refs ssl) \<and> re_values (mark_ssl r ssl) = re_values r" for r ssl
    by (auto simp: mark_ssl_def mark_secret_def ssl_refs_def set_insort_insert split: option.splits SslValue.splits)
  have "set (re_control_keys (foldl mark_ssl r ssls)) = set (re_control_keys r) \<union> (\<Union>ssl \<in> set ssls. set (ssl_refs ssl)) \<and>
      re_values (foldl mark_ssl r ssls) = re_values r" for ssls
    using step by (induction ssls arbitrary: r) auto
  then show "set (re_control_keys (mark_tls_control_secrets proxy r)) = set (re_control_keys r) \<union> (\<Union>ssl \<in> set (proxy_ssls proxy). set (ssl_refs ssl))"
    "re_values (mark_tls_control_secrets proxy r) = re_values r"
    by (simp_all add: mark_tls_control_secrets_def)
qed

lemma resolve_tls_value_Inr: "resolve_tls_value env host kind value = Inr v \<Longrightarrow> is_pem v"
  by (auto simp: resolve_tls_value_def Let_def split: sum.splits if_splits)

lemma resolve_target_Inr:
  assumes "resolve_target env t = Inr t'"
  shows "t'\<lparr>rt_ssl := None\<rparr> = t\<lparr>rt_ssl := None\<rparr> \<and> (\<forall>cert key. rt_ssl t' = Some (SslCerts cert key) \<longrightarrow> is_pem cert \<and> is_pem key)"
  using assms by (auto simp: resolve_target_def split: option.splits SslValue.splits sum.splits dest: resolve_tls_value_Inr)

text \<open>
  TLS material stays in the control plane: once the routes of a service are resolved, each of
  them carries PEM data and is otherwise unchanged; every variable a route takes its material from is
  demanded as a secret, and does not appear in the environment file of the container.
\<close>

theorem tls_material_confined:
  assumes routes: "targets_for_service project service_name proxy dns = Inr rs"
    and resolved: "resolve_tls_secrets rs (mark_tls_control_secrets proxy r) = Inr rs'"
    and staged: "env_file_content service_name (mark_tls_control_secrets proxy r) = Inr content"
    and names: "\<forall>(k, v) \<in> set (re_values r). is_valid_env_var_name k"
  shows "map (\<lambda>t. t\<lparr>rt_ssl := None\<rparr>) rs' = map (\<lambda>t. t\<lparr>rt_ssl := None\<rparr>) rs \<and>
    (\<forall>t \<in> set rs'. \<forall>cert key. rt_ssl t = Some (SslCerts cert key) \<longrightarrow> is_pem cert \<and> is_pem key) \<and>
    (\<forall>t \<in> set rs. \<forall>name \<in> set (ssl_refs (rt_ssl t)).
       name \<in> set (env_secrets (add_tls_secret_refs proxy env)) \<and> map_of (read_env_file content) name = None)"
proof -
  have pairs: "list_all2 (\<lambda>t t'. resolve_target (mark_tls_control_secrets proxy r) t = Inr t') rs rs'"
    using resolved unfolding resolve_tls_secrets_def by (rule collect_results_Inr)
  have same: "map (\<lambda>t. t\<lparr>rt_ssl := None\<rparr>) rs' = map (\<lambda>t. t\<lparr>rt_ssl := None\<rparr>) rs"
    using pairs by (induction rule: list_all2_induct) (auto dest: resolve_target_Inr)
  have pem: "\<forall>t \<in> set rs'. \<forall>cert key. rt_ssl t = Some (SslCerts cert key) \<longrightarrow> is_pem cert \<and> is_pem key"
    using pairs by (induction rule: list_all2_induct) (auto dest: resolve_target_Inr)
  have content: "read_env_file content = filter (\<lambda>(k, v). k \<notin> set (re_control_keys (mark_tls_control_secrets proxy r))) (re_values r)"
    using env_file_lines_read [of "re_values r"] staged names
    by (simp add: env_file_content_def mark_tls_control_secrets_set(2))
  have "name \<in> set (env_secrets (add_tls_secret_refs proxy env)) \<and> map_of (read_env_file content) name = None"
    if "t \<in> set rs" "name \<in> set (ssl_refs (rt_ssl t))" for t name
  proof -
    have ref: "name \<in> (\<Union>ssl \<in> set (proxy_ssls proxy). set (ssl_refs ssl))"
      using routes_ssl [OF routes that(1)] that(2) by blast
    then have "name \<in> set (re_control_keys (mark_tls_control_secrets proxy r))"
      unfolding mark_tls_control_secrets_set(1) by blast
    then have "map_of (read_env_file content) name = None" by (simp add: content map_of_filter_keys)
    then show ?thesis using ref unfolding add_tls_secret_refs_set by blast
  qed
  then show ?thesis using same pem by blast
qed

definition tls_proxy :: ProxyConfig where
  "tls_proxy = \<lparr>px_port = Some 3000, px_hosts = Some [''a.example''], px_ssl = Some (SslCerts ''CERT'' ''KEY''), px_path_prefix = None,
     px_healthcheck = None, px_targets = None, px_listen_port = None\<rparr>"

definition tls_resolved :: ResolvedEnvironment where
  "tls_resolved = \<lparr>re_values = [(''CERT'', ''-----BEGIN C''), (''KEY'', ''-----BEGIN K''), (''MODE'', ''live'')],
     re_secret_keys = [''CERT'', ''KEY''], re_control_keys = []\<rparr>"

theorem tls_material_confined_witness:
  "\<exists>rs rs' content. targets_for_service ''p'' ''web'' (Some tls_proxy) UNUSED_DNS_SERVER = Inr rs \<and>
     resolve_tls_secrets rs (mark_tls_control_secrets (Some tls_proxy) tls_resolved) = Inr rs' \<and>
     map rt_ssl rs' = [Some (SslCerts ''-----BEGIN C'' ''-----BEGIN K'')] \<and>
     env_file_content ''web'' (mark_tls_control_secrets (Some tls_proxy) tls_resolved) = Inr content \<and>
     map_of (read_env_file content) ''KEY'' = None"
proof -
  let ?r = "mark_tls_control_secrets (Some tls_proxy) tls_resolved"
  let ?t = "\<lambda>ssl. \<lparr>rt_host = ''a.example'', rt_path_prefix = None, rt_dns_server = UNUSED_DNS_SERVER, rt_name = route_name ''p'' ''web'',
    rt_port = 3000, rt_ssl = Some ssl, rt_healthcheck = None\<rparr>"
  let ?c = "''MODE=live'' @ [CHR 0x0A]"
  have rs: "targets_for_service ''p'' ''web'' (Some tls_proxy) UNUSED_DNS_SERVER = Inr [?t (SslCerts ''CERT'' ''KEY'')]"
    by (simp add: targets_for_service_def tls_proxy_def port_u16_def)
  have pem: "\<not> is_pem ''CERT''" "\<not> is_pem ''KEY''" "is_pem ''-----BEGIN C''" "is_pem ''-----BEGIN K''" by code_simp+
  have rs': "resolve_tls_secrets [?t (SslCerts ''CERT'' ''KEY'')] ?r = Inr [?t (SslCerts ''-----BEGIN C'' ''-----BEGIN K'')]"
  proof -
    have "resolve_tls_value ?r ''a.example'' kind v = Inr (''-----BEGIN '' @ [hd v])" if "v \<in> {''CERT'', ''KEY''}" for kind v
      using that pem by (auto simp: resolve_tls_value_def mark_tls_control_secrets_set(2) tls_resolved_def)
    then show ?thesis by (simp add: resolve_tls_secrets_def resolve_target_def)
  qed
  have content: "env_file_content ''web'' ?r = Inr ?c" by code_simp
  have names: "\<forall>(k, v) \<in> set (re_values tls_resolved). is_valid_env_var_name k" by code_simp
  have "''KEY'' \<in> set (ssl_refs (Some (SslCerts ''CERT'' ''KEY'')))" by (simp add: ssl_refs_def pem)
  then have "map_of (read_env_file ?c) ''KEY'' = None"
    using tls_material_confined [OF rs rs' content names] by auto
  then show ?thesis using rs rs' content
    by (intro exI [of _ "[?t (SslCerts ''CERT'' ''KEY'')]"] exI [of _ "[?t (SslCerts ''-----BEGIN C'' ''-----BEGIN K'')]"]
        exI [of _ ?c] conjI) simp_all
qed

end
