(* ===== verification/Remote_Builder.thy ===== *)
theory Remote_Builder
  imports Text_Format
begin

text \<open>
  The \<^verbatim>\<open>builder.remote\<close> address of \<^verbatim>\<open>crates/jiji-config/src/remote_builder.rs\<close>: the parser of
  \<^verbatim>\<open>ssh://[user@]hostname[:port]\<close> with its error values, and a printer of well-formed addresses.
  The parser reads back what the printer writes, and whatever it accepts has a host, no empty
  user and a port that is not 0 and fits 16 bits.
\<close>

section \<open>Types\<close>

record RemoteBuilder =
  rb_host :: string
  rb_user :: "string option"
  rb_port :: "nat option"

datatype RemoteBuilderUriError =
    RbEmpty | RbInvalidScheme | RbPasswordNotAllowed | RbUnsupportedComponent string
  | RbEmptyHost | RbEmptyUser | RbZeroPort | RbInvalidPort string

definition show_RemoteBuilderUriError :: "RemoteBuilderUriError \<Rightarrow> string" where
  "show_RemoteBuilderUriError e =
     [CHR 0x27] @ ''builder.remote'' @ [CHR 0x27] @
     (case e of
        RbEmpty \<Rightarrow> '' is empty. Use `ssh://[user@]hostname[:port]`.''
      | RbInvalidScheme \<Rightarrow> '' must start with `ssh://`. Use `ssh://[user@]hostname[:port]`.''
      | RbPasswordNotAllowed \<Rightarrow>
          '' may not include a password. Use `ssh://[user@]hostname[:port]` and configure authentication under `ssh:`.''
      | RbUnsupportedComponent k \<Rightarrow> '' may not include a '' @ k @ ''. Use `ssh://[user@]hostname[:port]`.''
      | RbEmptyHost \<Rightarrow> '' is missing a hostname. Use `ssh://[user@]hostname[:port]`.''
      | RbEmptyUser \<Rightarrow>
          '' has an empty user before '' @ [CHR 0x27] @ ''@'' @ [CHR 0x27] @
          ''. Use `ssh://[user@]hostname[:port]` or omit the user.''
      | RbZeroPort \<Rightarrow> '' has port 0, which is not a valid port. Use 1-65535 or omit the port.''
      | RbInvalidPort v \<Rightarrow>
          '' has an invalid port '' @ [CHR 0x27] @ v @ [CHR 0x27] @ ''. Use a number from 1-65535.'')"

section \<open>Parsing\<close>

definition SCHEME_PREFIX :: string where
  "SCHEME_PREFIX = ''ssh://''"

text \<open>\<^verbatim>\<open>str::rsplit_once(c)\<close>: the parts before and after the last \<open>c\<close>.\<close>

definition rsplit_once :: "char \<Rightarrow> string \<Rightarrow> (string \<times> string) option" where
  "rsplit_once c s = map_option (\<lambda>(a, b). (rev b, rev a)) (split_once c (rev s))"

definition parse_port :: "string \<Rightarrow> (RemoteBuilderUriError, nat) result" where
  "parse_port value =
     (case parse_uint (2 ^ 32 - 1) value of
        Inl _ \<Rightarrow> Inl (RbInvalidPort value)
      | Inr port \<Rightarrow>
          (if port = 0 then Inl RbZeroPort
           else if port < 2 ^ 16 then Inr port
           else Inl (RbInvalidPort value)))"

definition parse_host_port :: "string \<Rightarrow> (RemoteBuilderUriError, string \<times> nat option) result" where
  "parse_host_port value =
     (case strip_prefix ''['' value of
        Some rest \<Rightarrow>
          (case split_once (CHR '']'') rest of
             None \<Rightarrow> Inl RbEmptyHost
           | Some (host, after) \<Rightarrow>
               (case strip_prefix '':'' after of
                  Some port_str \<Rightarrow>
                    (case parse_port port_str of Inl e \<Rightarrow> Inl e | Inr port \<Rightarrow> Inr (host, Some port))
                | None \<Rightarrow> (if after = [] then Inr (host, None) else Inl RbEmptyHost)))
      | None \<Rightarrow>
          (case rsplit_once (CHR '':'') value of
             Some (host, port_str) \<Rightarrow>
               (case parse_port port_str of Inl e \<Rightarrow> Inl e | Inr port \<Rightarrow> Inr (host, Some port))
           | None \<Rightarrow> Inr (value, None)))"

definition uri_component :: "char \<Rightarrow> string" where
  "uri_component c =
     (if c = CHR ''/'' then ''path'' else if c = CHR ''?'' then ''query string'' else ''fragment'')"

definition parse_user :: "string option \<Rightarrow> (RemoteBuilderUriError, string option) result" where
  "parse_user userinfo =
     (case userinfo of
        Some u \<Rightarrow>
          (if CHR '':'' \<in> set u then Inl RbPasswordNotAllowed
           else if u = [] then Inl RbEmptyUser
           else Inr (Some u))
      | None \<Rightarrow> Inr None)"

definition parse_remote_builder_uri :: "string \<Rightarrow> (RemoteBuilderUriError, RemoteBuilder) result" where
  "parse_remote_builder_uri raw =
     (let raw = trim raw in
      if raw = [] then Inl RbEmpty
      else case strip_prefix SCHEME_PREFIX raw of
        None \<Rightarrow> Inl RbInvalidScheme
      | Some rest \<Rightarrow>
          if rest = [] then Inl RbEmptyHost
          else case find (\<lambda>c. c \<in> set ''/?#'') rest of
            Some c \<Rightarrow> Inl (RbUnsupportedComponent (uri_component c))
          | None \<Rightarrow>
              (let (userinfo, host_port) =
                 (case rsplit_once (CHR ''@'') rest of
                    Some (userinfo, host_port) \<Rightarrow> (Some userinfo, host_port)
                  | None \<Rightarrow> (None, rest))
               in case parse_user userinfo of
                    Inl e \<Rightarrow> Inl e
                  | Inr user \<Rightarrow>
                      (case parse_host_port host_port of
                         Inl e \<Rightarrow> Inl e
                       | Inr (host, port) \<Rightarrow>
                           (if host = [] then Inl RbEmptyHost
                            else Inr \<lparr>rb_host = host, rb_user = user, rb_port = port\<rparr>))))"

section \<open>Well-formed addresses and their text\<close>

text \<open>
  The addresses the text form can carry: a host in ASCII that is not empty and has none of the delimiters,
  or is a bracketed literal; a user without delimiters; a port from 1 to 65535.
\<close>

definition uri_plain :: "string \<Rightarrow> bool" where
  "uri_plain s = (s \<noteq> [] \<and> (\<forall>c \<in> set s. is_plain c \<and> c \<notin> set ''/?#@[]''))"

definition remote_builder_wf :: "RemoteBuilder \<Rightarrow> bool" where
  "remote_builder_wf b =
     (uri_plain (rb_host b) \<and>
      (case rb_user b of None \<Rightarrow> True | Some u \<Rightarrow> uri_plain u \<and> CHR '':'' \<notin> set u) \<and>
      (case rb_port b of None \<Rightarrow> True | Some p \<Rightarrow> 0 < p \<and> p < 2 ^ 16))"

definition show_remote_builder :: "RemoteBuilder \<Rightarrow> string" where
  "show_remote_builder b =
     SCHEME_PREFIX @
     (case rb_user b of None \<Rightarrow> [] | Some u \<Rightarrow> u @ ''@'') @
     (if CHR '':'' \<in> set (rb_host b) then ''['' @ rb_host b @ '']'' else rb_host b) @
     (case rb_port b of None \<Rightarrow> [] | Some p \<Rightarrow> '':'' @ show_nat p)"

lemma rsplit_once_append: "c \<notin> set b \<Longrightarrow> rsplit_once c (a @ c # b) = Some (a, b)"
  by (simp add: rsplit_once_def split_once_append)

lemma rsplit_once_None: "rsplit_once c s = None \<longleftrightarrow> c \<notin> set s"
  by (simp add: rsplit_once_def split_once_None)

lemma parse_port_show_nat:
  "\<lbrakk>0 < p; p < 2 ^ 16\<rbrakk> \<Longrightarrow> parse_port (show_nat p) = Inr p"
  by (simp add: parse_port_def parse_uint_show_nat)

lemma parse_port_bounds: "parse_port v = Inr p \<Longrightarrow> 0 < p \<and> p < 2 ^ 16"
  by (auto simp: parse_port_def split: sum.splits if_splits)

lemma uri_plain_set: "\<lbrakk>uri_plain s; c \<in> set s\<rbrakk> \<Longrightarrow> is_plain c \<and> c \<notin> set ''/?#@[]''"
  by (simp add: uri_plain_def)

lemma show_nat_no_delimiter:
  "c \<in> set (show_nat n) \<Longrightarrow> is_plain c \<and> c \<notin> set ''/?#@[]:''"
  using show_nat_digits [of c n] by (auto simp: is_ascii_digit_def is_plain_def is_whitespace_def)

definition host_text :: "RemoteBuilder \<Rightarrow> string" where
  "host_text b =
     (if CHR '':'' \<in> set (rb_host b) then ''['' @ rb_host b @ '']'' else rb_host b) @
     (case rb_port b of None \<Rightarrow> [] | Some p \<Rightarrow> '':'' @ show_nat p)"

lemma parse_host_port_host_text:
  assumes wf: "remote_builder_wf b"
  shows "parse_host_port (host_text b) = Inr (rb_host b, rb_port b)"
proof (cases "CHR '':'' \<in> set (rb_host b)")
  case True
  have "CHR '']'' \<notin> set (rb_host b)"
    using wf uri_plain_set [of "rb_host b" "CHR '']''"] by (auto simp: remote_builder_wf_def)
  then have "split_once (CHR '']'') (rb_host b @ CHR '']'' # r) = Some (rb_host b, r)" for r
    by (rule split_once_append)
  with True wf show ?thesis
    by (auto simp: host_text_def parse_host_port_def remote_builder_wf_def parse_port_show_nat
        split: option.splits)
next
  case False
  have "uri_plain (rb_host b)" using wf by (simp add: remote_builder_wf_def)
  then obtain x xs where h: "rb_host b = x # xs" and x: "x \<noteq> CHR ''[''"
    by (cases "rb_host b") (auto simp: uri_plain_def)
  have "CHR '':'' \<notin> set (show_nat p)" for p using show_nat_no_delimiter [of "CHR '':''" p] by auto
  then have "rsplit_once (CHR '':'') (rb_host b @ CHR '':'' # show_nat p) = Some (rb_host b, show_nat p)" for p
    by (rule rsplit_once_append)
  moreover have "rsplit_once (CHR '':'') (rb_host b) = None" using False by (simp add: rsplit_once_None)
  ultimately show ?thesis using False wf h x
    by (auto simp: host_text_def parse_host_port_def remote_builder_wf_def parse_port_show_nat
        split: option.splits)
qed

lemma host_text_chars:
  "\<lbrakk>remote_builder_wf b; c \<in> set (host_text b)\<rbrakk> \<Longrightarrow> is_plain c \<and> c \<notin> set ''/?#@''"
  using uri_plain_set [of "rb_host b" c] show_nat_no_delimiter [of c]
  by (auto simp: host_text_def remote_builder_wf_def is_plain_def is_whitespace_def split: if_splits option.splits)

theorem remote_builder_roundtrip:
  assumes wf: "remote_builder_wf b"
  shows "parse_remote_builder_uri (show_remote_builder b) = Inr b"
proof -
  define ui where "ui = (case rb_user b of None \<Rightarrow> [] | Some u \<Rightarrow> u @ ''@'')"
  have shown: "show_remote_builder b = SCHEME_PREFIX @ ui @ host_text b"
    by (simp add: show_remote_builder_def host_text_def ui_def)
  have ui: "is_plain c \<and> c \<notin> set ''/?#''" if "c \<in> set ui" for c
    using that wf uri_plain_set [of _ c]
    by (auto simp: ui_def remote_builder_wf_def is_plain_def is_whitespace_def split: option.splits)
  have nw: "is_plain c" if "c \<in> set (SCHEME_PREFIX @ ui @ host_text b)" for c
    using that ui host_text_chars [OF wf] by (auto simp: SCHEME_PREFIX_def is_plain_def is_whitespace_def)
  have trim: "trim (show_remote_builder b) = SCHEME_PREFIX @ ui @ host_text b"
    unfolding shown using nw by (rule trim_id)
  have ht: "host_text b \<noteq> []"
    using wf by (auto simp: host_text_def remote_builder_wf_def uri_plain_def)
  have nofind: "find (\<lambda>c. c \<in> set ''/?#'') (ui @ host_text b) = None"
    using ui host_text_chars [OF wf] by (auto simp: find_None_iff)
  have at: "CHR ''@'' \<notin> set (host_text b)" using host_text_chars [OF wf, of "CHR ''@''"] by auto
  have split: "(case rsplit_once (CHR ''@'') (ui @ host_text b) of
       Some (userinfo, host_port) \<Rightarrow> (Some userinfo, host_port)
     | None \<Rightarrow> (None, ui @ host_text b)) = (rb_user b, host_text b)"
    using at rsplit_once_None [of "CHR ''@''" "host_text b"]
    by (cases "rb_user b") (simp_all add: ui_def rsplit_once_append)
  have user: "parse_user (rb_user b) = Inr (rb_user b)"
    using wf by (auto simp: parse_user_def remote_builder_wf_def uri_plain_def split: option.splits)
  have host: "rb_host b \<noteq> []" using wf by (simp add: remote_builder_wf_def uri_plain_def)
  show ?thesis
    unfolding parse_remote_builder_uri_def Let_def trim
    using ht nofind split user host parse_host_port_host_text [OF wf]
    by (simp add: SCHEME_PREFIX_def)
qed

theorem remote_builder_accepted:
  assumes "parse_remote_builder_uri raw = Inr b"
  shows "rb_host b \<noteq> [] \<and> rb_user b \<noteq> Some [] \<and>
    (\<forall>p. rb_port b = Some p \<longrightarrow> 0 < p \<and> p < 2 ^ 16)"
proof -
  have port: "\<forall>q. p = Some q \<longrightarrow> 0 < q \<and> q < 2 ^ 16" if "parse_host_port v = Inr (h, p)" for v h p
    using that parse_port_bounds
    by (auto simp: parse_host_port_def split: option.splits sum.splits if_splits prod.splits)
  have user: "u \<noteq> Some []" if "parse_user ui = Inr u" for ui u
    using that by (auto simp: parse_user_def split: option.splits if_splits)
  show ?thesis
    using assms port user
    unfolding parse_remote_builder_uri_def Let_def
    by (auto split: option.splits sum.splits if_splits prod.splits)
qed

end
