(* ===== verification/Enrollment.thy ===== *)
theory Enrollment
  imports Store_Log Planner Proxy_Routes Remote_Builder
begin

text \<open>
  How servers enter and leave the mesh: the command line gathers the membership its servers know, reconciles
  it with the configuration (\<^verbatim>\<open>crates/jiji-cli/src/commands/network/membership.rs\<close>, \<^verbatim>\<open>commands/server/setup.rs\<close>) and
  pushes the result to every agent, which imports it record by record (\<^verbatim>\<open>crates/jiji-agent/src/main.rs\<close>). What a server answers
  over SSH is an argument, and so is the socket address its host and port parse to. Looking up the options of the connections, which
  comes before the first of them, is not modelled.
\<close>

abbreviation project_scope :: "string \<Rightarrow> u64 \<Rightarrow> MembershipScope" where
  "project_scope project epoch \<equiv> \<lparr>ms_project_id = project, ms_recovery_epoch = epoch\<rparr>"

section \<open>Reconciling with the configuration\<close>

text \<open>The sums are those of machine words.\<close>

definition reconcile_record :: "MembershipRecord option \<Rightarrow> MembershipRecord \<Rightarrow> MembershipRecord option" where
  "reconcile_record current candidate =
     (case current of
        None \<Rightarrow> Some (candidate\<lparr>mr_owner_epoch := 1, mr_revision := 1, mr_state := MActive\<rparr>)
      | Some c \<Rightarrow>
          (let key_changed = (mr_wireguard_public_key c \<noteq> mr_wireguard_public_key candidate);
               endpoint_changed = (mr_endpoints c \<noteq> mr_endpoints candidate);
               was_tombstoned = (mr_state c = MTombstoned)
           in if \<not> key_changed \<and> \<not> endpoint_changed \<and> \<not> was_tombstoned then None
              else Some ((if key_changed \<or> was_tombstoned
                          then candidate\<lparr>mr_owner_epoch := mr_owner_epoch c + 1, mr_revision := 1\<rparr>
                          else candidate\<lparr>mr_owner_epoch := mr_owner_epoch c, mr_revision := mr_revision c + 1\<rparr>)
                         \<lparr>mr_state := MActive\<rparr>)))"

definition compute_decommissions :: "string set \<Rightarrow> MembershipView \<Rightarrow> MembershipRecord list" where
  "compute_decommissions configured v =
     map (\<lambda>r. r\<lparr>mr_revision := mr_revision r + 1, mr_state := MTombstoned\<rparr>)
       (filter (\<lambda>r. mr_state r = MActive \<and> mr_server_name r \<notin> configured) (membership_all v))"

text \<open>A record that does not fit is skipped with a warning.\<close>

definition apply_or_skip :: "(MembershipRecord \<Rightarrow> string) \<Rightarrow> MembershipScope \<Rightarrow> MembershipView \<Rightarrow> MembershipRecord \<Rightarrow> MembershipView" where
  "apply_or_skip hash sc v r = (case membership_apply hash sc v r of Inl _ \<Rightarrow> v | Inr (_, v') \<Rightarrow> v')"

definition gather_membership_view :: "(MembershipRecord \<Rightarrow> string) \<Rightarrow> MembershipScope \<Rightarrow> MembershipRecord list \<Rightarrow> MembershipView" where
  "gather_membership_view hash sc gathered = foldl (apply_or_skip hash sc) membership_empty gathered"

definition decommission :: "(MembershipRecord \<Rightarrow> string) \<Rightarrow> MembershipScope \<Rightarrow> string set \<Rightarrow> MembershipView \<Rightarrow> MembershipView" where
  "decommission hash sc configured v = foldl (apply_or_skip hash sc) v (compute_decommissions configured v)"

section \<open>Enrolling the targets\<close>

definition candidate_record :: "string \<Rightarrow> u64 \<Rightarrow> string \<Rightarrow> ServerPlan \<Rightarrow> string \<Rightarrow> SocketAddr \<Rightarrow> MembershipRecord" where
  "candidate_record project recovery_epoch name server_plan key endpoint =
     \<lparr>mr_project_id = project, mr_recovery_epoch = recovery_epoch, mr_protocol_version = MEMBERSHIP_PROTOCOL_VERSION,
      mr_schema_version = MEMBERSHIP_SCHEMA_VERSION, mr_node_id = name, mr_server_name = name,
      mr_wireguard_public_key = trim key, mr_management_address = sp_management_address server_plan,
      mr_container_subnet = show_cidr (sp_container_subnet server_plan), mr_endpoints = [endpoint],
      mr_owner_epoch = 1, mr_revision = 1, mr_state = MActive\<rparr>"

text \<open>The configuration an agent is installed with. The routes are those of the services on its server; \<open>None\<close> is a panic while
  they are rendered.\<close>

definition peer_host :: "WireGuardPeerPlan \<Rightarrow> string" where
  "peer_host peer = (case rsplit_once (CHR '':'') (wp_endpoint peer) of Some (host, _) \<Rightarrow> host | None \<Rightarrow> wp_endpoint peer)"

definition peer_public_ips :: "ServerPlan \<Rightarrow> Ipv4Addr list option" where
  "peer_public_ips server = collect_options (\<lambda>peer. parse_ipv4 (peer_host peer)) (sp_peers server)"

fun agent_routes :: "string \<Rightarrow> string \<Rightarrow> (string \<times> Service) list \<Rightarrow> (string, ProxyRouteSpec list \<times> TcpRouteSpec list) result option" where
  "agent_routes project name [] = Some (Inr ([], []))"
| "agent_routes project name ((service_name, service) # services) =
     (if name \<notin> set (svc_servers service) \<or> svc_proxy service = None then agent_routes project name services
      else case runtime_specs_for_service project service_name (svc_proxy service) of
        None \<Rightarrow> None
      | Some (Inl e) \<Rightarrow> Some (Inl e)
      | Some (Inr http) \<Rightarrow>
          (case runtime_tcp_specs_for_service project service_name (svc_proxy service) of
             None \<Rightarrow> None
           | Some (Inl e) \<Rightarrow> Some (Inl e)
           | Some (Inr tcp) \<Rightarrow>
               map_option (map_sum id (\<lambda>(https, tcps). (http @ https, tcp @ tcps))) (agent_routes project name services)))"

definition private_key_path :: "string \<Rightarrow> string" where
  "private_key_path slug = ''/etc/jiji/network/'' @ slug @ ''/private.key''"

definition agent_mesh_config ::
  "digest \<Rightarrow> Config \<Rightarrow> NetworkPlan \<Rightarrow> u64 \<Rightarrow> string \<Rightarrow> ServerPlan \<Rightarrow> Ipv4Addr list \<Rightarrow> ProxyRouteSpec list \<times> TcpRouteSpec list \<Rightarrow> MeshConfig" where
  "agent_mesh_config sha256 config network_plan recovery_epoch name server_plan peer_ips routes =
     \<lparr>mc_project_id = cfg_project config, mc_recovery_epoch = recovery_epoch, mc_node_id = name,
      mc_wireguard_interface = sp_wireguard_interface server_plan,
      mc_wireguard_private_key_path = private_key_path (systemd_unit_slug sha256 (cfg_project config)),
      mc_replication_bind =
        SocketAddr (V4 (sp_management_address server_plan)) (unat (catalog_replication_port sha256 (cfg_project config))),
      mc_dns_bind_address = sp_dns_address server_plan,
      mc_local_runtime =
        \<lparr>lr_bridge_network = sp_bridge_name server_plan, lr_bridge_interface = sp_bridge_interface server_plan,
         lr_proxy_address = sp_proxy_address server_plan, lr_proxy_routes = fst routes, lr_tcp_routes = snd routes,
         lr_container_subnet = sp_container_subnet server_plan, lr_bridge_gateway = sp_bridge_gateway server_plan,
         lr_container_cidr = np_container_cidr network_plan, lr_wireguard_port = sp_wireguard_port server_plan,
         lr_peer_public_ips = peer_ips, lr_public_host = sp_public_host server_plan\<rparr>,
      mc_reconcile_interval_secs = 10, mc_store_soft_quota_bytes = DEFAULT_STORE_SOFT_QUOTA_BYTES,
      mc_compaction_interval_secs = DEFAULT_COMPACTION_INTERVAL_SECS,
      mc_dns_forwarders = (case cfg_network config of None \<Rightarrow> default_dns_forwarders | Some n \<Rightarrow> net_dns_forwarders n)\<rparr>"

text \<open>What a target answers: the connection fails, the session breaks while the key is read, or the command that reads the key
  ends, with its success and its output. A failure concerns one target; an error ends the enrollment of all.\<close>

datatype target_answer = Connect_Failed string | Session_Broken string | Key_Output bool string

datatype enroll_failure = Unreachable string | Key_Unavailable | Not_Enrolled MembershipError

datatype enroll_error = Broken string | Host_Not_An_Address string | Peer_Host_Not_Ipv4 | Route_Error string

type_synonym enrolled = "((string \<times> MeshConfig) list \<times> MembershipView \<times> (string \<times> enroll_failure) list)"

text \<open>The result: the targets prepared, with their configurations, the view and the failures; an error; or a panic.\<close>

fun enroll_agent_targets ::
  "digest \<Rightarrow> (MembershipRecord \<Rightarrow> string) \<Rightarrow> (string \<Rightarrow> u16 \<Rightarrow> SocketAddr option) \<Rightarrow> Config \<Rightarrow> NetworkPlan \<Rightarrow> u64 \<Rightarrow> MembershipScope \<Rightarrow>
   (string \<times> target_answer) list \<Rightarrow> (string \<times> MeshConfig) list \<Rightarrow> MembershipView \<Rightarrow> (string \<times> enroll_failure) list \<Rightarrow>
   (enroll_error, enrolled) result option" where
  "enroll_agent_targets sha256 hash parse_endpoint config network_plan recovery_epoch sc [] prepared v failed =
     Some (Inr (prepared, v, failed))"
| "enroll_agent_targets sha256 hash parse_endpoint config network_plan recovery_epoch sc ((name, answer) # targets) prepared v failed =
     (let continue = enroll_agent_targets sha256 hash parse_endpoint config network_plan recovery_epoch sc targets;
          prepare = (\<lambda>server_plan v'.
            case peer_public_ips server_plan of
              None \<Rightarrow> Some (Inl Peer_Host_Not_Ipv4)
            | Some peer_ips \<Rightarrow>
                (case agent_routes (cfg_project config) name (cfg_services config) of
                   None \<Rightarrow> None
                 | Some (Inl e) \<Rightarrow> Some (Inl (Route_Error e))
                 | Some (Inr routes) \<Rightarrow>
                     continue (prepared @ [(name, agent_mesh_config sha256 config network_plan recovery_epoch name server_plan peer_ips routes)])
                       v' failed))
      in case answer of
           Connect_Failed e \<Rightarrow> continue prepared v (failed @ [(name, Unreachable e)])
         | _ \<Rightarrow>
             (case map_of (np_servers network_plan) name of
                None \<Rightarrow> None
              | Some server_plan \<Rightarrow>
                  (case answer of
                     Key_Output success output \<Rightarrow>
                       (if \<not> success \<or> trim output = [] then continue prepared v (failed @ [(name, Key_Unavailable)])
                        else case parse_endpoint (sp_public_host server_plan) (sp_wireguard_port server_plan) of
                          None \<Rightarrow> Some (Inl (Host_Not_An_Address name))
                        | Some endpoint \<Rightarrow>
                            (case reconcile_record (membership_get v name)
                                    (candidate_record (cfg_project config) recovery_epoch name server_plan output endpoint) of
                               None \<Rightarrow> prepare server_plan v
                             | Some r \<Rightarrow>
                                 (case membership_apply hash sc v r of
                                    Inl e \<Rightarrow> continue prepared v (failed @ [(name, Not_Enrolled e)])
                                  | Inr (_, v') \<Rightarrow> prepare server_plan v')))
                   | Session_Broken e \<Rightarrow> Some (Inl (Broken e))
                   | Connect_Failed e \<Rightarrow> None)))"

section \<open>Importing on an agent\<close>

text \<open>State of another recovery epoch is moved away first, unless an archive of it already exists; \<^const>\<open>None\<close> is that error.\<close>

definition open_for_membership_import :: "bool \<Rightarrow> u64 \<Rightarrow> AgentStore \<Rightarrow> AgentStore option" where
  "open_for_membership_import archive_exists recovery_epoch existing =
     (let epochs = mr_recovery_epoch ` set (membership_operations existing)
      in if epochs = {} \<or> epochs = {recovery_epoch} then Some existing
         else if archive_exists then None
         else Some store_empty)"

fun import_records ::
  "(MembershipRecord \<Rightarrow> string) \<Rightarrow> (AgentStore \<Rightarrow> u64 \<times> u64) \<Rightarrow> MembershipScope \<Rightarrow> MembershipRecord list \<Rightarrow> AgentStore \<Rightarrow>
   (StoreError, unit) result \<times> AgentStore" where
  "import_records hash usage sc [] st = (Inr (), st)"
| "import_records hash usage sc (r # rs) st =
     (case apply_membership hash (fst (usage st)) (snd (usage st)) sc r st of
        Inl e \<Rightarrow> (Inl e, st)
      | Inr (_, st') \<Rightarrow> import_records hash usage sc rs st')"

definition membership_import ::
  "(MembershipRecord \<Rightarrow> string) \<Rightarrow> (AgentStore \<Rightarrow> u64 \<times> u64) \<Rightarrow> bool \<Rightarrow> MembershipScope \<Rightarrow> MembershipRecord list \<Rightarrow> AgentStore \<Rightarrow>
   (StoreError, unit) result option \<times> AgentStore" where
  "membership_import hash usage archive_exists sc records existing =
     (case open_for_membership_import archive_exists (ms_recovery_epoch sc) existing of
        None \<Rightarrow> (None, existing)
      | Some st \<Rightarrow> (case import_records hash usage sc records st of (res, st') \<Rightarrow> (Some res, st')))"

section \<open>Reconciled records are accepted\<close>

lemma reconcile_None:
  "reconcile_record current candidate = None \<longleftrightarrow>
     (\<exists>c. current = Some c \<and> mr_state c = MActive \<and> mr_wireguard_public_key c = mr_wireguard_public_key candidate \<and>
        mr_endpoints c = mr_endpoints candidate)"
  by (cases current) (auto simp: reconcile_record_def Let_def, (metis MembershipState.exhaust)+)

lemma reconcile_Some:
  assumes "reconcile_record current candidate = Some r"
  shows "\<exists>e n. r = candidate\<lparr>mr_owner_epoch := e, mr_revision := n, mr_state := MActive\<rparr> \<and>
    (case current of
       None \<Rightarrow> e = 1 \<and> n = 1
     | Some c \<Rightarrow>
         (e = mr_owner_epoch c + 1 \<and> n = 1 \<or>
          e = mr_owner_epoch c \<and> n = mr_revision c + 1 \<and> mr_state c = MActive))"
  using assms by (auto simp: reconcile_record_def Let_def split: option.splits if_splits)
    (metis MembershipState.exhaust)+

text \<open>A view of records that were applied or skipped is the replay of the records applied.\<close>

lemma skip_replay:
  "\<exists>ks. set ks \<subseteq> set rs \<and> replay (membership_apply hash sc) v ks = Inr (foldl (apply_or_skip hash sc) v rs)"
proof (induction rs arbitrary: v)
  case (Cons r rs)
  show ?case
  proof (cases "membership_apply hash sc v r")
    case (Inl e)
    with Cons [of v] show ?thesis by (auto simp: apply_or_skip_def)
  next
    case (Inr ov)
    obtain out v' where ov: "ov = (out, v')" by (cases ov)
    obtain ks where "set ks \<subseteq> set rs" "replay (membership_apply hash sc) v' ks = Inr (foldl (apply_or_skip hash sc) v' rs)"
      using Cons [of v'] by blast
    moreover have "apply_or_skip hash sc v r = v'" using Inr ov by (simp add: apply_or_skip_def)
    ultimately show ?thesis using Inr ov by (intro exI [of _ "r # ks"]) auto
  qed
qed (auto intro: exI [of _ "[]"])

lemma word_succ: "x < - 1 \<Longrightarrow> x < x + 1 \<and> x + 1 \<noteq> 0" for x :: u64
proof -
  assume "x < - 1"
  then have "x \<noteq> - 1" by auto
  then have ne: "x + 1 \<noteq> 0" by (simp add: add_eq_0_iff2)
  then have "unat (x + 1) = Suc (unat x)" using unatSuc [of x] by (simp add: add.commute)
  with ne show ?thesis by (simp add: word_less_nat_alt)
qed

lemma reconcile_ahead:
  assumes room: "mr_owner_epoch c < - 1 \<and> mr_revision c < - 1" and r: "reconcile_record (Some c) cand = Some r"
  shows "mr_owner_epoch c \<le> mr_owner_epoch r \<and> mord hash c < mord hash r \<and>
    \<not> (mr_state c = MTombstoned \<and> mr_state r = MActive \<and> mr_owner_epoch r = mr_owner_epoch c)"
proof -
  have "mr_owner_epoch c < mr_owner_epoch c + 1" "mr_revision c < mr_revision c + 1" using room word_succ by blast+
  then show ?thesis using reconcile_Some [OF r] by (auto simp: membership_order_def less_prod_def')
qed

lemma reconcile_new:
  assumes v: "v = foldl (apply_or_skip hash sc) membership_empty known" and inj: "inj_on hash (insert r (set known))"
    and room: "\<forall>c. membership_get v (mr_node_id cand) = Some c \<longrightarrow> mr_owner_epoch c < - 1 \<and> mr_revision c < - 1"
    and r: "reconcile_record (membership_get v (mr_node_id cand)) cand = Some r"
  shows "hash r \<notin> mv_record_ids v"
proof
  assume "hash r \<in> mv_record_ids v"
  obtain ks where ks: "set ks \<subseteq> set known" "replay (membership_apply hash sc) membership_empty ks = Inr v"
    using skip_replay [of known hash sc membership_empty] v by blast
  have "mv_record_ids v = hash ` set ks" using mview.replay_facts [OF ks(2)] by blast
  then have "r \<in> set ks" using \<open>hash r \<in> mv_record_ids v\<close> inj ks(1) by (auto dest!: inj_onD [of hash])
  moreover have "inj_on hash (set ks)" using inj ks(1) by (auto intro: inj_on_subset)
  ultimately obtain c where c: "map_of (mv_records v) (mr_node_id r) = Some c" "mord hash r \<le> mord hash c"
    using mview.replay_winner_max [OF ks(2)] by blast
  have "mr_node_id r = mr_node_id cand" using reconcile_Some [OF r] by auto
  then have "membership_get v (mr_node_id cand) = Some c" using c(1) by (simp add: membership_get_def)
  then have "mord hash c < mord hash r" using reconcile_ahead [of c cand r hash] room r by simp
  with c(2) show False by simp
qed

lemma reconcile_accepted:
  assumes adm: "mr_project_id cand = ms_project_id sc" "mr_recovery_epoch cand = ms_recovery_epoch sc" "membership_validate cand = Inr ()"
    and inv: "membership_inv sc v"
    and free: "\<forall>r \<in> set (membership_active v). mr_node_id r \<noteq> mr_node_id cand \<longrightarrow> no_claim_collision r cand"
    and room: "\<forall>c. membership_get v (mr_node_id cand) = Some c \<longrightarrow> mr_owner_epoch c < - 1 \<and> mr_revision c < - 1"
    and r: "reconcile_record (membership_get v (mr_node_id cand)) cand = Some r" and new: "hash r \<notin> mv_record_ids v"
  shows "membership_apply hash sc v r = Inr (Applied, \<lparr>mv_records = bt_insert (mr_node_id cand) r (mv_records v),
      mv_record_ids = insert (hash r) (mv_record_ids v)\<rparr>)"
proof -
  obtain e n where en: "r = cand\<lparr>mr_owner_epoch := e, mr_revision := n, mr_state := MActive\<rparr>"
    and cur: "case membership_get v (mr_node_id cand) of None \<Rightarrow> e = 1 \<and> n = 1
     | Some c \<Rightarrow> e = mr_owner_epoch c + 1 \<and> n = 1 \<or> e = mr_owner_epoch c \<and> n = mr_revision c + 1 \<and> mr_state c = MActive"
    using reconcile_Some [OF r] by blast
  have pos: "mr_owner_epoch c \<noteq> 0" if "membership_get v (mr_node_id cand) = Some c" for c
  proof -
    have "membership_admissible sc c" using inv bt_get_Some_mem [OF that [unfolded membership_get_def]] by (simp add: membership_inv_def membership_all_def)
    then show ?thesis by (auto simp: membership_admissible_def membership_validate_def split: if_splits)
  qed
  have "e \<noteq> 0" "n \<noteq> 0"
    using cur word_succ room pos by (auto split: option.splits)
  then have valid: "membership_admissible sc r"
    using adm by (auto simp: membership_admissible_def membership_validate_def en split: if_splits)
  have rej: "reject_claim_collisions v r = Inr ()"
    using free by (auto simp: reject_claim_collisions_Inr no_claim_collision_def en membership_active_def)
  have ord: "mr_owner_epoch c \<le> mr_owner_epoch r \<and> mord hash c < mord hash r \<and>
      \<not> (mr_state c = MTombstoned \<and> mr_state r = MActive \<and> mr_owner_epoch r = mr_owner_epoch c)"
    if c: "membership_get v (mr_node_id cand) = Some c" for c
    using reconcile_ahead [of c cand r hash] room r c by simp
  show ?thesis
    unfolding membership_apply_Inr using valid new rej ord by (auto simp: en membership_get_def)
qed

text \<open>A new node at an address another active member claims is refused.\<close>

lemma claimed_address_refused:
  assumes inv: "membership_inv sc v" and c: "membership_get v name = Some c" "mr_state c = MActive"
    and r: "mr_state r = MActive" "mr_node_id r \<noteq> name" "membership_get v (mr_node_id r) = None" "hash r \<notin> mv_record_ids v"
      "mr_management_address r = mr_management_address c"
  shows "\<exists>e. membership_apply hash sc v r = Inl e"
proof -
  have k: "keyed mr_node_id (mv_records v)" using inv by (simp add: membership_inv_def)
  have "mr_node_id c = name" using k c(1) by (simp add: keyed_def membership_get_def)
  moreover have "c \<in> set (bt_values (mv_records v))" using bt_get_Some_mem c(1) by (simp add: membership_get_def)
  ultimately have "reject_claim_collisions v r \<noteq> Inr ()"
    using c(2) r(2,5) unfolding reject_claim_collisions_Inr by (auto simp: no_claim_collision_def)
  then have "membership_apply hash sc v r \<noteq> Inr (out, v')" for out v'
    using r unfolding membership_apply_Inr by (auto simp: membership_get_def)
  then show ?thesis by (cases "membership_apply hash sc v r") auto
qed

section \<open>One target\<close>

text \<open>A target that reports a key, can be reached at an address, has peers with IPv4 hosts and services whose routes can be rendered.\<close>

definition can_prepare ::
  "(string \<Rightarrow> u16 \<Rightarrow> SocketAddr option) \<Rightarrow> Config \<Rightarrow> NetworkPlan \<Rightarrow> string \<Rightarrow> ServerPlan \<Rightarrow> SocketAddr \<Rightarrow> bool" where
  "can_prepare parse_endpoint config network_plan name server_plan endpoint \<longleftrightarrow>
     map_of (np_servers network_plan) name = Some server_plan \<and>
     parse_endpoint (sp_public_host server_plan) (sp_wireguard_port server_plan) = Some endpoint \<and>
     (\<forall>peer \<in> set (sp_peers server_plan). parse_ipv4 (peer_host peer) \<noteq> None) \<and>
     (\<exists>routes. agent_routes (cfg_project config) name (cfg_services config) = Some (Inr routes))"

lemma enroll_prepared:
  assumes "can_prepare parse_endpoint config network_plan name server_plan endpoint" "trim key \<noteq> []"
  obtains mesh where "mc_node_id mesh = name"
    "\<And>targets prepared v failed.
     enroll_agent_targets sha256 hash parse_endpoint config network_plan epoch sc ((name, Key_Output True key) # targets) prepared v failed =
      (case reconcile_record (membership_get v name) (candidate_record (cfg_project config) epoch name server_plan key endpoint) of
         None \<Rightarrow> enroll_agent_targets sha256 hash parse_endpoint config network_plan epoch sc targets (prepared @ [(name, mesh)]) v failed
       | Some r \<Rightarrow>
           (case membership_apply hash sc v r of
              Inl e \<Rightarrow> enroll_agent_targets sha256 hash parse_endpoint config network_plan epoch sc targets prepared v (failed @ [(name, Not_Enrolled e)])
            | Inr (_, v') \<Rightarrow>
                enroll_agent_targets sha256 hash parse_endpoint config network_plan epoch sc targets (prepared @ [(name, mesh)]) v' failed))"
proof -
  obtain ips routes where ok: "peer_public_ips server_plan = Some ips"
    "agent_routes (cfg_project config) name (cfg_services config) = Some (Inr routes)"
    using assms(1) collect_options_total unfolding can_prepare_def peer_public_ips_def by metis
  show thesis
    by (rule that [of "agent_mesh_config sha256 config network_plan epoch name server_plan ips routes"])
      (use assms ok in \<open>auto simp: can_prepare_def agent_mesh_config_def Let_def split: option.splits sum.splits\<close>)
qed

section \<open>Sample server\<close>

definition demo_server_plan :: "Ipv4Addr \<Rightarrow> ServerPlan" where
  "demo_server_plan a =
     \<lparr>sp_name = ''s'', sp_public_host = ''h'', sp_management_address = a, sp_container_subnet = Ipv4Cidr 0 24, sp_bridge_gateway = 0,
      sp_dns_address = 0, sp_proxy_address = 0, sp_wireguard_port = 1, sp_wireguard_interface = [], sp_bridge_interface = [],
      sp_bridge_name = [],
      sp_peers = [\<lparr>wp_server = ''b'', wp_endpoint = ''0.0.0.9:51820'', wp_management_address = 11, wp_allowed_ips = []\<rparr>],
      sp_routes = [], sp_firewall = \<lparr>fp_local_container_subnet = Ipv4Cidr 0 24, fp_remote_container_subnets = []\<rparr>\<rparr>"

definition demo_plan :: "(string \<times> ServerPlan) list \<Rightarrow> NetworkPlan" where
  "demo_plan servers =
     \<lparr>np_enabled = True, np_project = ''p'', np_management_cidr = Ipv4Cidr 0 24, np_container_cidr = Ipv4Cidr 0 24,
      np_servers = servers, np_endpoints = [], np_mesh_generation = []\<rparr>"

definition demo_mesh_config :: Config where
  "demo_mesh_config =
     \<lparr>cfg_project = ''p'',
      cfg_builder = \<lparr>b_engine = Docker, b_remote = None, b_cache = True, b_registry = default_registry\<rparr>,
      cfg_servers = [], cfg_services = [(''web'', default_service\<lparr>svc_servers := [''c'']\<rparr>)], cfg_ssh = None, cfg_network = None,
      cfg_secrets_path = None, cfg_secrets = None, cfg_environment = None\<rparr>"

abbreviation at_nine :: "string \<Rightarrow> u16 \<Rightarrow> SocketAddr option" where
  "at_nine \<equiv> \<lambda>_ _. Some (SocketAddr (V4 9) 1)"

abbreviation at_seven :: "string \<Rightarrow> u16 \<Rightarrow> SocketAddr option" where
  "at_seven \<equiv> \<lambda>_ _. Some (SocketAddr (V4 7) 1)"

lemma demo_can_prepare:
  assumes "map_of servers name = Some (demo_server_plan a)"
  shows "can_prepare (\<lambda>_ _. Some endpoint) demo_mesh_config (demo_plan servers) name (demo_server_plan a) endpoint"
proof -
  have "show_ipv4 9 = ''0.0.0.9''" by (simp add: show_ipv4_def octets_def show_nat_small digit_char_def char_of_eq_iff)
  then have "parse_ipv4 ''0.0.0.9'' \<noteq> None" using parse_show_ipv4 [of 9] by simp
  moreover have "rsplit_once (CHR '':'') ''0.0.0.9:51820'' = Some (''0.0.0.9'', ''51820'')" by (simp add: rsplit_once_def)
  moreover have "svc_proxy default_service = None" by (simp add: default_service_def)
  ultimately show ?thesis
    using assms by (simp add: can_prepare_def demo_plan_def demo_server_plan_def peer_host_def demo_mesh_config_def)
qed

lemma demo_view_inv: "membership_inv demo_scope demo_view"
  using membership_inv_from_records [of demo_hash demo_scope "[node_a, node_b]" demo_view]
  by (simp add: demo_steps)

lemma demo_view_get:
  "membership_get demo_view ''a'' = Some node_a" "membership_get demo_view ''c'' = None"
  by (simp_all add: membership_get_def demo_view_def)

lemma demo_view_known: "demo_view = foldl (apply_or_skip demo_hash demo_scope) membership_empty [node_a, node_b]"
  by (simp add: apply_or_skip_def demo_steps)

section \<open>Properties\<close>

text \<open>C20. Enrolling a server converges. The membership is the view of the records the mesh knows, gathered and decommissioned. When
  the server reports a key, its host and the hosts of its peers are addresses, the routes of its services can be rendered, and its planned
  name, address, subnet and key are not claimed by another active member, enrolling it prepares it and leaves an active record with its
  key and endpoint, touches no other member, and enrolling it again changes nothing. Hashes do not collide and the epoch and
  revision of its record are not at the end of their range.\<close>

theorem enrollment_converges:
  fixes network_plan :: NetworkPlan
  assumes names: "cfg_project config \<noteq> []" "name \<noteq> []" and key: "trim key \<noteq> []"
    and can: "can_prepare parse_endpoint config network_plan name sp endpoint" "cidr_wf (sp_container_subnet sp)"
    and v: "v = foldl (apply_or_skip hash (project_scope (cfg_project config) epoch)) membership_empty known"
    and free: "\<forall>r \<in> set (membership_active v). mr_node_id r \<noteq> name \<longrightarrow>
      no_claim_collision r (candidate_record (cfg_project config) epoch name sp key endpoint)"
    and room: "\<forall>c. membership_get v name = Some c \<longrightarrow> mr_owner_epoch c < - 1 \<and> mr_revision c < - 1"
    and collision_free: "\<forall>r. reconcile_record (membership_get v name) (candidate_record (cfg_project config) epoch name sp key endpoint) = Some r \<longrightarrow>
      inj_on hash (insert r (set known))"
  shows "\<exists>v' r mesh. mc_node_id mesh = name \<and>
    enroll_agent_targets sha256 hash parse_endpoint config network_plan epoch (project_scope (cfg_project config) epoch)
      [(name, Key_Output True key)] [] v [] = Some (Inr ([(name, mesh)], v', [])) \<and>
    membership_get v' name = Some r \<and> mr_state r = MActive \<and> mr_wireguard_public_key r = trim key \<and> mr_endpoints r = [endpoint] \<and>
    (\<forall>other. other \<noteq> name \<longrightarrow> membership_get v' other = membership_get v other) \<and>
    enroll_agent_targets sha256 hash parse_endpoint config network_plan epoch (project_scope (cfg_project config) epoch)
      [(name, Key_Output True key)] [] v' [] = Some (Inr ([(name, mesh)], v', []))"
proof -
  let ?sc = "project_scope (cfg_project config) epoch" and ?cand = "candidate_record (cfg_project config) epoch name sp key endpoint"
  have cand: "mr_project_id ?cand = ms_project_id ?sc" "mr_recovery_epoch ?cand = ms_recovery_epoch ?sc" "membership_validate ?cand = Inr ()"
    "mr_node_id ?cand = name" "mr_wireguard_public_key ?cand = trim key" "mr_endpoints ?cand = [endpoint]"
    using names key can(2) by (simp_all add: candidate_record_def membership_validate_def parse_show_cidr)
  obtain mesh where mesh: "mc_node_id mesh = name"
    and enroll: "\<And>u. enroll_agent_targets sha256 hash parse_endpoint config network_plan epoch ?sc [(name, Key_Output True key)] [] u [] =
      (case reconcile_record (membership_get u name) ?cand of
         None \<Rightarrow> Some (Inr ([(name, mesh)], u, []))
       | Some r \<Rightarrow> (case membership_apply hash ?sc u r of
           Inl e \<Rightarrow> Some (Inr ([], u, [(name, Not_Enrolled e)])) | Inr (_, u') \<Rightarrow> Some (Inr ([(name, mesh)], u', []))))"
    by (rule enroll_prepared [OF can(1) key, of sha256 hash epoch ?sc]) (auto split: option.splits sum.splits)
  obtain ks where "replay (membership_apply hash ?sc) membership_empty ks = Inr v"
    using skip_replay [of known hash ?sc membership_empty] v by blast
  then have inv: "membership_inv ?sc v" by (rule membership_inv_from_records)
  show ?thesis
  proof (cases "reconcile_record (membership_get v name) ?cand")
    case None
    then obtain c where c: "membership_get v name = Some c" "mr_state c = MActive" "mr_wireguard_public_key c = trim key"
      "mr_endpoints c = [endpoint]"
      by (auto simp: reconcile_None cand)
    from None have "enroll_agent_targets sha256 hash parse_endpoint config network_plan epoch ?sc [(name, Key_Output True key)] [] v [] =
        Some (Inr ([(name, mesh)], v, []))"
      unfolding enroll by simp
    with c mesh show ?thesis by blast
  next
    case (Some r)
    define v' where "v' = \<lparr>mv_records = bt_insert name r (mv_records v), mv_record_ids = insert (hash r) (mv_record_ids v)\<rparr>"
    have "inj_on hash (insert r (set known))" using collision_free Some by blast
    then have "hash r \<notin> mv_record_ids v" by (rule reconcile_new [OF v, of r ?cand, unfolded cand(4), OF _ room Some])
    then have ap: "membership_apply hash ?sc v r = Inr (Applied, v')"
      using reconcile_accepted [OF cand(1-3) inv, unfolded cand(4), OF free room Some] by (simp add: v'_def)
    have r: "mr_state r = MActive" "mr_wireguard_public_key r = trim key" "mr_endpoints r = [endpoint]"
      using reconcile_Some [OF Some] cand by auto
    have get: "membership_get v' m = (if m = name then Some r else membership_get v m)" for m
      by (simp add: v'_def membership_get_def)
    have again: "reconcile_record (membership_get v' name) ?cand = None" using r by (auto simp: reconcile_None get cand)
    show ?thesis
      by (intro exI [of _ v'] exI [of _ r] exI [of _ mesh]) (simp only: enroll Some again, simp add: ap get r mesh)
  qed
qed

theorem enrollment_converges_witness:
  "\<exists>v' r mesh. enroll_agent_targets (\<lambda>_. []) demo_hash at_nine demo_mesh_config (demo_plan [(''c'', demo_server_plan 12)]) 1 demo_scope
     [(''c'', Key_Output True ''kc'')] [] demo_view [] = Some (Inr ([(''c'', mesh)], v', [])) \<and>
     membership_get v' ''c'' = Some r \<and> mr_state r = MActive \<and> membership_get v' ''a'' = Some node_a"
proof -
  let ?cand = "candidate_record ''p'' 1 ''c'' (demo_server_plan 12) ''kc'' (SocketAddr (V4 9) 1)"
  have sc: "demo_scope = project_scope (cfg_project demo_mesh_config) 1" and project: "cfg_project demo_mesh_config = ''p''"
    by (simp_all add: demo_scope_def demo_mesh_config_def)
  have trim: "trim ''kc'' = ''kc''" by (simp add: is_plain_def is_whitespace_def)
  have can: "can_prepare at_nine demo_mesh_config (demo_plan [(''c'', demo_server_plan 12)]) ''c'' (demo_server_plan 12) (SocketAddr (V4 9) 1)"
    by (rule demo_can_prepare) simp
  have "show_cidr (Ipv4Cidr 0 24) = ''0.0.0.0/24''" by (simp add: show_cidr_def show_ipv4_def octets_def show_nat_small show_nat_step digit_char_def char_of_eq_iff)
  then have free: "\<forall>r \<in> set (membership_active demo_view). mr_node_id r \<noteq> ''c'' \<longrightarrow> no_claim_collision r ?cand"
    using trim by (auto simp: membership_active_def demo_view_def bt_values_def demo_member_def no_claim_collision_def candidate_record_def
        demo_server_plan_def)
  have inj: "\<forall>r. reconcile_record (membership_get demo_view ''c'') ?cand = Some r \<longrightarrow> inj_on demo_hash (insert r (set [node_a, node_b]))"
    by (auto dest!: reconcile_Some simp: candidate_record_def demo_hash_def demo_member_def inj_on_def)
  have "cidr_wf (sp_container_subnet (demo_server_plan 12))" by (simp add: cidr_wf_iff demo_server_plan_def)
  note run = enrollment_converges [of demo_mesh_config "''c''" "''kc''", OF _ _ _ can this demo_view_known [unfolded sc], unfolded project, OF _ _ _ free _ inj]
  from run [of "\<lambda>_. []"] show ?thesis
    unfolding sc project using trim by (auto simp: demo_view_get)
qed

text \<open>A moved address blocks enrollment. A member whose key and endpoint are unchanged keeps its record whatever address the plan
  now gives it, so a new server that was given its former address is refused, however often setup runs.\<close>

theorem moved_address_blocks_enrollment:
  assumes inv: "membership_inv sc v"
    and c: "membership_get v name = Some c" "mr_state c = MActive" "mr_wireguard_public_key c = trim key" "mr_endpoints c = [endpoint]"
    and t: "trim key \<noteq> []" "can_prepare parse_endpoint config network_plan name sp endpoint"
      "trim key' \<noteq> []" "can_prepare parse_endpoint config network_plan other sp' endpoint'"
    and other: "other \<noteq> name" "membership_get v other = None" "sp_management_address sp' = mr_management_address c"
      "\<forall>r. reconcile_record None (candidate_record (cfg_project config) epoch other sp' key' endpoint') = Some r \<longrightarrow> hash r \<notin> mv_record_ids v"
  shows "\<exists>e mesh. enroll_agent_targets sha256 hash parse_endpoint config network_plan epoch sc
      [(name, Key_Output True key), (other, Key_Output True key')] [] v [] =
    Some (Inr ([(name, mesh)], v, [(other, Not_Enrolled e)]))"
proof -
  let ?cand' = "candidate_record (cfg_project config) epoch other sp' key' endpoint'"
  have kept: "reconcile_record (membership_get v name) (candidate_record (cfg_project config) epoch name sp key endpoint) = None"
    using c by (simp add: reconcile_None candidate_record_def)
  define r where "r = ?cand'\<lparr>mr_owner_epoch := 1, mr_revision := 1, mr_state := MActive\<rparr>"
  have r: "reconcile_record (membership_get v other) ?cand' = Some r" by (simp add: reconcile_record_def other(2) r_def)
  have "mr_state r = MActive" "mr_node_id r \<noteq> name" "membership_get v (mr_node_id r) = None" "mr_management_address r = mr_management_address c"
    "hash r \<notin> mv_record_ids v"
    using other r by (simp_all add: r_def candidate_record_def)
  then obtain e where refused: "membership_apply hash sc v r = Inl e"
    using claimed_address_refused [OF inv c(1,2), of r hash] by blast
  obtain mesh where one: "\<And>targets prepared u failed.
     enroll_agent_targets sha256 hash parse_endpoint config network_plan epoch sc ((name, Key_Output True key) # targets) prepared u failed =
      (case reconcile_record (membership_get u name) (candidate_record (cfg_project config) epoch name sp key endpoint) of
         None \<Rightarrow> enroll_agent_targets sha256 hash parse_endpoint config network_plan epoch sc targets (prepared @ [(name, mesh)]) u failed
       | Some r \<Rightarrow>
           (case membership_apply hash sc u r of
              Inl e \<Rightarrow> enroll_agent_targets sha256 hash parse_endpoint config network_plan epoch sc targets prepared u (failed @ [(name, Not_Enrolled e)])
            | Inr (_, v') \<Rightarrow>
                enroll_agent_targets sha256 hash parse_endpoint config network_plan epoch sc targets (prepared @ [(name, mesh)]) v' failed))"
    by (rule enroll_prepared [OF t(2,1), of sha256 hash epoch sc]) blast
  have two: "enroll_agent_targets sha256 hash parse_endpoint config network_plan epoch sc [(other, Key_Output True key')] prepared v [] =
      Some (Inr (prepared, v, [(other, Not_Enrolled e)]))" for prepared
    by (rule enroll_prepared [OF t(4,3), of sha256 hash epoch sc]) (simp add: r refused)
  show ?thesis unfolding one kept option.case two by auto
qed

theorem moved_address_blocks_enrollment_witness:
  "\<exists>e mesh. enroll_agent_targets (\<lambda>_. []) demo_hash at_seven demo_mesh_config
       (demo_plan [(''a'', demo_server_plan 20), (''c'', demo_server_plan 10)]) 1 demo_scope
     [(''a'', Key_Output True ''ka''), (''c'', Key_Output True ''kc'')] [] demo_view [] =
     Some (Inr ([(''a'', mesh)], demo_view, [(''c'', Not_Enrolled e)]))"
proof -
  have trim: "trim ''ka'' = ''ka''" "trim ''kc'' = ''kc''" by (simp_all add: is_plain_def is_whitespace_def)
  have can: "can_prepare at_seven demo_mesh_config (demo_plan [(''a'', demo_server_plan 20), (''c'', demo_server_plan 10)]) ''a'' (demo_server_plan 20) (SocketAddr (V4 7) 1)"
    "can_prepare at_seven demo_mesh_config (demo_plan [(''a'', demo_server_plan 20), (''c'', demo_server_plan 10)]) ''c'' (demo_server_plan 10) (SocketAddr (V4 7) 1)"
    by (rule demo_can_prepare, simp)+
  have "\<forall>r. reconcile_record None (candidate_record (cfg_project demo_mesh_config) 1 ''c'' (demo_server_plan 10) ''kc'' (SocketAddr (V4 7) 1)) = Some r \<longrightarrow>
      demo_hash r \<notin> mv_record_ids demo_view"
    by (auto dest!: reconcile_Some simp: candidate_record_def demo_hash_def demo_view_def)
  with trim show ?thesis
    using moved_address_blocks_enrollment [OF demo_view_inv demo_view_get(1) _ _ _ _ can(1) _ can(2), of "''ka''" "''kc''"]
    by (simp add: demo_member_def demo_server_plan_def demo_view_get)
qed

text \<open>The order of the pushed records can block an import. The records are applied by node id and the first refusal ends
  the import. An agent that has not seen a tombstone yet refuses the new owner of the address when its record comes first; the
  import then changes nothing, so it fails in the same way every time, although the tombstone is in the same update.\<close>

theorem import_blocked_by_order:
  assumes inv: "membership_store_inv hash sc st" and quota: "as_soft_quota_bytes st = None"
    and known: "\<forall>x \<in> set xs. hash x \<in> fst ` set (as_membership_operations st)"
    and v: "membership_from_records hash sc (membership_operations st) = Inr v"
    and c: "membership_get v name = Some c" "mr_state c = MActive"
    and r: "mr_state r = MActive" "mr_node_id r \<noteq> name" "membership_get v (mr_node_id r) = None"
      "hash r \<notin> fst ` set (as_membership_operations st)" "mr_management_address r = mr_management_address c"
  shows "\<exists>e. import_records hash usage sc (xs @ r # ys) st = (Inl (SMembership e), st)"
proof -
  have skip: "import_records hash usage sc (xs @ zs) st = import_records hash usage sc zs st" for zs
    using known by (induction xs) (auto simp: apply_membership_def)
  have ids: "mv_record_ids v = fst ` set (as_membership_operations st)"
  proof -
    have "mv_record_ids v = hash ` set (membership_operations st)"
      using mview.replay_facts [OF v [unfolded membership_from_records_def]] by blast
    also have "\<dots> = set (map hash (map snd (as_membership_operations st)))" by (simp only: membership_operations_def list.set_map)
    finally show ?thesis unfolding log_ok_ids [OF inv [unfolded membership_store_inv_def]] by simp
  qed
  have minv: "membership_inv sc v" using membership_inv_from_records v by (simp add: membership_from_records_def)
  have "hash r \<notin> mv_record_ids v" using r(4) ids by simp
  then obtain e where "membership_apply hash sc v r = Inl e"
    using claimed_address_refused [where hash = hash, OF minv c r(1-3) _ r(5)] by blast
  moreover have "ensure_replication_capacity pages page_size st = Inr ()" for pages page_size
    using quota by (simp add: ensure_replication_capacity_def)
  ultimately have "apply_membership hash pages page_size sc r st = Inl (SMembership e)" for pages page_size
    using apply_membership_new [OF inv r(4) _ v, of pages page_size] by simp
  then show ?thesis unfolding skip by simp
qed

theorem import_blocked_by_order_witness:
  "\<exists>e. import_records demo_hash (\<lambda>_. (0, 0)) demo_scope
     [demo_member ''aa'' 11 ''10.0.2.0/24'' 1 1 MActive, demo_member ''b'' 11 ''10.0.1.0/24'' 1 2 MTombstoned] demo_store =
     (Inl (SMembership e), demo_store)"
proof -
  let ?r = "demo_member ''aa'' 11 ''10.0.2.0/24'' 1 1 MActive"
  let ?v = "\<lparr>mv_records = [(''a'', node_a_gone), (''b'', node_b)], mv_record_ids = {''a2'', ''a1'', ''b1''}\<rparr>"
  have v: "membership_from_records demo_hash demo_scope (membership_operations demo_store) = Inr ?v"
    by (simp add: demo_store_def membership_operations_def membership_from_records_def demo_steps)
  have "as_soft_quota_bytes demo_store = None" by (simp add: demo_store_def store_empty_def)
  moreover have "membership_get ?v ''b'' = Some node_b" by (simp add: membership_get_def)
  moreover have "mr_state node_b = MActive" "mr_state ?r = MActive" "mr_node_id ?r \<noteq> ''b''" "membership_get ?v (mr_node_id ?r) = None"
    "demo_hash ?r \<notin> fst ` set (as_membership_operations demo_store)" "mr_management_address ?r = mr_management_address node_b"
    by (simp_all add: demo_member_def membership_get_def demo_hash_def demo_store_def)
  ultimately have "\<exists>e. import_records demo_hash (\<lambda>_. (0, 0)) demo_scope ([] @ ?r # [demo_member ''b'' 11 ''10.0.1.0/24'' 1 2 MTombstoned]) demo_store =
      (Inl (SMembership e), demo_store)"
    by (intro import_blocked_by_order [OF demo_store_inv(1) _ _ v, where name = "''b''" and c = node_b]) simp_all
  then show ?thesis by simp
qed

end
