(* ===== verification/Validation.thy ===== *)
theory Validation
  imports Schema Remote_Builder "HOL-Library.Multiset"
begin

text \<open>
  The configuration checks of \<^verbatim>\<open>crates/jiji-config/src/validation.rs\<close>: every rule with its path,
  message and code, in the order the code reports them.  A function that pushes onto the caller's
  error vector returns the errors it pushes.  The cron expression parser and the time zone
  database are third-party code and are the arguments \<open>schedule_of\<close> and \<open>timezone_of\<close>; the
  YAML value, its mapping view and its decoding into a configuration are arguments of
  \<open>validate_yaml\<close>.

  The lemmas say when each rule is silent.  The properties are what an accepted configuration
  guarantees to the rest of the program, and that the verdict does not depend on the order in
  which a hash map yields its entries.
\<close>

section \<open>Results\<close>

record ValidationError =
  ve_path :: string
  ve_message :: string
  ve_code :: string

record ValidationWarning =
  vw_path :: string
  vw_message :: string
  vw_code :: string

record ValidationResult =
  vr_valid :: bool
  vr_errors :: "ValidationError list"
  vr_warnings :: "ValidationWarning list"

definition MAX_SERVICES :: nat where "MAX_SERVICES = 500"
definition MAX_REPLICAS :: nat where "MAX_REPLICAS = 2000"
definition MAX_NODES :: nat where "MAX_NODES = 32"
definition MAX_CRONS_PER_SERVICE :: nat where "MAX_CRONS_PER_SERVICE = 32"
definition MAX_CRONS_PER_PROJECT :: nat where "MAX_CRONS_PER_PROJECT = 1000"

definition REQUIRED_TOP_LEVEL :: "string list" where
  "REQUIRED_TOP_LEVEL = [''project'', ''builder'', ''servers'', ''services'']"

text \<open>One conditional \<^verbatim>\<open>errors.push\<close>.\<close>

definition push_if :: "bool \<Rightarrow> string \<Rightarrow> string \<Rightarrow> string \<Rightarrow> ValidationError list" where
  "push_if b path msg code =
     (if b then [\<lparr>ve_path = path, ve_message = msg, ve_code = code\<rparr>] else [])"

definition quoted :: "string \<Rightarrow> string" where
  "quoted s = [CHR 0x27] @ s @ [CHR 0x27]"

lemma push_if_Nil [simp]: "push_if b path msg code = [] \<longleftrightarrow> \<not> b"
  by (simp add: push_if_def)

section \<open>Cron jobs\<close>

definition validate_cron_name :: "string \<Rightarrow> (string, unit) result" where
  "validate_cron_name name =
     (if name = [] then Inl ''cron name must not be empty''
      else if length name > 63
      then Inl (''cron name is '' @ show_nat (length name) @ '' characters, longer than the 63-character limit'')
      else if \<not> (list_all (\<lambda>c. is_ascii_lowercase c \<or> is_ascii_digit c \<or> c = CHR ''-'') name
                 \<and> \<not> starts_with name ''-'' \<and> \<not> ends_with name ''-'')
      then Inl ''cron name must be lowercase alphanumeric characters and hyphens, and cannot start or end with a hyphen''
      else Inr ())"

definition validate_cron_schedule :: "(string \<Rightarrow> (string, unit) result) \<Rightarrow> string \<Rightarrow> (string, unit) result" where
  "validate_cron_schedule schedule_of expression =
     (let field_count = length (split_whitespace expression) in
      if field_count \<noteq> 5
      then Inl (''must have exactly 5 space-separated fields (minute hour day-of-month month day-of-week); found ''
                @ show_nat field_count @ '' field(s). Seconds fields and aliases like '' @ quoted ''@daily''
                @ '' are not supported'')
      else schedule_of (''0 '' @ expression))"

definition validate_cron_timezone :: "(string \<Rightarrow> (string, unit) result) \<Rightarrow> string \<Rightarrow> (string, unit) result" where
  "validate_cron_timezone timezone_of name = timezone_of name"

definition command_is_empty :: "CommandValue \<Rightarrow> bool" where
  "command_is_empty command =
     (case command of
        CommandSingle s \<Rightarrow> trim s = []
      | CommandMultiple parts \<Rightarrow> parts = [] \<or> list_all (\<lambda>p. trim p = []) parts)"

definition validate_cron ::
  "(string \<Rightarrow> (string, unit) result) \<Rightarrow> (string \<Rightarrow> (string, unit) result) \<Rightarrow> string \<Rightarrow> string \<times> CronConfig
   \<Rightarrow> ValidationError list" where
  "validate_cron schedule_of timezone_of service_name = (\<lambda>(cron_name, cron).
     let path = ''services.'' @ service_name @ ''.crons.'' @ cron_name;
         this = ''Cron '' @ quoted cron_name @ '' on service '' @ quoted service_name
     in (case validate_cron_name cron_name of
           Inl msg \<Rightarrow> push_if True path (this @ '': '' @ msg) ''CRON_NAME_INVALID''
         | Inr _ \<Rightarrow> []) @
        (case validate_cron_schedule schedule_of (cron_schedule cron) of
           Inl msg \<Rightarrow>
             push_if True (path @ ''.schedule'')
               (this @ '' has an invalid schedule '' @ quoted (cron_schedule cron) @ '': '' @ msg)
               ''CRON_SCHEDULE_INVALID''
         | Inr _ \<Rightarrow> []) @
        (case validate_cron_timezone timezone_of (cron_timezone cron) of
           Inl msg \<Rightarrow>
             push_if True (path @ ''.timezone'')
               (this @ '' has an invalid timezone '' @ quoted (cron_timezone cron) @ '': '' @ msg)
               ''CRON_TIMEZONE_INVALID''
         | Inr _ \<Rightarrow> []) @
        push_if (command_is_empty (cron_command cron)) (path @ ''.command'')
          (this @ '' must specify a non-empty command'') ''CRON_COMMAND_EMPTY'' @
        push_if (case timeout_duration cron of Some (Some duration) \<Rightarrow> duration = 0 | _ \<Rightarrow> True)
          (path @ ''.timeout'')
          (this @ '' has an invalid timeout '' @ quoted (cron_timeout cron)
           @ '': expected a positive duration like '' @ quoted ''30s'' @ '', '' @ quoted ''5m'' @ '', or ''
           @ quoted ''1h'')
          ''CRON_TIMEOUT_INVALID'')"

definition validate_service_crons ::
  "(string \<Rightarrow> (string, unit) result) \<Rightarrow> (string \<Rightarrow> (string, unit) result) \<Rightarrow> string \<Rightarrow> Service
   \<Rightarrow> ValidationError list" where
  "validate_service_crons schedule_of timezone_of service_name service =
     (if svc_crons service = [] then []
      else
        push_if (network_mode_dependency service \<noteq> None) (''services.'' @ service_name @ ''.crons'')
          (''Service '' @ quoted service_name @ '' cannot define 'crons' while using network_mode: service:<name>; a namespace-sharing dependent has no address of its own to lease for a cron container'')
          ''CRON_UNSUPPORTED_ON_NETWORK_MODE_SERVICE'' @
        push_if (length (svc_crons service) > MAX_CRONS_PER_SERVICE) (''services.'' @ service_name @ ''.crons'')
          (''Service '' @ quoted service_name @ '' supports at most '' @ show_nat MAX_CRONS_PER_SERVICE
           @ '' cron jobs; '' @ show_nat (length (svc_crons service)) @ '' are configured'')
          ''TOO_MANY_CRONS_PER_SERVICE'' @
        concat (map (validate_cron schedule_of timezone_of service_name) (svc_crons service)))"

section \<open>Build secrets and the builder\<close>

definition is_bare_all_caps_name :: "string \<Rightarrow> bool" where
  "is_bare_all_caps_name value =
     (case value of
        [] \<Rightarrow> False
      | c # cs \<Rightarrow> is_ascii_uppercase c
          \<and> list_all (\<lambda>c. is_ascii_uppercase c \<or> is_ascii_digit c \<or> c = CHR ''_'') cs)"

fun build_secret_errors :: "string \<Rightarrow> string set \<Rightarrow> string list \<Rightarrow> ValidationError list" where
  "build_secret_errors service_name seen [] = []"
| "build_secret_errors service_name seen (name # rest) =
     (let path = ''services.'' @ service_name @ ''.build.secrets'';
          this = ''Service '' @ quoted service_name @ '' build secret '' @ quoted name
      in if \<not> is_bare_all_caps_name name
         then push_if True path
                (this @ '' must be an ALL_CAPS name (letters, digits, underscore, starting with a letter), matching environment.secrets'' @ [CHR 0x27] @ '' convention'')
                ''BUILD_SECRET_NAME_INVALID'' @ build_secret_errors service_name seen rest
         else push_if (name \<in> seen) path (this @ '' is listed more than once in build.secrets'')
                ''BUILD_SECRET_DUPLICATE'' @ build_secret_errors service_name (insert name seen) rest)"

definition validate_service_build_secrets :: "string \<Rightarrow> Service \<Rightarrow> ValidationError list" where
  "validate_service_build_secrets service_name service =
     (case svc_build service of
        Some (BuildDetailed build) \<Rightarrow>
          (case bc_secrets build of
             Some secrets \<Rightarrow> build_secret_errors service_name {} secrets
           | None \<Rightarrow> [])
      | _ \<Rightarrow> [])"

definition validate_builder :: "Config \<Rightarrow> ValidationError list" where
  "validate_builder config =
     (let builder = cfg_builder config; registry = b_registry builder in
      (case b_remote builder of
         None \<Rightarrow> []
       | Some remote \<Rightarrow>
           (case parse_remote_builder_uri remote of
              Inl error \<Rightarrow>
                push_if True ''builder.remote'' (show_RemoteBuilderUriError error) ''INVALID_BUILDER_REMOTE''
            | Inr _ \<Rightarrow> [])) @
      push_if (reg_server registry = None \<and> (reg_username registry \<noteq> None \<or> reg_password registry \<noteq> None))
        ''builder.registry.server''
        ''Registry credentials require `builder.registry.server`; add the remote registry server or remove `username` and `password` to use Jiji's local registry''
        ''REGISTRY_CREDENTIALS_REQUIRE_SERVER'')"

section \<open>Proxy routes\<close>

definition wildcard_well_formed :: "string \<Rightarrow> bool" where
  "wildcard_well_formed host =
     (starts_with host ''*.'' \<and> drop 2 host \<noteq> [] \<and> CHR ''*'' \<notin> set (drop 2 host))"

definition validate_host :: "string \<Rightarrow> string \<Rightarrow> SslValue option \<Rightarrow> string \<Rightarrow> ValidationError list" where
  "validate_host service_name path ssl host =
     (let this = ''Service '' @ quoted service_name @ '' proxy host '' @ quoted host in
      if CHR ''*'' \<notin> set host then []
      else if \<not> wildcard_well_formed host
      then push_if True path
             (this @ '' is not a valid wildcard pattern; only a single leading label may be '' @ quoted ''*''
              @ '', e.g. '' @ quoted ''*.example.com'')
             ''PROXY_INVALID_WILDCARD_HOST''
      else push_if (ssl = Some (SslEnabled True)) path
             (this @ '' is a wildcard and cannot use 'ssl: true': jiji-proxy's ACME automation only supports HTTP-01 challenges, which cannot issue a wildcard certificate. Provide a static certificate instead with 'ssl: { certificate_pem, private_key_pem }', or remove 'ssl' for this host.'')
             ''PROXY_WILDCARD_REQUIRES_STATIC_CERT'')"

definition validate_hosts_and_ssl :: "string \<Rightarrow> string \<Rightarrow> string list \<Rightarrow> SslValue option \<Rightarrow> ValidationError list" where
  "validate_hosts_and_ssl service_name path hosts ssl =
     concat (map (validate_host service_name path ssl) hosts)"

definition hosts_or_default :: "string list option \<Rightarrow> string list" where
  "hosts_or_default hosts = (case hosts of None \<Rightarrow> [] | Some hs \<Rightarrow> hs)"

definition target_path :: "string \<Rightarrow> nat \<Rightarrow> string" where
  "target_path name index = ''services.'' @ name @ ''.proxy.targets['' @ show_nat index @ '']''"

definition proxy_path :: "string \<Rightarrow> string" where
  "proxy_path name = ''services.'' @ name @ ''.proxy''"

definition proxy_hosts_errors :: "string \<times> Service \<Rightarrow> ValidationError list" where
  "proxy_hosts_errors = (\<lambda>(name, service).
     case svc_proxy service of
       None \<Rightarrow> []
     | Some proxy \<Rightarrow>
         (case px_targets proxy of
            Some targets \<Rightarrow>
              concat (map (\<lambda>(index, target).
                validate_hosts_and_ssl name (target_path name index) (hosts_or_default (pt_hosts target)) (pt_ssl target))
                (enumerate 0 targets))
          | None \<Rightarrow>
              validate_hosts_and_ssl name (proxy_path name) (hosts_or_default (px_hosts proxy)) (px_ssl proxy)))"

definition validate_proxy_hosts :: "Config \<Rightarrow> ValidationError list" where
  "validate_proxy_hosts config = concat (map proxy_hosts_errors (cfg_services config))"

definition no_hosts_message :: "string" where
  "no_hosts_message = '' has no `hosts:` configured. jiji-proxy routes HTTP traffic by Host header, so this route can never be reached; add at least one hostname (or a wildcard like '*.example.com'), or set `listen_port` for a raw TCP route that doesn't need one.''"

definition routable_host_errors :: "string \<times> Service \<Rightarrow> ValidationError list" where
  "routable_host_errors = (\<lambda>(name, service).
     case svc_proxy service of
       None \<Rightarrow> []
     | Some proxy \<Rightarrow>
         (case px_targets proxy of
            Some targets \<Rightarrow>
              concat (map (\<lambda>(index, target).
                if pt_listen_port target \<noteq> None then []
                else push_if (hosts_or_default (pt_hosts target) = []) (target_path name index @ ''.hosts'')
                       (''Service '' @ quoted name @ '' proxy target'' @ no_hosts_message)
                       ''PROXY_HTTP_ROUTE_WITHOUT_HOSTS'')
                (enumerate 0 targets))
          | None \<Rightarrow>
              push_if (px_listen_port proxy = None \<and> px_port proxy \<noteq> None \<and> hosts_or_default (px_hosts proxy) = [])
                (proxy_path name @ ''.hosts'')
                (''Service '' @ quoted name @ '' proxy'' @ no_hosts_message)
                ''PROXY_HTTP_ROUTE_WITHOUT_HOSTS''))"

definition validate_proxy_has_a_routable_host :: "Config \<Rightarrow> ValidationError list" where
  "validate_proxy_has_a_routable_host config = concat (map routable_host_errors (cfg_services config))"

text \<open>
  \<^verbatim>\<open>validate_tcp_target\<close> records the port in the map of ports seen so far; the result is the map
  and the errors pushed.
\<close>

type_synonym seen_ports = "nat \<rightharpoonup> string"

definition validate_tcp_target ::
  "string \<Rightarrow> string \<Rightarrow> nat option \<Rightarrow> string option \<Rightarrow> SslValue option \<Rightarrow> seen_ports
   \<Rightarrow> seen_ports \<times> ValidationError list" where
  "validate_tcp_target service_name path listen_port path_prefix ssl seen =
     (case listen_port of
        None \<Rightarrow> (seen, [])
      | Some port \<Rightarrow>
          (let this = ''Service '' @ quoted service_name @ '' proxy target '';
               conflict = push_if (path_prefix \<noteq> None \<or> ssl \<noteq> None) path
                 (this @ ''sets '' @ quoted ''listen_port'' @ '' (raw TCP mode) alongside '' @ quoted ''path_prefix'' @ ''/'' @ quoted ''ssl''
                  @ '', which only apply to HTTP routing. Remove '' @ quoted ''listen_port'' @ '' for an HTTP route, or remove ''
                  @ quoted ''path_prefix'' @ ''/'' @ quoted ''ssl'' @ '' for a TCP route.'')
                 ''PROXY_TCP_HTTP_FIELDS_CONFLICT''
           in if port = 0 \<or> port = 80 \<or> port = 443
              then (seen, conflict @ push_if True path
                     (this @ quoted ''listen_port'' @ [CHR 0x20] @ show_nat port
                      @ '' is invalid: ports 80 and 443 are reserved for HTTP ingress, and 0 is not a valid port.'')
                     ''PROXY_INVALID_TCP_PORT'')
              else case seen port of
                Some existing_service \<Rightarrow>
                  (seen, conflict @ push_if True path
                     (this @ quoted ''listen_port'' @ [CHR 0x20] @ show_nat port @ '' is already used by service ''
                      @ quoted existing_service @ ''. Each TCP route needs its own public port within a project.'')
                     ''PROXY_TCP_PORT_CONFLICT'')
              | None \<Rightarrow> (seen(port \<mapsto> service_name), conflict)))"

text \<open>The arguments of the calls of \<^verbatim>\<open>validate_tcp_target\<close> for one service, in order.\<close>

definition tcp_calls :: "string \<times> Service \<Rightarrow> (string \<times> string \<times> nat option \<times> string option \<times> SslValue option) list" where
  "tcp_calls = (\<lambda>(name, service).
     case svc_proxy service of
       None \<Rightarrow> []
     | Some proxy \<Rightarrow>
         (case px_targets proxy of
            Some targets \<Rightarrow>
              map (\<lambda>(index, target).
                (name, target_path name index, pt_listen_port target, pt_path_prefix target, pt_ssl target))
                (enumerate 0 targets)
          | None \<Rightarrow> [(name, proxy_path name, px_listen_port proxy, px_path_prefix proxy, px_ssl proxy)]))"

fun run_tcp_calls ::
  "seen_ports \<Rightarrow> (string \<times> string \<times> nat option \<times> string option \<times> SslValue option) list \<Rightarrow> ValidationError list" where
  "run_tcp_calls seen [] = []"
| "run_tcp_calls seen ((name, path, port, prefix, ssl) # calls) =
     (let (seen', errors) = validate_tcp_target name path port prefix ssl seen
      in errors @ run_tcp_calls seen' calls)"

definition validate_tcp_targets :: "Config \<Rightarrow> ValidationError list" where
  "validate_tcp_targets config = run_tcp_calls Map.empty (concat (map tcp_calls (cfg_services config)))"

section \<open>Ports of services on the host network\<close>

text \<open>The inner loop: one error for every earlier service with the same port and a shared server.\<close>

definition host_port_conflicts ::
  "string \<Rightarrow> string list \<Rightarrow> nat \<Rightarrow> (nat \<times> string \<times> string list) list \<Rightarrow> ValidationError list" where
  "host_port_conflicts name servers port seen =
     concat (map (\<lambda>(existing_port, existing_service, existing_servers).
       push_if (existing_port = port \<and> list_ex (\<lambda>host. host \<in> set existing_servers) servers)
         (''services.'' @ name @ ''.ports'')
         (''Service '' @ quoted name @ '' uses network_mode: host on port '' @ show_nat port
          @ '', already used by service '' @ quoted existing_service
          @ '' on a shared server. Each host-mode service needs its own port on any server it shares.'')
         ''HOST_NETWORK_PORT_CONFLICT'') seen)"

fun host_port_errors :: "(nat \<times> string \<times> string list) list \<Rightarrow> (string \<times> Service) list \<Rightarrow> ValidationError list" where
  "host_port_errors seen [] = []"
| "host_port_errors seen ((name, service) # rest) =
     (let path = ''services.'' @ name @ ''.ports'';
          this = ''Service '' @ quoted name @ '' uses network_mode: host''
      in if svc_network_mode service \<noteq> ''host'' then host_port_errors seen rest
         else if length (svc_ports service) > 1
         then push_if True path
                (this @ '' and can declare at most one port (the port it listens on); found ''
                 @ show_nat (length (svc_ports service))) ''HOST_NETWORK_TOO_MANY_PORTS''
              @ host_port_errors seen rest
         else case svc_ports service of
           [] \<Rightarrow> host_port_errors seen rest
         | raw_port # _ \<Rightarrow>
             (case parse_uint (2 ^ 16 - 1) raw_port of
                Inl _ \<Rightarrow>
                  push_if True path
                    (this @ ''; 'ports' entry '' @ quoted raw_port
                     @ '' must be a bare container port number, not a host:container mapping or a /udp suffix -- the app must already bind the port it wants.'')
                    ''HOST_NETWORK_INVALID_PORT'' @ host_port_errors seen rest
              | Inr port \<Rightarrow>
                  (if port = 0
                   then push_if True path (this @ ''; 'ports' entry '0' is not a valid port.'') ''HOST_NETWORK_INVALID_PORT''
                        @ host_port_errors seen rest
                   else
                     host_port_conflicts name (svc_servers service) port seen
                     @ host_port_errors (seen @ [(port, name, svc_servers service)]) rest)))"

definition validate_host_network_ports :: "Config \<Rightarrow> ValidationError list" where
  "validate_host_network_ports config = host_port_errors [] (cfg_services config)"

section \<open>The rules of one service\<close>

definition server_errors :: "Config \<Rightarrow> string \<Rightarrow> Service \<Rightarrow> ValidationError list" where
  "server_errors config name service =
     push_if (svc_servers service = []) (''services.'' @ name @ ''.servers'')
       (''Service '' @ quoted name @ '' must specify at least one server in 'servers' array'') ''NO_SERVERS'' @
     concat (map (\<lambda>host.
       push_if (map_of (cfg_servers config) host = None) (''services.'' @ name @ ''.servers'')
         (''Server '' @ quoted host @ '' not found in servers section. Available servers: ''
          @ join '', '' (sort (map fst (cfg_servers config)))) ''UNDEFINED_SERVER'')
       (svc_servers service))"

definition network_mode_errors :: "string \<Rightarrow> Service \<Rightarrow> ValidationError list" where
  "network_mode_errors name service =
     (let path = ''services.'' @ name @ ''.network_mode''; this = ''Service '' @ quoted name in
      push_if (svc_stop_first service \<and> svc_scale service > 1) (''services.'' @ name @ ''.scale'')
        (this @ '' uses stop_first and must remain a singleton'') ''STOP_FIRST_REQUIRES_SINGLETON'' @
      push_if (starts_with (svc_network_mode service) ''container:'') path
        (this @ '' uses unsupported container namespace networking'') ''UNSUPPORTED_NETWORK_MODE'' @
      push_if (svc_network_mode service = ''none'') path
        (this @ '' uses network_mode: none, which is not supported: every service needs a reachable address for DNS and health checks. Use 'network_mode: service:<name>' to explicitly share another service's namespace, or 'crons:' for isolated one-off/scheduled work.'')
        ''NETWORK_MODE_NONE_UNSUPPORTED'' @
      push_if (svc_scale service > 1 \<and> svc_network_mode service \<noteq> ''bridge'') path
        (this @ '' can only scale with project bridge networking'') ''NON_BRIDGE_SCALE'' @
      push_if (svc_network_mode service \<noteq> ''bridge'' \<and> svc_proxy service \<noteq> None) (''services.'' @ name @ ''.proxy'')
        (this @ '' cannot use proxy ingress without project bridge networking'') ''NON_BRIDGE_PROXY'')"

definition upstream_errors :: "Config \<Rightarrow> string \<Rightarrow> Service \<Rightarrow> ValidationError list" where
  "upstream_errors config name service =
     (let path = ''services.'' @ name @ ''.network_mode''; this = ''Service '' @ quoted name in
      case network_mode_dependency service of
        None \<Rightarrow> []
      | Some upstream_name \<Rightarrow>
          (if upstream_name = name
           then push_if True path
                  (this @ '' cannot use network_mode: service:'' @ name @ '' to reference itself'')
                  ''NETWORK_MODE_SERVICE_SELF_REFERENCE''
           else case map_of (cfg_services config) upstream_name of
             Some upstream \<Rightarrow>
               push_if (network_mode_dependency upstream \<noteq> None) path
                 (this @ '' cannot depend on '' @ quoted upstream_name
                  @ '', which is itself a network_mode:service dependent; chained namespace sharing is not supported'')
                 ''NETWORK_MODE_SERVICE_CHAIN_UNSUPPORTED'' @
               push_if (svc_network_mode upstream = ''host'') path
                 (this @ '' cannot depend on '' @ quoted upstream_name
                  @ '', which uses network_mode: host; a dependent can only share a network_mode: bridge upstream's namespace'')
                 ''NETWORK_MODE_SERVICE_HOST_UPSTREAM_UNSUPPORTED'' @
               push_if (\<not> list_all (\<lambda>host. host \<in> set (svc_servers upstream)) (svc_servers service))
                 (''services.'' @ name @ ''.servers'')
                 (this @ '' shares '' @ quoted upstream_name @ [CHR 0x27] @ ''s network namespace, so its 'servers' must be a subset of ''
                  @ quoted upstream_name @ [CHR 0x27] @ ''s servers'')
                 ''NETWORK_MODE_SERVICE_SERVER_MISMATCH''
           | None \<Rightarrow>
               push_if True path
                 (this @ '' references undefined service '' @ quoted upstream_name
                  @ '' in network_mode. Available services: '' @ join '', '' (sort (map fst (cfg_services config))))
                 ''UNDEFINED_NETWORK_MODE_SERVICE''))"

definition has_local_state :: "Service \<Rightarrow> bool" where
  "has_local_state service =
     (svc_volumes service \<noteq> [] \<or> svc_files service \<noteq> [] \<or> svc_directories service \<noteq> [])"

definition scale_errors :: "string \<Rightarrow> Service \<Rightarrow> ValidationError list" where
  "scale_errors name service =
     push_if (svc_scale service > 1 \<and> has_local_state service) (''services.'' @ name @ ''.scale'')
       (''Service '' @ quoted name @ '' cannot scale local volumes, files, or directories implicitly'') ''STATEFUL_SCALE'' @
     push_if (svc_scale service > 1 \<and> (svc_privileged service \<or> svc_devices service \<noteq> [] \<or> svc_gpus service \<noteq> None))
       (''services.'' @ name @ ''.scale'')
       (''Service '' @ quoted name @ '' cannot scale exclusive host devices, GPUs, or privileged access'')
       ''EXCLUSIVE_RESOURCE_SCALE''"

text \<open>The body of the loop over the services, apart from the two counters.\<close>

definition service_errors ::
  "(string \<Rightarrow> (string, unit) result) \<Rightarrow> (string \<Rightarrow> (string, unit) result) \<Rightarrow> Config \<Rightarrow> string \<times> Service
   \<Rightarrow> ValidationError list" where
  "service_errors schedule_of timezone_of config = (\<lambda>(name, service).
     server_errors config name service @
     network_mode_errors name service @
     upstream_errors config name service @
     scale_errors name service @
     validate_service_crons schedule_of timezone_of name service @
     validate_service_build_secrets name service)"

section \<open>The whole configuration\<close>

definition u32_saturating_add :: "nat \<Rightarrow> nat \<Rightarrow> nat" where
  "u32_saturating_add a b = min (a + b) (2 ^ 32 - 1)"

definition u32_saturating_mul :: "nat \<Rightarrow> nat \<Rightarrow> nat" where
  "u32_saturating_mul a b = min (a * b) (2 ^ 32 - 1)"

definition usize_saturating_add :: "nat \<Rightarrow> nat \<Rightarrow> nat" where
  "usize_saturating_add a b = min (a + b) (2 ^ 64 - 1)"

text \<open>The number of servers of a service is cast to 32 bits before it is multiplied.\<close>

definition total_replicas :: "(string \<times> Service) list \<Rightarrow> nat" where
  "total_replicas services =
     foldl (\<lambda>total (name, service).
       u32_saturating_add total (u32_saturating_mul (length (svc_servers service) mod 2 ^ 32) (svc_scale service)))
       0 services"

definition total_crons :: "(string \<times> Service) list \<Rightarrow> nat" where
  "total_crons services =
     foldl (\<lambda>total (name, service). usize_saturating_add total (length (svc_crons service))) 0 services"

definition blank_user :: "string option \<Rightarrow> bool" where
  "blank_user user = (case user of None \<Rightarrow> True | Some u \<Rightarrow> trim u = [])"

definition validate_ssh :: "Config \<Rightarrow> ValidationError list" where
  "validate_ssh config =
     (case cfg_ssh config of
        None \<Rightarrow> []
      | Some ssh \<Rightarrow>
          (let user_can_come_from_config = (ssh_config ssh \<noteq> SshEnabled False);
               every_server_has_user = list_all (\<lambda>(_, server). \<not> blank_user (srv_user server)) (cfg_servers config)
           in push_if (blank_user (ssh_user ssh) \<and> \<not> user_can_come_from_config \<and> \<not> every_server_has_user)
                ''ssh.user''
                ''Missing SSH user. Set `ssh.user`, set `user` on every server, or enable `ssh.config` with matching `User` entries.''
                ''MISSING_FIELD'' @
              push_if (ssh_port ssh = 0) ''ssh.port''
                (quoted ''port'' @ '' in ssh must be a valid port number (1-65535)'') ''INVALID_PORT''))"

definition config_errors ::
  "(string \<Rightarrow> (string, unit) result) \<Rightarrow> (string \<Rightarrow> (string, unit) result) \<Rightarrow> Config \<Rightarrow> ValidationError list" where
  "config_errors schedule_of timezone_of config =
     (let servers = cfg_servers config; services = cfg_services config in
      push_if (length servers > MAX_NODES) ''servers''
        (''A project supports at most '' @ show_nat MAX_NODES @ '' servers; '' @ show_nat (length servers)
         @ '' are configured'') ''TOO_MANY_SERVERS'' @
      push_if (length services > MAX_SERVICES) ''services''
        (''A project supports at most '' @ show_nat MAX_SERVICES @ '' services; '' @ show_nat (length services)
         @ '' are configured'') ''TOO_MANY_SERVICES'' @
      concat (map (service_errors schedule_of timezone_of config) services) @
      push_if (total_crons services > MAX_CRONS_PER_PROJECT) ''services''
        (''A project supports at most '' @ show_nat MAX_CRONS_PER_PROJECT @ '' cron jobs; ''
         @ show_nat (total_crons services) @ '' are configured'') ''TOO_MANY_CRONS'' @
      push_if (total_replicas services > MAX_REPLICAS) ''services''
        (''A project supports at most '' @ show_nat MAX_REPLICAS @ '' logical replicas; ''
         @ show_nat (total_replicas services) @ '' are configured'') ''TOO_MANY_REPLICAS'' @
      validate_builder config @
      validate_proxy_hosts config @
      validate_proxy_has_a_routable_host config @
      validate_tcp_targets config @
      validate_host_network_ports config @
      validate_ssh config)"

text \<open>The validator panics on a timeout that ends in a multi-byte character: \<open>None\<close>.\<close>

definition timeout_panics :: "Config \<Rightarrow> bool" where
  "timeout_panics config =
     list_ex (\<lambda>(_, service). list_ex (\<lambda>(_, cron). timeout_duration cron = None) (svc_crons service)) (cfg_services config)"

definition validate_config ::
  "(string \<Rightarrow> (string, unit) result) \<Rightarrow> (string \<Rightarrow> (string, unit) result) \<Rightarrow> Config \<Rightarrow> ValidationResult option" where
  "validate_config schedule_of timezone_of config =
     (if timeout_panics config then None
      else
        let errors = config_errors schedule_of timezone_of config
        in Some \<lparr>vr_valid = (errors = []), vr_errors = errors, vr_warnings = []\<rparr>)"

text \<open>A configuration is accepted when the validator returns and finds nothing.\<close>

definition accepts :: "(string \<Rightarrow> (string, unit) result) \<Rightarrow> (string \<Rightarrow> (string, unit) result) \<Rightarrow> Config \<Rightarrow> bool" where
  "accepts schedule_of timezone_of config =
     (case validate_config schedule_of timezone_of config of None \<Rightarrow> False | Some res \<Rightarrow> vr_valid res)"

definition rejected :: "ValidationError list \<Rightarrow> ValidationResult" where
  "rejected errors = \<lparr>vr_valid = False, vr_errors = errors, vr_warnings = []\<rparr>"

text \<open>
  \<open>as_mapping\<close> gives the string keys of a YAML mapping, or \<open>None\<close> for a value that is not a
  mapping; \<open>from_value\<close> decodes it.
\<close>

definition validate_yaml ::
  "('v \<Rightarrow> string list option) \<Rightarrow> ('v \<Rightarrow> (string, Config) result) \<Rightarrow> (string \<Rightarrow> (string, unit) result)
   \<Rightarrow> (string \<Rightarrow> (string, unit) result) \<Rightarrow> 'v \<Rightarrow> ValidationResult option" where
  "validate_yaml as_mapping from_value schedule_of timezone_of raw =
     (case as_mapping raw of
        None \<Rightarrow>
          Some (rejected (push_if True [] ''Configuration file must contain a valid YAML object'' ''NOT_AN_OBJECT''))
      | Some mapping \<Rightarrow>
          (let errors = concat (map (\<lambda>key.
                 push_if (key \<notin> set mapping) key (''Missing required configuration: '' @ quoted key) ''MISSING_FIELD'')
                 REQUIRED_TOP_LEVEL)
           in if errors \<noteq> [] then Some (rejected errors)
              else case from_value raw of
                Inr config \<Rightarrow> validate_config schedule_of timezone_of config
              | Inl e \<Rightarrow> Some (rejected (push_if True [] e ''PARSE_ERROR''))))"

section \<open>When the rules are silent\<close>

lemma server_errors_silent:
  "server_errors c n s = [] \<longleftrightarrow> svc_servers s \<noteq> [] \<and> set (svc_servers s) \<subseteq> fst ` set (cfg_servers c)"
  by (auto simp: server_errors_def map_of_eq_None_iff)

lemma upstream_errors_silent:
  "upstream_errors c n s = [] \<longleftrightarrow>
     (\<forall>u. network_mode_dependency s = Some u \<longrightarrow> u \<noteq> n \<and>
        (\<exists>up. map_of (cfg_services c) u = Some up \<and> network_mode_dependency up = None \<and>
          svc_network_mode up \<noteq> ''host'' \<and> set (svc_servers s) \<subseteq> set (svc_servers up)))"
  by (auto simp: upstream_errors_def Let_def list_all_iff split: option.splits)

lemma network_mode_errors_silent:
  "network_mode_errors n s = [] \<longleftrightarrow>
     (1 < svc_scale s \<longrightarrow> \<not> svc_stop_first s \<and> svc_network_mode s = ''bridge'') \<and>
     \<not> starts_with (svc_network_mode s) ''container:'' \<and> svc_network_mode s \<noteq> ''none'' \<and>
     (svc_proxy s \<noteq> None \<longrightarrow> svc_network_mode s = ''bridge'')"
  by (auto simp: network_mode_errors_def Let_def)

lemma scale_errors_silent:
  "scale_errors n s = [] \<longleftrightarrow>
     (1 < svc_scale s \<longrightarrow>
        \<not> has_local_state s \<and> \<not> svc_privileged s \<and> svc_devices s = [] \<and> svc_gpus s = None)"
  by (auto simp: scale_errors_def)

lemmas rule_silent = server_errors_silent upstream_errors_silent network_mode_errors_silent scale_errors_silent

lemma service_errors_silent:
  "service_errors sched tz c (n, s) = [] \<longleftrightarrow>
     server_errors c n s = [] \<and> network_mode_errors n s = [] \<and> upstream_errors c n s = [] \<and>
     scale_errors n s = [] \<and> validate_service_crons sched tz n s = [] \<and>
     validate_service_build_secrets n s = []"
  by (simp add: service_errors_def)

lemma valid_iff: "accepts sched tz c \<longleftrightarrow> config_errors sched tz c = []"
proof -
  have fits: "timeout_duration cron \<noteq> None"
    if "config_errors sched tz c = []" "(name, service) \<in> set (cfg_services c)" "(cron_name, cron) \<in> set (svc_crons service)"
    for name service cron_name cron
  proof -
    have "service_errors sched tz c (name, service) = []" using that(1,2) by (auto simp: config_errors_def Let_def)
    then have "validate_cron sched tz name (cron_name, cron) = []"
      using that(3) by (auto simp: service_errors_silent validate_service_crons_def split: if_splits)
    then show ?thesis by (auto simp: validate_cron_def Let_def split: option.splits)
  qed
  have "\<not> timeout_panics c" if "config_errors sched tz c = []"
  proof
    assume "timeout_panics c"
    then obtain name service cron_name cron where "(name, service) \<in> set (cfg_services c)" "(cron_name, cron) \<in> set (svc_crons service)"
      "timeout_duration cron = None"
      by (auto simp: timeout_panics_def list_ex_iff)
    then show False using fits [OF that] by blast
  qed
  then show ?thesis by (auto simp: accepts_def validate_config_def Let_def)
qed

lemma valid_service:
  "\<lbrakk>accepts sched tz c; (n, s) \<in> set (cfg_services c)\<rbrakk> \<Longrightarrow> service_errors sched tz c (n, s) = []"
  by (auto simp: valid_iff config_errors_def Let_def)

subsection \<open>Ports of raw TCP routes\<close>

definition call_ports :: "(string \<times> string \<times> nat option \<times> string option \<times> SslValue option) list \<Rightarrow> nat list" where
  "call_ports calls = concat (map (\<lambda>(_, _, port, _, _). case port of None \<Rightarrow> [] | Some p \<Rightarrow> [p]) calls)"

definition listen_ports :: "(string \<times> Service) list \<Rightarrow> nat list" where
  "listen_ports services = call_ports (concat (map tcp_calls services))"

definition http_free :: "string \<times> string \<times> nat option \<times> string option \<times> SslValue option \<Rightarrow> bool" where
  "http_free = (\<lambda>(_, _, port, prefix, ssl). port \<noteq> None \<longrightarrow> prefix = None \<and> ssl = None)"

lemma run_tcp_calls_silent:
  "run_tcp_calls seen calls = [] \<longleftrightarrow>
     list_all http_free calls \<and> distinct (call_ports calls) \<and>
     set (call_ports calls) \<inter> ({0, 80, 443} \<union> dom seen) = {}"
proof (induction seen calls rule: run_tcp_calls.induct)
  case (1 seen)
  then show ?case by (simp add: call_ports_def)
next
  case (2 seen name path port prefix ssl calls)
  note ih = this
  show ?case
  proof (cases port)
    case None
    then show ?thesis using ih by (simp add: validate_tcp_target_def call_ports_def http_free_def)
  next
    case (Some p)
    consider "p \<in> {0, 80, 443}" | "p \<notin> {0, 80, 443}" "p \<in> dom seen" | "p \<notin> {0, 80, 443}" "p \<notin> dom seen"
      by blast
    then show ?thesis
    proof cases
      case 1
      then show ?thesis using Some by (auto simp: validate_tcp_target_def call_ports_def Let_def)
    next
      case 2
      then show ?thesis using Some by (auto simp: validate_tcp_target_def call_ports_def Let_def)
    next
      case 3
      then have step: "validate_tcp_target name path port prefix ssl seen =
        (seen(p \<mapsto> name), snd (validate_tcp_target name path port prefix ssl seen))"
        "snd (validate_tcp_target name path port prefix ssl seen) = [] \<longleftrightarrow> prefix = None \<and> ssl = None"
        using Some by (auto simp: validate_tcp_target_def Let_def domIff)
      have ports: "call_ports ((name, path, port, prefix, ssl) # calls) = p # call_ports calls"
        using Some by (simp add: call_ports_def)
      have "run_tcp_calls seen ((name, path, port, prefix, ssl) # calls) = [] \<longleftrightarrow>
        (prefix = None \<and> ssl = None) \<and> run_tcp_calls (seen(p \<mapsto> name)) calls = []"
        using step by (simp add: case_prod_beta Let_def) (metis fst_conv)
      moreover have "http_free (name, path, port, prefix, ssl) \<longleftrightarrow> prefix = None \<and> ssl = None"
        using Some by (simp add: http_free_def)
      moreover have "set (call_ports calls) \<inter> ({0, 80, 443} \<union> dom (seen(p \<mapsto> name))) = {} \<longleftrightarrow>
        p \<notin> set (call_ports calls) \<and> set (call_ports calls) \<inter> ({0, 80, 443} \<union> dom seen) = {}"
        by auto
      moreover have "set (p # call_ports calls) \<inter> ({0, 80, 443} \<union> dom seen) = {} \<longleftrightarrow>
        set (call_ports calls) \<inter> ({0, 80, 443} \<union> dom seen) = {}"
        using 3 by auto
      ultimately show ?thesis
        unfolding ports ih [OF refl step(1) [symmetric]] by simp blast
    qed
  qed
qed

subsection \<open>Ports on the host network\<close>

definition host_entry :: "string \<times> Service \<Rightarrow> (nat \<times> string \<times> string list) list" where
  "host_entry = (\<lambda>(name, service).
     if svc_network_mode service = ''host''
     then case svc_ports service of
            [raw] \<Rightarrow> (case parse_uint (2 ^ 16 - 1) raw of Inr p \<Rightarrow> [(p, name, svc_servers service)] | Inl _ \<Rightarrow> [])
          | _ \<Rightarrow> []
     else [])"

definition port_clash :: "nat \<times> string \<times> string list \<Rightarrow> nat \<times> string \<times> string list \<Rightarrow> bool" where
  "port_clash = (\<lambda>(p, _, hosts) (q, _, hosts'). p = q \<and> set hosts \<inter> set hosts' \<noteq> {})"

lemma host_port_conflicts_silent:
  "host_port_conflicts name servers port seen = [] \<longleftrightarrow> (\<forall>e \<in> set seen. \<not> port_clash e (port, name, servers))"
  by (fastforce simp: host_port_conflicts_def port_clash_def list_ex_iff)

definition host_port_ok :: "string \<times> Service \<Rightarrow> bool" where
  "host_port_ok = (\<lambda>(name, service).
     svc_network_mode service = ''host'' \<longrightarrow>
       (case svc_ports service of
          [] \<Rightarrow> True
        | [raw] \<Rightarrow> (case parse_uint (2 ^ 16 - 1) raw of Inr p \<Rightarrow> p \<noteq> 0 | Inl _ \<Rightarrow> False)
        | _ \<Rightarrow> False))"

lemma host_port_errors_silent:
  "host_port_errors seen services = [] \<longleftrightarrow>
     list_all host_port_ok services \<and>
     sorted_wrt (\<lambda>e f. \<not> port_clash e f) (concat (map host_entry services)) \<and>
     (\<forall>e \<in> set seen. \<forall>f \<in> set (concat (map host_entry services)). \<not> port_clash e f)"
proof (induction services arbitrary: seen)
  case Nil
  then show ?case by simp
next
  case (Cons x rest)
  obtain name service where x: "x = (name, service)" by (cases x)
  consider "host_entry x = []" "host_port_ok x" "host_port_errors seen (x # rest) = host_port_errors seen rest"
    | "\<not> host_port_ok x" "host_port_errors seen (x # rest) \<noteq> []"
    | p where "host_entry x = [(p, name, svc_servers service)]" "host_port_ok x"
        "host_port_errors seen (x # rest) = [] \<longleftrightarrow>
           (\<forall>e \<in> set seen. \<not> port_clash e (p, name, svc_servers service)) \<and>
           host_port_errors (seen @ [(p, name, svc_servers service)]) rest = []"
  proof (cases "svc_network_mode service = ''host''")
    case False
    then show thesis using that(1) by (simp add: x host_entry_def host_port_ok_def)
  next
    case host: True
    show thesis
    proof (cases "svc_ports service")
      case Nil
      then show thesis using that(1) host by (simp add: x host_entry_def host_port_ok_def)
    next
      case (Cons raw more_ports)
      show thesis
      proof (cases more_ports)
        case (Cons y ys)
        then show thesis using that(2) host \<open>svc_ports service = raw # more_ports\<close>
          by (simp add: x host_port_ok_def Let_def)
      next
        case Nil
        with Cons have ports: "svc_ports service = [raw]" by simp
        show thesis
        proof (cases "parse_uint (2 ^ 16 - 1) raw")
          case (Inl e)
          then show thesis using that(2) host ports by (simp add: x host_port_ok_def Let_def)
        next
          case (Inr p)
          show thesis
          proof (cases "p = 0")
            case True
            then show thesis using that(2) host ports Inr by (simp add: x host_port_ok_def Let_def)
          next
            case False
            then show thesis using that(3) [of p] host ports Inr
              by (simp add: x host_entry_def host_port_ok_def Let_def host_port_conflicts_silent)
          qed
        qed
      qed
    qed
  qed
  then show ?case
  proof cases
    case 1
    then show ?thesis using Cons.IH by simp
  next
    case 2
    then show ?thesis by simp
  next
    case (3 p)
    then show ?thesis using Cons.IH by (auto simp del: host_port_errors.simps)
  qed
qed

lemma sorted_wrt_symD:
  assumes "symp R" "sorted_wrt R xs" "x \<in> set xs" "y \<in> set xs" "x \<noteq> y"
  shows "R x y"
  using assms(2-) by (induction xs) (auto dest: sympD [OF assms(1)])

lemma sorted_wrt_mset:
  assumes sym: "symp R"
  shows "sorted_wrt R xs \<longleftrightarrow> (\<forall>x \<in># mset xs. \<forall>y \<in># mset xs - {#x#}. R x y)"
proof (induction xs)
  case Nil
  then show ?case by simp
next
  case (Cons a xs)
  have "(\<forall>x \<in># mset (a # xs). \<forall>y \<in># mset (a # xs) - {#x#}. R x y) \<longleftrightarrow>
    (\<forall>y \<in> set xs. R a y) \<and> (\<forall>x \<in> set xs. R x a \<and> (\<forall>y \<in># mset xs - {#x#}. R x y))"
  proof -
    have "(\<forall>y \<in># mset (a # xs) - {#x#}. R x y) \<longleftrightarrow> R x a \<and> (\<forall>y \<in># mset xs - {#x#}. R x y)"
      if "x \<in> set xs" for x
      using that by (simp add: diff_union_swap2)
    then show ?thesis by auto
  qed
  then show ?case using Cons.IH sympD [OF sym] by auto
qed

lemma symp_not_port_clash: "symp (\<lambda>e f. \<not> port_clash e f)"
  by (auto simp: symp_def port_clash_def)

lemma host_port_ok_entry:
  assumes "host_port_ok (m, s)" "svc_network_mode s = ''host''" "p \<in> set (svc_ports s)"
  obtains i where "parse_uint 65535 p = Inr i" "host_entry (m, s) = [(i, m, svc_servers s)]"
  using assms by (auto simp: host_port_ok_def host_entry_def split: list.splits sum.splits)

lemma valid_ports:
  assumes "accepts sched tz c"
  shows "distinct (listen_ports (cfg_services c))" "set (listen_ports (cfg_services c)) \<inter> {0, 80, 443} = {}"
    "list_all host_port_ok (cfg_services c)"
    "sorted_wrt (\<lambda>e f. \<not> port_clash e f) (concat (map host_entry (cfg_services c)))"
proof -
  have "validate_tcp_targets c = []" "validate_host_network_ports c = []"
    using assms by (simp_all add: valid_iff config_errors_def Let_def)
  then show "distinct (listen_ports (cfg_services c))" "set (listen_ports (cfg_services c)) \<inter> {0, 80, 443} = {}"
    "list_all host_port_ok (cfg_services c)"
    "sorted_wrt (\<lambda>e f. \<not> port_clash e f) (concat (map host_entry (cfg_services c)))"
    by (auto simp: validate_tcp_targets_def run_tcp_calls_silent listen_ports_def
        validate_host_network_ports_def host_port_errors_silent)
qed

section \<open>What an accepted configuration guarantees\<close>

text \<open>
  C17.  In an accepted configuration every reference resolves.  Each service names at least one
  server and only configured servers.  A service that shares another one's network names a
  different, configured service, which itself shares nobody's network and uses neither the host
  network nor none, and runs only where that service runs; it is not scaled, has no proxy and no
  cron job.
\<close>

theorem accepted_references_resolve:
  assumes ok: "accepts sched tz c"
    and s: "(name, s) \<in> set (cfg_services c)"
  shows "svc_servers s \<noteq> [] \<and> set (svc_servers s) \<subseteq> fst ` set (cfg_servers c) \<and>
    (case network_mode_dependency s of
       None \<Rightarrow> True
     | Some u \<Rightarrow>
         u \<noteq> name \<and> svc_scale s \<le> 1 \<and> svc_proxy s = None \<and> svc_crons s = [] \<and>
         (\<exists>up. map_of (cfg_services c) u = Some up \<and> network_mode_dependency up = None \<and>
            svc_network_mode up \<notin> {''host'', ''none''} \<and> set (svc_servers s) \<subseteq> set (svc_servers up)))"
proof (cases "network_mode_dependency s")
  case None
  then show ?thesis using valid_service [OF ok s] by (simp add: service_errors_silent rule_silent)
next
  case (Some u)
  note silent = valid_service [OF ok s, unfolded service_errors_silent]
  from silent Some obtain up where up: "u \<noteq> name" "map_of (cfg_services c) u = Some up"
    "network_mode_dependency up = None" "svc_network_mode up \<noteq> ''host''"
    "set (svc_servers s) \<subseteq> set (svc_servers up)"
    by (auto simp: upstream_errors_silent)
  have "svc_network_mode up \<noteq> ''none''"
    using valid_service [OF ok map_of_SomeD [OF up(2)]]
    by (simp add: service_errors_silent network_mode_errors_silent)
  moreover have "svc_network_mode s \<noteq> ''bridge''"
    using Some by (auto simp: network_mode_dependency_def strip_prefix_Some)
  moreover have "svc_crons s = []"
    using silent Some by (auto simp: validate_service_crons_def split: if_splits)
  ultimately show ?thesis
    using silent Some up
    by (auto simp: server_errors_silent network_mode_errors_silent not_less)
qed

text \<open>
  C22.  In an accepted configuration no two raw TCP routes listen on the same public port, none of
  them listens on 0, 80 or 443, and two different services on the host network that share a server
  declare different ports.
\<close>

theorem accepted_ports_exclusive:
  assumes ok: "accepts sched tz c"
  shows "distinct (listen_ports (cfg_services c)) \<and> set (listen_ports (cfg_services c)) \<inter> {0, 80, 443} = {} \<and>
    (\<forall>(m, s) \<in> set (cfg_services c). \<forall>(n, t) \<in> set (cfg_services c).
       m \<noteq> n \<and> svc_network_mode s = ''host'' \<and> svc_network_mode t = ''host'' \<and>
       set (svc_servers s) \<inter> set (svc_servers t) \<noteq> {} \<longrightarrow>
       (\<forall>p \<in> set (svc_ports s). \<forall>q \<in> set (svc_ports t).
          \<exists>i j. parse_uint 65535 p = Inr i \<and> parse_uint 65535 q = Inr j \<and> i \<noteq> j))"
proof -
  have "\<exists>i j. parse_uint 65535 p = Inr i \<and> parse_uint 65535 q = Inr j \<and> i \<noteq> j"
    if s: "(m, s) \<in> set (cfg_services c)" and t: "(n, t) \<in> set (cfg_services c)" and "m \<noteq> n"
      and host: "svc_network_mode s = ''host''" "svc_network_mode t = ''host''"
      and shared: "set (svc_servers s) \<inter> set (svc_servers t) \<noteq> {}"
      and p: "p \<in> set (svc_ports s)" and q: "q \<in> set (svc_ports t)" for m s n t p q
  proof -
    have "host_port_ok (m, s)" "host_port_ok (n, t)"
      using valid_ports(3) [OF ok] s t by (auto simp: list_all_iff)
    then obtain i j where i: "parse_uint 65535 p = Inr i" "host_entry (m, s) = [(i, m, svc_servers s)]"
      and j: "parse_uint 65535 q = Inr j" "host_entry (n, t) = [(j, n, svc_servers t)]"
      using host p q by (metis host_port_ok_entry)
    have "(i, m, svc_servers s) \<in> set (concat (map host_entry (cfg_services c)))"
      "(j, n, svc_servers t) \<in> set (concat (map host_entry (cfg_services c)))"
      using s t i(2) j(2) by force+
    then have "\<not> port_clash (i, m, svc_servers s) (j, n, svc_servers t)"
      using sorted_wrt_symD [OF symp_not_port_clash valid_ports(4) [OF ok]] \<open>m \<noteq> n\<close> by blast
    then show ?thesis using i(1) j(1) shared by (auto simp: port_clash_def)
  qed
  then show ?thesis using valid_ports(1,2) [OF ok] by blast
qed

subsection \<open>The order of the hash maps\<close>

lemma foldl_saturating:
  fixes M :: nat
  shows "t \<le> M \<Longrightarrow> foldl (\<lambda>t x. min (t + w x) M) t xs = min (t + sum_list (map w xs)) M"
  by (induction xs arbitrary: t) (auto simp: min_def)

definition service_weight :: "string \<times> Service \<Rightarrow> nat" where
  "service_weight = (\<lambda>(name, s). u32_saturating_mul (length (svc_servers s) mod 2 ^ 32) (svc_scale s))"

lemma total_replicas_sum: "total_replicas ss = min (sum_list (map service_weight ss)) (2 ^ 32 - 1)"
  using foldl_saturating [of 0 "2 ^ 32 - 1" service_weight ss]
  by (simp add: total_replicas_def u32_saturating_add_def service_weight_def case_prod_unfold)

lemma total_crons_sum:
  "total_crons ss = min (sum_list (map (\<lambda>x. length (svc_crons (snd x))) ss)) (2 ^ 64 - 1)"
  using foldl_saturating [of 0 "2 ^ 64 - 1" "\<lambda>x. length (svc_crons (snd x))" ss]
  by (simp add: total_crons_def usize_saturating_add_def case_prod_unfold)

lemma sum_list_mset_eq:
  fixes w :: "'a \<Rightarrow> nat"
  assumes "mset xs = mset ys"
  shows "sum_list (map w xs) = sum_list (map w ys)"
  by (metis assms mset_map sum_mset_sum_list)

lemma mset_concat_map: "mset xs = mset ys \<Longrightarrow> mset (concat (map f xs)) = mset (concat (map f ys))"
proof -
  assume "mset xs = mset ys"
  then have "mset (map (\<lambda>x. mset (f x)) xs) = mset (map (\<lambda>x. mset (f x)) ys)" by (metis mset_map)
  then have "sum_list (map (\<lambda>x. mset (f x)) xs) = sum_list (map (\<lambda>x. mset (f x)) ys)"
    by (metis sum_mset_sum_list)
  then show "mset (concat (map f xs)) = mset (concat (map f ys))" by (simp add: mset_concat comp_def)
qed

lemma mset_tcp:
  assumes "mset xs = mset ys"
  shows "mset (listen_ports xs) = mset (listen_ports ys)"
    "set (concat (map tcp_calls xs)) = set (concat (map tcp_calls ys))"
proof -
  have calls: "mset (concat (map tcp_calls xs)) = mset (concat (map tcp_calls ys))"
    by (rule mset_concat_map [OF assms])
  then show "mset (listen_ports xs) = mset (listen_ports ys)"
    unfolding listen_ports_def call_ports_def by (rule mset_concat_map)
  show "set (concat (map tcp_calls xs)) = set (concat (map tcp_calls ys))"
    by (rule mset_eq_setD [OF calls])
qed

definition reordered :: "Config \<Rightarrow> Config \<Rightarrow> bool" where
  "reordered c d \<longleftrightarrow>
     mset (cfg_servers d) = mset (cfg_servers c) \<and> mset (cfg_services d) = mset (cfg_services c) \<and>
     d = c\<lparr>cfg_servers := cfg_servers d, cfg_services := cfg_services d\<rparr>"

lemma map_of_mset:
  assumes "mset xs = mset ys" "distinct (map fst xs)"
  shows "map_of xs = map_of ys"
proof -
  have "distinct (map fst ys)" by (metis assms mset_eq_imp_distinct_iff mset_map)
  moreover have "set xs = set ys" using assms(1) by (rule mset_eq_setD)
  ultimately show ?thesis using assms(2) by (metis map_of_inject_set)
qed

lemma reordered_rules:
  assumes r: "reordered c d" and wf: "config_wf c"
  shows "service_errors sched tz d x = [] \<longleftrightarrow> service_errors sched tz c x = []"
    "validate_tcp_targets d = [] \<longleftrightarrow> validate_tcp_targets c = []"
    "validate_host_network_ports d = [] \<longleftrightarrow> validate_host_network_ports c = []"
    "validate_ssh d = [] \<longleftrightarrow> validate_ssh c = []"
    "validate_builder d = validate_builder c"
proof -
  have sets: "set (cfg_servers d) = set (cfg_servers c)" "set (cfg_services d) = set (cfg_services c)"
    using r by (auto simp: reordered_def dest: mset_eq_setD)
  have services: "mset (cfg_services d) = mset (cfg_services c)" using r by (simp add: reordered_def)
  have "map_of (cfg_services c) = map_of (cfg_services d)"
    by (rule map_of_mset [OF services [symmetric]]) (use wf in \<open>simp add: config_wf_def\<close>)
  then show "service_errors sched tz d x = [] \<longleftrightarrow> service_errors sched tz c x = []"
    using sets by (cases x) (simp add: service_errors_silent rule_silent)
  have "distinct (listen_ports (cfg_services d)) \<longleftrightarrow> distinct (listen_ports (cfg_services c))"
    "set (listen_ports (cfg_services d)) = set (listen_ports (cfg_services c))"
    using mset_tcp(1) [OF services] mset_eq_imp_distinct_iff mset_eq_setD by blast+
  then show "validate_tcp_targets d = [] \<longleftrightarrow> validate_tcp_targets c = []"
    unfolding validate_tcp_targets_def run_tcp_calls_silent listen_ports_def list_all_iff
      mset_tcp(2) [OF services] by simp
  have "mset (concat (map host_entry (cfg_services d))) = mset (concat (map host_entry (cfg_services c)))"
    by (rule mset_concat_map [OF services])
  then show "validate_host_network_ports d = [] \<longleftrightarrow> validate_host_network_ports c = []"
    unfolding validate_host_network_ports_def host_port_errors_silent list_all_iff
      sorted_wrt_mset [OF symp_not_port_clash] sets by simp
  have same_rest: "d = c\<lparr>cfg_servers := cfg_servers d, cfg_services := cfg_services d\<rparr>"
    using r by (simp add: reordered_def)
  have same: "cfg_ssh d = cfg_ssh c" "cfg_builder d = cfg_builder c"
    using arg_cong [OF same_rest, of cfg_ssh] arg_cong [OF same_rest, of cfg_builder] by simp_all
  then show "validate_ssh d = [] \<longleftrightarrow> validate_ssh c = []"
    using sets by (simp add: validate_ssh_def list_all_iff Let_def split: option.splits)
  show "validate_builder d = validate_builder c"
    using same by (simp add: validate_builder_def)
qed

text \<open>
  Whether a configuration is accepted does not depend on the order in which its servers and
  services are iterated, although the errors reported for a rejected one do: the port checks
  compare each service with those before it.
\<close>

theorem validation_order_irrelevant:
  assumes r: "reordered c d" and wf: "config_wf c"
  shows "accepts sched tz d = accepts sched tz c"
proof -
  have services: "mset (cfg_services d) = mset (cfg_services c)" using r by (simp add: reordered_def)
  have sets: "set (cfg_services d) = set (cfg_services c)" by (rule mset_eq_setD [OF services])
  have lens: "length (cfg_services d) = length (cfg_services c)" "length (cfg_servers d) = length (cfg_servers c)"
    using r by (auto simp: reordered_def dest: mset_eq_length)
  have totals: "total_replicas (cfg_services d) = total_replicas (cfg_services c)"
    "total_crons (cfg_services d) = total_crons (cfg_services c)"
    by (simp_all add: total_replicas_sum total_crons_sum sum_list_mset_eq [OF services])
  have concats: "concat (map f (cfg_services d)) = [] \<longleftrightarrow> concat (map f (cfg_services c)) = []"
    for f :: "string \<times> Service \<Rightarrow> ValidationError list"
    by (simp add: sets)
  have rules: "concat (map (service_errors sched tz d) (cfg_services c)) = [] \<longleftrightarrow>
    concat (map (service_errors sched tz c) (cfg_services c)) = []"
    by (simp add: sets reordered_rules(1) [OF r wf])
  show ?thesis
    unfolding valid_iff config_errors_def Let_def validate_proxy_hosts_def
      validate_proxy_has_a_routable_host_def append_is_Nil_conv push_if_Nil
      concats rules lens totals reordered_rules [OF r wf] ..
qed

section \<open>A configuration that is accepted\<close>

definition plain_service :: "string \<Rightarrow> string list \<Rightarrow> string list \<Rightarrow> Service" where
  "plain_service mode servers ports =
     default_service\<lparr>svc_network_mode := mode, svc_servers := servers, svc_ports := ports\<rparr>"

definition accepted_config :: "Config" where
  "accepted_config =
     \<lparr>cfg_project = ''demo'',
      cfg_builder = \<lparr>b_engine = Docker, b_remote = Some ''ssh://ci@build:2222'', b_cache = True, b_registry = default_registry\<rparr>,
      cfg_servers = [(''b'', default_server ''10.0.0.2''), (''a'', default_server ''10.0.0.1'')],
      cfg_services =
        [(''vpn'', (plain_service ''bridge'' [''a'', ''b''] [])
            \<lparr>svc_proxy := Some \<lparr>px_port = Some 8080, px_hosts = None, px_ssl = None, px_path_prefix = None,
               px_healthcheck = None, px_targets = None, px_listen_port = Some 5432\<rparr>\<rparr>),
         (''client'', plain_service ''service:vpn'' [''b''] []),
         (''metrics'', plain_service ''host'' [''a'', ''b''] [''9100'']),
         (''exporter'', plain_service ''host'' [''b''] [''9200''])],
      cfg_ssh = None, cfg_network = None, cfg_secrets_path = None, cfg_secrets = None, cfg_environment = None\<rparr>"

definition accepted_reordered :: "Config" where
  "accepted_reordered = accepted_config\<lparr>cfg_servers := rev (cfg_servers accepted_config), cfg_services := rev (cfg_services accepted_config)\<rparr>"

lemma accepted_config_valid: "accepts (\<lambda>_. Inr ()) (\<lambda>_. Inr ()) accepted_config"
proof -
  have "parse_remote_builder_uri ''ssh://ci@build:2222'' = Inr \<lparr>rb_host = ''build'', rb_user = Some ''ci'', rb_port = Some 2222\<rparr>"
    by (simp add: parse_remote_builder_uri_def is_plain_def is_whitespace_def SCHEME_PREFIX_def rsplit_once_def
        parse_user_def parse_host_port_def parse_port_def parse_uint_def is_ascii_digit_def digit_val_def)
  then have "validate_builder accepted_config = []"
    by (simp add: validate_builder_def accepted_config_def default_registry_def)
  moreover have "service_errors (\<lambda>_. Inr ()) (\<lambda>_. Inr ()) accepted_config x = []"
    if "x \<in> set (cfg_services accepted_config)" for x
    using that
    by (auto simp: accepted_config_def service_errors_silent rule_silent plain_service_def default_service_def
        network_mode_dependency_def starts_with_def validate_service_crons_def validate_service_build_secrets_def)
  moreover have "total_crons (cfg_services accepted_config) \<le> MAX_CRONS_PER_PROJECT"
    "total_replicas (cfg_services accepted_config) \<le> MAX_REPLICAS"
    by (simp_all add: total_crons_sum total_replicas_sum service_weight_def u32_saturating_mul_def
        accepted_config_def plain_service_def default_service_def MAX_CRONS_PER_PROJECT_def MAX_REPLICAS_def)
  moreover have "validate_tcp_targets accepted_config = []"
    unfolding validate_tcp_targets_def run_tcp_calls_silent
    by (simp add: accepted_config_def tcp_calls_def
        call_ports_def http_free_def plain_service_def default_service_def)
  moreover have "validate_host_network_ports accepted_config = []"
    unfolding validate_host_network_ports_def host_port_errors_silent
    by (simp add: accepted_config_def host_port_ok_def
        host_entry_def plain_service_def default_service_def parse_uint_def is_ascii_digit_def digit_val_def port_clash_def)
  moreover have "validate_proxy_hosts accepted_config = []" "validate_proxy_has_a_routable_host accepted_config = []"
    "validate_ssh accepted_config = []"
    by (simp_all add: validate_proxy_hosts_def proxy_hosts_errors_def validate_hosts_and_ssl_def hosts_or_default_def
        validate_proxy_has_a_routable_host_def routable_host_errors_def validate_ssh_def accepted_config_def
        plain_service_def default_service_def)
  moreover have "length (cfg_servers accepted_config) \<le> MAX_NODES" "length (cfg_services accepted_config) \<le> MAX_SERVICES"
    by (simp_all add: accepted_config_def MAX_NODES_def MAX_SERVICES_def)
  ultimately show ?thesis by (simp add: valid_iff config_errors_def Let_def)
qed

theorem accepted_references_resolve_witness:
  "\<exists>s. (''client'', s) \<in> set (cfg_services accepted_config) \<and> network_mode_dependency s = Some ''vpn'' \<and>
     (\<exists>up. map_of (cfg_services accepted_config) ''vpn'' = Some up \<and> set (svc_servers s) \<subseteq> set (svc_servers up))"
proof -
  have s: "(''client'', plain_service ''service:vpn'' [''b''] []) \<in> set (cfg_services accepted_config)"
    by (simp add: accepted_config_def)
  have d: "network_mode_dependency (plain_service ''service:vpn'' [''b''] []) = Some ''vpn''" by code_simp
  show ?thesis using accepted_references_resolve [OF accepted_config_valid s] s d by auto
qed

theorem accepted_ports_exclusive_witness:
  "listen_ports (cfg_services accepted_config) = [5432] \<and>
   (\<exists>i j. parse_uint 65535 ''9100'' = Inr i \<and> parse_uint 65535 ''9200'' = Inr j \<and> i \<noteq> j)"
proof -
  have s: "(''metrics'', plain_service ''host'' [''a'', ''b''] [''9100'']) \<in> set (cfg_services accepted_config)"
    "(''exporter'', plain_service ''host'' [''b''] [''9200'']) \<in> set (cfg_services accepted_config)"
    by (simp_all add: accepted_config_def)
  have "\<exists>i j. parse_uint 65535 ''9100'' = Inr i \<and> parse_uint 65535 ''9200'' = Inr j \<and> i \<noteq> j"
    using accepted_ports_exclusive [OF accepted_config_valid, THEN conjunct2, THEN conjunct2,
        THEN bspec [OF _ s(1)], simplified, THEN bspec [OF _ s(2)]]
    by (simp add: plain_service_def)
  moreover have "listen_ports (cfg_services accepted_config) = [5432]"
    by (simp add: listen_ports_def call_ports_def accepted_config_def tcp_calls_def plain_service_def default_service_def)
  ultimately show ?thesis by blast
qed

theorem validation_order_irrelevant_witness:
  "cfg_services accepted_reordered \<noteq> cfg_services accepted_config \<and>
   accepts (\<lambda>_. Inr ()) (\<lambda>_. Inr ()) accepted_reordered"
proof -
  have "reordered accepted_config accepted_reordered"
    by (simp add: reordered_def accepted_reordered_def)
  moreover have "config_wf accepted_config"
    by (simp add: config_wf_def accepted_config_def plain_service_def default_service_def)
  ultimately have "accepts (\<lambda>_. Inr ()) (\<lambda>_. Inr ()) accepted_reordered"
    using validation_order_irrelevant accepted_config_valid by blast
  then show ?thesis by (simp add: accepted_reordered_def accepted_config_def)
qed

end
