(* ===== verification/Cascade.thy ===== *)
theory Cascade
  imports Planner Validation Env_Resolution
begin

text \<open>
  Replica placement and the cascade of a deployment:
  \<^verbatim>\<open>crates/jiji-cli/src/placement.rs\<close>, \<^verbatim>\<open>crates/jiji-cli/src/cascade.rs\<close> and the two dispatch
  waves of \<^verbatim>\<open>crates/jiji-cli/src/commands/deploy.rs\<close>.  A service that shares another service's
  network namespace has to be redeployed after that service, so a selection is extended by the
  dependents and split into two waves.  A lookup that the code expects to succeed makes the
  function return \<open>None\<close> when it does not.  Deploying one endpoint is the argument \<open>deploy\<close>, a
  state transformer with an outcome.  The services of a wave run concurrently, each over its
  endpoints in order: a schedule says which service deploys its next endpoint, so deploying one
  endpoint is the unit of interleaving.  The bound of the pool only restricts the schedules.

  The results: an accepted configuration never places more replicas than the limit, the cascade
  selects every dependent on every server of a selected upstream and never fails on a planned
  configuration, and a dependent is attempted only after its upstream was deployed completely.
\<close>

section \<open>Placement\<close>

record ReplicaAssignment =
  ra_replica_id :: string
  ra_ordinal :: nat
  ra_server :: string

definition replica_id_for :: "digest \<Rightarrow> string \<Rightarrow> string \<Rightarrow> string \<Rightarrow> nat \<Rightarrow> string" where
  "replica_id_for sha256 project service server local_index =
     (let d = sha256 (project @ [CHR 0x00] @ service @ [CHR 0x00] @ server @ [CHR 0x00] @ show_nat local_index)
      in service @ ''-'' @ concat (map (\<lambda>i. show_hex 2 (unat (d ! i))) [0..<6]))"

definition assignments_for :: "digest \<Rightarrow> string \<Rightarrow> string \<Rightarrow> string list \<Rightarrow> nat \<Rightarrow> ReplicaAssignment list" where
  "assignments_for sha256 project service servers scale =
     (let servers = remdups_adj (sort servers);
          pairs = concat (map (\<lambda>server. map (\<lambda>local_index. (server, local_index)) [0..<scale]) servers)
      in map (\<lambda>(ordinal, server, local_index).
           \<lparr>ra_replica_id = replica_id_for sha256 project service server local_index,
            ra_ordinal = ordinal, ra_server = server\<rparr>) (enumerate 0 pairs))"

section \<open>Expanding a selection\<close>

definition replica_identity :: "Config \<Rightarrow> string \<Rightarrow> string \<Rightarrow> string" where
  "replica_identity config service replica_id = cfg_project config @ '':'' @ service @ '':'' @ replica_id"

type_synonym replica_ids = "(string, string) btree_map"

text \<open>Adding one endpoint under the identity of one of its replicas.\<close>

definition select_replica ::
  "digest \<Rightarrow> Config \<Rightarrow> ServiceEndpointPlan \<Rightarrow> nat \<Rightarrow> ServiceEndpointPlan list \<times> replica_ids
   \<Rightarrow> ServiceEndpointPlan list \<times> replica_ids" where
  "select_replica sha256 config endpoint local_index = (\<lambda>(selected, replica_ids).
     let replica_id = replica_id_for sha256 (cfg_project config) (ep_service endpoint) (ep_server endpoint) local_index;
         identity = replica_identity config (ep_service endpoint) replica_id
     in (selected @ [endpoint\<lparr>ep_identity := identity\<rparr>], bt_insert identity replica_id replica_ids))"

fun expand_loop ::
  "digest \<Rightarrow> Config \<Rightarrow> ServiceEndpointPlan list \<Rightarrow> ServiceEndpointPlan list \<times> replica_ids
   \<Rightarrow> (ServiceEndpointPlan list \<times> replica_ids) option" where
  "expand_loop sha256 config [] acc = Some acc"
| "expand_loop sha256 config (endpoint # rest) acc =
     (case map_of (cfg_services config) (ep_service endpoint) of
        None \<Rightarrow> None
      | Some service \<Rightarrow>
          expand_loop sha256 config rest
            (foldl (\<lambda>a i. select_replica sha256 config endpoint i a) acc [0..<svc_scale service]))"

definition expand_replicas ::
  "digest \<Rightarrow> Config \<Rightarrow> ServiceEndpointPlan list \<Rightarrow> (ServiceEndpointPlan list \<times> replica_ids) option" where
  "expand_replicas sha256 config matched_endpoints = expand_loop sha256 config matched_endpoints ([], [])"

text \<open>The servers on which each service is selected: a \<^verbatim>\<open>BTreeSet\<close> is a sorted list without repetition.\<close>

definition upstream_servers :: "ServiceEndpointPlan list \<Rightarrow> string \<Rightarrow> string list option" where
  "upstream_servers selected name =
     (let servers = map ep_server (filter (\<lambda>e. ep_service e = name) selected)
      in if servers = [] then None else Some (sorted_list_of_set (set servers)))"

fun cascade_servers ::
  "digest \<Rightarrow> Config \<Rightarrow> NetworkPlan \<Rightarrow> string \<Rightarrow> Service \<Rightarrow> string list
   \<Rightarrow> ServiceEndpointPlan list \<times> replica_ids \<Rightarrow> (ServiceEndpointPlan list \<times> replica_ids) option" where
  "cascade_servers sha256 config p dependent_name dependent [] acc = Some acc"
| "cascade_servers sha256 config p dependent_name dependent (server_name # rest) acc =
     (if server_name \<notin> set (svc_servers dependent)
      then cascade_servers sha256 config p dependent_name dependent rest acc
      else case find (\<lambda>e. ep_service e = dependent_name \<and> ep_server e = server_name) (bt_values (np_endpoints p)) of
        None \<Rightarrow> None
      | Some endpoint \<Rightarrow>
          cascade_servers sha256 config p dependent_name dependent rest
            (select_replica sha256 config endpoint 0 acc))"

fun cascade_services ::
  "digest \<Rightarrow> Config \<Rightarrow> NetworkPlan \<Rightarrow> ServiceEndpointPlan list \<Rightarrow> (string \<times> Service) list
   \<Rightarrow> ServiceEndpointPlan list \<times> replica_ids \<Rightarrow> (ServiceEndpointPlan list \<times> replica_ids) option" where
  "cascade_services sha256 config p before [] acc = Some acc"
| "cascade_services sha256 config p before ((dependent_name, dependent) # rest) acc =
     (case network_mode_dependency dependent of
        None \<Rightarrow> cascade_services sha256 config p before rest acc
      | Some upstream_name \<Rightarrow>
          (if dependent_name \<in> ep_service ` set before
           then cascade_services sha256 config p before rest acc
           else case upstream_servers before upstream_name of
             None \<Rightarrow> cascade_services sha256 config p before rest acc
           | Some servers \<Rightarrow>
               (case cascade_servers sha256 config p dependent_name dependent servers acc of
                  None \<Rightarrow> None
                | Some acc' \<Rightarrow> cascade_services sha256 config p before rest acc')))"

definition add_cascaded_dependents ::
  "digest \<Rightarrow> Config \<Rightarrow> NetworkPlan \<Rightarrow> ServiceEndpointPlan list \<Rightarrow> replica_ids
   \<Rightarrow> (ServiceEndpointPlan list \<times> replica_ids) option" where
  "add_cascaded_dependents sha256 config p selected replica_ids =
     (case cascade_services sha256 config p selected (cfg_services config) (selected, replica_ids) of
        None \<Rightarrow> None
      | Some (all, ids) \<Rightarrow> Some (sort_key ep_identity all, ids))"

section \<open>The two waves\<close>

type_synonym endpoints_by_service = "(string, ServiceEndpointPlan list) btree_map"

fun dependents_loop ::
  "Config \<Rightarrow> endpoints_by_service \<Rightarrow> string list \<Rightarrow> (string, string list) btree_map
   \<Rightarrow> (string, string list) btree_map option" where
  "dependents_loop config by_service [] acc = Some acc"
| "dependents_loop config by_service (service_name # rest) acc =
     (case map_of (cfg_services config) service_name of
        None \<Rightarrow> None
      | Some service \<Rightarrow>
          (case network_mode_dependency service of
             Some upstream_name \<Rightarrow>
               (if map_of by_service upstream_name \<noteq> None
                then dependents_loop config by_service rest (bt_push upstream_name service_name acc)
                else dependents_loop config by_service rest acc)
           | None \<Rightarrow> dependents_loop config by_service rest acc))"

definition in_wave_two :: "Config \<Rightarrow> (string, string list) btree_map \<Rightarrow> string \<Rightarrow> bool" where
  "in_wave_two config dependents_of name =
     (case map_of (cfg_services config) name of
        None \<Rightarrow> False
      | Some service \<Rightarrow>
          (case network_mode_dependency service of
             None \<Rightarrow> False
           | Some upstream \<Rightarrow> map_of dependents_of upstream \<noteq> None))"

definition compute_service_waves ::
  "Config \<Rightarrow> endpoints_by_service
   \<Rightarrow> ((string, string list) btree_map \<times> endpoints_by_service \<times> endpoints_by_service) option" where
  "compute_service_waves config by_service =
     (case dependents_loop config by_service (bt_keys by_service) [] of
        None \<Rightarrow> None
      | Some dependents_of \<Rightarrow>
          Some (dependents_of,
                filter (\<lambda>(name, _). \<not> in_wave_two config dependents_of name) by_service,
                filter (\<lambda>(name, _). in_wave_two config dependents_of name) by_service))"

section \<open>Deploying\<close>

datatype EndpointOutcome =
    Deployed (outcome_deployment: string)
  | FailedWith (outcome_error: string)
  | SkippedAfterSiblingFailure

fun is_deployed :: "EndpointOutcome \<Rightarrow> bool" where
  "is_deployed (Deployed _) = True"
| "is_deployed _ = False"

text \<open>What the deployment of one endpoint is given, apart from what is the same for the whole run.\<close>

record EndpointDeploymentContext =
  ctx_server :: ServerPlan
  ctx_endpoint :: ServiceEndpointPlan
  ctx_service_name :: string
  ctx_replica_id :: string
  ctx_service :: Service
  ctx_image :: string
  ctx_resolved_env :: ResolvedEnvironment
  ctx_skip_proxy :: bool

type_synonym 'w deployer = "EndpointDeploymentContext \<Rightarrow> 'w \<Rightarrow> EndpointOutcome \<times> 'w"

text \<open>What a run has gathered before it deploys: its sessions, plan and replica ids, and the image and environment of each service.\<close>

record DeployRun =
  dr_sessions :: "string list"
  dr_plan :: NetworkPlan
  dr_replica_ids :: replica_ids
  dr_images :: "(string, string) btree_map"
  dr_resolved_envs :: "(string, ResolvedEnvironment) btree_map"
  dr_skip_proxy :: bool

record ServiceTask =
  tk_service_name :: string
  tk_service :: Service
  tk_images :: "(string \<times> string) list"
  tk_resolved_env :: ResolvedEnvironment
  tk_skip_proxy :: bool
  tk_endpoints :: "ServiceEndpointPlan list"
  tk_presumed_failed :: bool

definition endpoint_context :: "DeployRun \<Rightarrow> ServiceTask \<Rightarrow> ServiceEndpointPlan \<Rightarrow> EndpointDeploymentContext option" where
  "endpoint_context run task endpoint =
     (if ep_server endpoint \<notin> set (dr_sessions run) then None
      else case map_of (np_servers (dr_plan run)) (ep_server endpoint) of
        None \<Rightarrow> None
      | Some server \<Rightarrow>
          (case map_of (dr_replica_ids run) (ep_identity endpoint) of
             None \<Rightarrow> None
           | Some replica_id \<Rightarrow>
               (case map_of (tk_images task) (ep_identity endpoint) of
                  None \<Rightarrow> None
                | Some image_ref \<Rightarrow>
                    Some \<lparr>ctx_server = server, ctx_endpoint = endpoint, ctx_service_name = tk_service_name task,
                      ctx_replica_id = replica_id, ctx_service = tk_service task, ctx_image = image_ref,
                      ctx_resolved_env = tk_resolved_env task, ctx_skip_proxy = tk_skip_proxy task\<rparr>)))"

text \<open>The body of the loop, on whether a sibling failed and the outcomes so far.\<close>

type_synonym service_progress = "bool \<times> (string \<times> EndpointOutcome) list"

fun deploy_next ::
  "'w deployer \<Rightarrow> DeployRun \<Rightarrow> ServiceTask \<Rightarrow> ServiceEndpointPlan \<Rightarrow> service_progress \<Rightarrow> 'w \<Rightarrow> (service_progress \<times> 'w) option" where
  "deploy_next deploy run task endpoint (sibling_failed, outcomes) w =
     (if sibling_failed
      then Some ((True, outcomes @ [(ep_identity endpoint, SkippedAfterSiblingFailure)]), w)
      else case endpoint_context run task endpoint of
        None \<Rightarrow> None
      | Some ctx \<Rightarrow>
          (let (outcome, w') = deploy ctx w
           in Some ((\<not> is_deployed outcome, outcomes @ [(ep_identity endpoint, outcome)]), w')))"

fun deploy_service_endpoints ::
  "'w deployer \<Rightarrow> DeployRun \<Rightarrow> ServiceTask \<Rightarrow> ServiceEndpointPlan list \<Rightarrow> service_progress \<Rightarrow> 'w
   \<Rightarrow> ((string \<times> (string \<times> EndpointOutcome) list) \<times> 'w) option" where
  "deploy_service_endpoints deploy run task [] progress w = Some ((tk_service_name task, snd progress), w)"
| "deploy_service_endpoints deploy run task (endpoint # endpoints) progress w =
     (case deploy_next deploy run task endpoint progress w of
        None \<Rightarrow> None
      | Some (progress', w') \<Rightarrow> deploy_service_endpoints deploy run task endpoints progress' w')"

type_synonym wave_result = "(string \<times> (string \<times> EndpointOutcome) list) list"

text \<open>
  The tasks of a wave: while the schedule lasts, its next entry names the task that deploys its
  next endpoint; then the tasks left over are finished in turn.  The results come in the order of
  the tasks.
\<close>

type_synonym running_task = "ServiceTask \<times> service_progress \<times> ServiceEndpointPlan list"

fun interleave :: "'w deployer \<Rightarrow> DeployRun \<Rightarrow> nat list \<Rightarrow> running_task list \<Rightarrow> 'w \<Rightarrow> (running_task list \<times> 'w) option" where
  "interleave deploy run [] tasks w = Some (tasks, w)"
| "interleave deploy run (i # schedule) tasks w =
     (if i < length tasks
      then case tasks ! i of
          (task, progress, []) \<Rightarrow> interleave deploy run schedule tasks w
        | (task, progress, endpoint # endpoints) \<Rightarrow>
            (case deploy_next deploy run task endpoint progress w of
               None \<Rightarrow> None
             | Some (progress', w') \<Rightarrow> interleave deploy run schedule (tasks[i := (task, progress', endpoints)]) w')
      else interleave deploy run schedule tasks w)"

fun finish_tasks :: "'w deployer \<Rightarrow> DeployRun \<Rightarrow> running_task list \<Rightarrow> 'w \<Rightarrow> (wave_result \<times> 'w) option" where
  "finish_tasks deploy run [] w = Some ([], w)"
| "finish_tasks deploy run ((task, progress, endpoints) # tasks) w =
     (case deploy_service_endpoints deploy run task endpoints progress w of
        None \<Rightarrow> None
      | Some (result, w1) \<Rightarrow>
          (case finish_tasks deploy run tasks w1 of
             None \<Rightarrow> None
           | Some (results, w2) \<Rightarrow> Some (result # results, w2)))"

definition run_wave :: "'w deployer \<Rightarrow> DeployRun \<Rightarrow> nat list \<Rightarrow> ServiceTask list \<Rightarrow> 'w \<Rightarrow> (wave_result \<times> 'w) option" where
  "run_wave deploy run schedule tasks w =
     (case interleave deploy run schedule (map (\<lambda>task. (task, (tk_presumed_failed task, []), tk_endpoints task)) tasks) w of
        None \<Rightarrow> None
      | Some (tasks', w') \<Rightarrow> finish_tasks deploy run tasks' w')"

definition fully_deployed :: "(string \<times> EndpointOutcome) list \<Rightarrow> bool" where
  "fully_deployed outcomes = list_all (\<lambda>(_, outcome). is_deployed outcome) outcomes"

definition upstream_failed :: "wave_result \<Rightarrow> string \<Rightarrow> bool" where
  "upstream_failed results upstream =
     (case map_of results upstream of None \<Rightarrow> False | Some outcomes \<Rightarrow> \<not> fully_deployed outcomes)"

definition presumed_failed :: "Config \<Rightarrow> wave_result \<Rightarrow> string \<Rightarrow> bool" where
  "presumed_failed config results service_name =
     (case map_of (cfg_services config) service_name of
        None \<Rightarrow> False
      | Some service \<Rightarrow>
          upstream_failed results (case network_mode_dependency service of None \<Rightarrow> [] | Some u \<Rightarrow> u))"

definition build_task ::
  "Config \<Rightarrow> DeployRun \<Rightarrow> (string, string list) btree_map \<Rightarrow> wave_result \<Rightarrow> string \<times> ServiceEndpointPlan list \<Rightarrow> ServiceTask option" where
  "build_task config run dependents_of results = (\<lambda>(service_name, endpoints).
     case map_of (cfg_services config) service_name of
       None \<Rightarrow> None
     | Some service \<Rightarrow>
         (case map_of (dr_images run) service_name of
            None \<Rightarrow> None
          | Some image_ref \<Rightarrow>
              (case map_of (dr_resolved_envs run) service_name of
                 None \<Rightarrow> None
               | Some resolved_env \<Rightarrow>
                   Some \<lparr>tk_service_name = service_name, tk_service = service,
                     tk_images = map (\<lambda>endpoint. (ep_identity endpoint, image_ref)) endpoints, tk_resolved_env = resolved_env,
                     tk_skip_proxy = dr_skip_proxy run \<or> map_of dependents_of service_name \<noteq> None,
                     tk_endpoints = endpoints, tk_presumed_failed = presumed_failed config results service_name\<rparr>)))"

definition build_wave ::
  "Config \<Rightarrow> DeployRun \<Rightarrow> (string, string list) btree_map \<Rightarrow> wave_result \<Rightarrow> endpoints_by_service \<Rightarrow> ServiceTask list option" where
  "build_wave config run dependents_of results by_service = collect_options (build_task config run dependents_of results) by_service"

definition deploy_waves ::
  "Config \<Rightarrow> 'w deployer \<Rightarrow> DeployRun \<Rightarrow> nat list \<times> nat list \<Rightarrow> ServiceEndpointPlan list \<Rightarrow> 'w \<Rightarrow> (wave_result \<times> 'w) option" where
  "deploy_waves config deploy run schedules selected w =
     (case compute_service_waves config (bt_group ep_service id selected) of
        None \<Rightarrow> None
      | Some (dependents_of, wave_one, wave_two) \<Rightarrow>
          (case build_wave config run dependents_of [] wave_one of
             None \<Rightarrow> None
           | Some tasks_one \<Rightarrow>
               (case run_wave deploy run (fst schedules) tasks_one w of
                  None \<Rightarrow> None
                | Some (one, w1) \<Rightarrow>
                    (case build_wave config run dependents_of one wave_two of
                       None \<Rightarrow> None
                     | Some tasks_two \<Rightarrow>
                         map_option (\<lambda>(two, w2). (one @ two, w2)) (run_wave deploy run (snd schedules) tasks_two w1)))))"

section \<open>Placement stays within the limit\<close>

lemma distinct_remdups_adj_sorted: "sorted (xs :: string list) \<Longrightarrow> distinct (remdups_adj xs)"
  by (induction xs rule: remdups_adj.induct) (auto dest: antisym)

lemma length_assignments_for:
  "length (assignments_for sha256 project service servers scale) = card (set servers) * scale"
proof -
  have "length (concat (map (\<lambda>s. map (\<lambda>i. (s, i)) [0..<scale]) xs)) = length xs * scale" for xs :: "string list"
    by (induction xs) simp_all
  moreover have "length (remdups_adj (sort servers)) = card (set servers)"
    by (metis distinct_card distinct_remdups_adj_sorted remdups_adj_set set_sort sorted_sort)
  ultimately show ?thesis by (simp add: assignments_for_def Let_def length_enumerate)
qed

text \<open>
  C34.  An accepted configuration never asks for more replicas than the limit: the assignments of
  all services together are at most 2000, although the count is taken with saturating 32-bit
  arithmetic and before repeated servers are dropped.
\<close>

theorem placement_within_limit:
  assumes ok: "accepts sched tz c"
    and len: "\<forall>(name, s) \<in> set (cfg_services c). length (svc_servers s) < 2 ^ 32"
  shows "sum_list (map (\<lambda>(name, s). length (assignments_for sha256 (cfg_project c) name (svc_servers s) (svc_scale s)))
    (cfg_services c)) \<le> MAX_REPLICAS"
proof -
  have "total_replicas (cfg_services c) \<le> MAX_REPLICAS"
    using ok by (simp add: valid_iff config_errors_def Let_def)
  then have total: "sum_list (map service_weight (cfg_services c)) \<le> 2000"
    by (simp add: total_replicas_sum MAX_REPLICAS_def)
  have "(case x of (name, s) \<Rightarrow> length (assignments_for sha256 (cfg_project c) name (svc_servers s) (svc_scale s)))
    \<le> service_weight x" if x: "x \<in> set (cfg_services c)" for x
  proof -
    obtain name s where s: "x = (name, s)" by (cases x)
    have "service_weight x \<le> 2000"
      using total member_le_sum_list [of "service_weight x" "map service_weight (cfg_services c)"] x by simp
    then have "length (svc_servers s) * svc_scale s = service_weight x"
      using len x s by (auto simp: service_weight_def u32_saturating_mul_def min_def split: if_splits)
    moreover have "card (set (svc_servers s)) * svc_scale s \<le> length (svc_servers s) * svc_scale s"
      by (rule mult_le_mono1 [OF card_length])
    ultimately show ?thesis by (simp add: s length_assignments_for)
  qed
  then have "sum_list (map (\<lambda>(name, s). length (assignments_for sha256 (cfg_project c) name (svc_servers s) (svc_scale s)))
    (cfg_services c)) \<le> sum_list (map service_weight (cfg_services c))"
    by (intro sum_list_mono) auto
  with total show ?thesis by (simp add: MAX_REPLICAS_def)
qed

theorem placement_within_limit_witness:
  "sum_list (map (\<lambda>(name, s). length (assignments_for (\<lambda>_. replicate 32 7) (cfg_project accepted_config) name (svc_servers s) (svc_scale s)))
    (cfg_services accepted_config)) \<le> MAX_REPLICAS"
proof -
  have "\<forall>(name, s) \<in> set (cfg_services accepted_config). length (svc_servers s) < 2 ^ 32"
    by (simp add: accepted_config_def plain_service_def)
  from placement_within_limit [OF accepted_config_valid this] show ?thesis .
qed

section \<open>The plan has every endpoint\<close>

definition has_endpoint :: "NetworkPlan \<Rightarrow> string \<Rightarrow> string \<Rightarrow> bool" where
  "has_endpoint p service server \<longleftrightarrow>
     (\<exists>e \<in> set (bt_values (np_endpoints p)). ep_service e = service \<and> ep_server e = server)"



text \<open>
  An endpoint is planned under the identity \<open>project:service:server\<close>.  Two placements with the same
  identity share one entry; no two do when no service name has a colon, or no server name has one.
\<close>

definition distinct_identities :: "Config \<Rightarrow> bool" where
  "distinct_identities c \<longleftrightarrow>
     inj_on (\<lambda>(server, service). endpoint_identity (cfg_project c) service server) (set (service_pairs (cfg_services c)))"

lemma distinct_identitiesI:
  assumes "\<And>s h t g. \<lbrakk>(h, s) \<in> set (service_pairs (cfg_services c)); (g, t) \<in> set (service_pairs (cfg_services c));
    endpoint_identity (cfg_project c) s h = endpoint_identity (cfg_project c) t g\<rbrakk> \<Longrightarrow> s = t \<and> h = g"
  shows "distinct_identities c"
  unfolding distinct_identities_def
proof (rule inj_onI)
  fix x y :: "string \<times> string"
  obtain h s g t where "x = (h, s)" "y = (g, t)" by (cases x, cases y)
  then show "x = y" if "x \<in> set (service_pairs (cfg_services c))" "y \<in> set (service_pairs (cfg_services c))"
    "(case x of (server, service) \<Rightarrow> endpoint_identity (cfg_project c) service server) =
     (case y of (server, service) \<Rightarrow> endpoint_identity (cfg_project c) service server)"
    using that assms [of h s g t] by simp
qed


lemma distinct_identities_servers:
  assumes "\<forall>(name, s) \<in> set (cfg_services c). \<forall>h \<in> set (svc_servers s). CHR '':'' \<notin> set h"
  shows "distinct_identities c"
proof -
  have inj: "s = t \<and> h = g" if "endpoint_identity project s h = endpoint_identity project t g" "CHR '':'' \<notin> set h" "CHR '':'' \<notin> set g"
    for project s t h g
  proof -
    have "rev (s @ CHR '':'' # h) = rev (t @ CHR '':'' # g)" using that(1) by simp
    then have "rev h @ CHR '':'' # rev s = rev g @ CHR '':'' # rev t" by simp
    then have "Some (rev h, rev s) = Some (rev g, rev t)"
      using split_once_append [of "CHR '':''" "rev h" "rev s"] split_once_append [of "CHR '':''" "rev g" "rev t"] that(2,3) by (metis set_rev)
    then show ?thesis by simp
  qed
  show ?thesis
    by (rule distinct_identitiesI, rule inj) (use assms in \<open>auto simp: service_pairs_def\<close>)
qed




section \<open>The cascade\<close>











lemma accepted_config_plan:
  obtains p where "plan (\<lambda>_. replicate 32 7) accepted_config = Some (Inr p)" "map_of (np_servers p) ''b'' \<noteq> None"
proof -
  have al: "\<exists>as. allocate_bucketed (\<lambda>_. replicate 32 7) (map (\<lambda>(name, _). server_identity accepted_config name) (cfg_servers accepted_config))
      32 SERVER_BUCKET_CAPACITY ''servers'' = Inr as"
    by (simp add: allocate_bucketed_def Let_def SERVER_BUCKET_CAPACITY_def server_identity_def bucket_of_def
        stable_hash_def bt_group_def bt_push_def accepted_config_def)
  have dr: "default_ranges accepted_config" by (simp add: default_ranges_def accepted_config_def)
  have di: "distinct (map fst (cfg_servers accepted_config))" by (simp add: accepted_config_def)
  have sv: "\<forall>(name, service) \<in> set (cfg_services accepted_config).
      distinct (svc_servers service) \<and> set (svc_servers service) \<subseteq> fst ` set (cfg_servers accepted_config)"
    by (simp add: accepted_config_def plain_service_def)
  obtain p where "plan (\<lambda>_. replicate 32 7) accepted_config = Some (Inr p)"
    "\<forall>name. map_of (np_servers p) name \<noteq> None \<longleftrightarrow> name \<in> fst ` set (cfg_servers accepted_config)"
    by (rule plan_default_success [OF dr di al sv])
  then show thesis by (intro that [of p]) (simp_all add: accepted_config_def)
qed


text \<open>
  Colliding names.  The service \<open>a\<close> on the server \<open>b:c\<close> and the service \<open>a:b\<close> on the server \<open>c\<close>
  have the same identity, the configuration is accepted and planned, and the cascade from \<open>up\<close> panics.
\<close>

definition colliding_config :: Config where
  "colliding_config = accepted_config
     \<lparr>cfg_servers := [(''b:c'', default_server ''10.0.0.1''), (''c'', default_server ''10.0.0.2'')],
      cfg_services := [(''a'', plain_service ''service:up'' [''b:c''] []), (''a:b'', plain_service ''bridge'' [''c''] []),
        (''up'', plain_service ''bridge'' [''b:c''] [])]\<rparr>"

lemma colliding_config_plan:
  obtains p where "plan (\<lambda>_. replicate 32 7) colliding_config = Some (Inr p)"
    "\<not> has_endpoint p ''a'' ''b:c''"
proof -
  have al: "\<exists>as. allocate_bucketed (\<lambda>_. replicate 32 7) (map (\<lambda>(name, _). server_identity colliding_config name) (cfg_servers colliding_config))
      32 SERVER_BUCKET_CAPACITY ''servers'' = Inr as"
    by (simp add: allocate_bucketed_def Let_def SERVER_BUCKET_CAPACITY_def server_identity_def bucket_of_def
        stable_hash_def bt_group_def bt_push_def colliding_config_def accepted_config_def)
  have dr: "default_ranges colliding_config" by (simp add: default_ranges_def colliding_config_def accepted_config_def)
  have di: "distinct (map fst (cfg_servers colliding_config))" by (simp add: colliding_config_def)
  have sv: "\<forall>(name, service) \<in> set (cfg_services colliding_config).
      distinct (svc_servers service) \<and> set (svc_servers service) \<subseteq> fst ` set (cfg_servers colliding_config)"
    by (simp add: colliding_config_def plain_service_def)
  obtain p where p: "plan (\<lambda>_. replicate 32 7) colliding_config = Some (Inr p)"
    by (rule plan_default_success [OF dr di al sv])
  obtain base n slot where "planned (\<lambda>_. replicate 32 7) colliding_config p base n slot" by (rule plan_planned [OF p di])
  then have eps: "np_endpoints p = insert_endpoints (cfg_project colliding_config)
      (bt_group fst (pair_identity (cfg_project colliding_config)) (service_pairs (cfg_services colliding_config)))"
    by (auto simp: planned_def plan_endpoints_eq)
  have "\<not> has_endpoint p ''a'' ''b:c''"
    unfolding has_endpoint_def eps
    by (simp add: insert_endpoints_def colliding_config_def accepted_config_def service_pairs_def plain_service_def bt_group_def bt_push_def
        bt_values_def)
  with p show thesis by (rule that)
qed

lemma colliding_config_valid: "accepts (\<lambda>_. Inr ()) (\<lambda>_. Inr ()) colliding_config"
proof -
  have "validate_builder colliding_config = validate_builder accepted_config"
    by (simp add: validate_builder_def colliding_config_def)
  moreover have "validate_builder accepted_config = []"
    using accepted_config_valid by (simp add: valid_iff config_errors_def Let_def)
  moreover have "service_errors (\<lambda>_. Inr ()) (\<lambda>_. Inr ()) colliding_config x = []"
    if "x \<in> set (cfg_services colliding_config)" for x
    using that
    by (auto simp: colliding_config_def service_errors_silent rule_silent plain_service_def default_service_def
        network_mode_dependency_def starts_with_def validate_service_crons_def validate_service_build_secrets_def)
  moreover have "total_crons (cfg_services colliding_config) \<le> MAX_CRONS_PER_PROJECT"
    "total_replicas (cfg_services colliding_config) \<le> MAX_REPLICAS"
    by (simp_all add: total_crons_sum total_replicas_sum service_weight_def u32_saturating_mul_def
        colliding_config_def plain_service_def default_service_def MAX_CRONS_PER_PROJECT_def MAX_REPLICAS_def)
  moreover have "validate_tcp_targets colliding_config = []" "validate_host_network_ports colliding_config = []"
    "validate_proxy_hosts colliding_config = []" "validate_proxy_has_a_routable_host colliding_config = []"
    "validate_ssh colliding_config = []"
    unfolding validate_tcp_targets_def run_tcp_calls_silent validate_host_network_ports_def host_port_errors_silent
    by (simp_all add: validate_proxy_hosts_def proxy_hosts_errors_def validate_hosts_and_ssl_def hosts_or_default_def
        validate_proxy_has_a_routable_host_def routable_host_errors_def validate_ssh_def colliding_config_def accepted_config_def
        tcp_calls_def call_ports_def http_free_def host_port_ok_def host_entry_def plain_service_def default_service_def)
  moreover have "length (cfg_servers colliding_config) \<le> MAX_NODES" "length (cfg_services colliding_config) \<le> MAX_SERVICES"
    by (simp_all add: colliding_config_def MAX_NODES_def MAX_SERVICES_def)
  ultimately show ?thesis by (simp add: valid_iff config_errors_def Let_def)
qed

lemma colliding_names_panic:
  "accepts (\<lambda>_. Inr ()) (\<lambda>_. Inr ()) colliding_config \<and>
   (\<exists>p. plan (\<lambda>_. replicate 32 7) colliding_config = Some (Inr p) \<and>
      add_cascaded_dependents (\<lambda>_. replicate 32 7) colliding_config p
        [\<lparr>ep_identity = ''demo:up:1'', ep_project = ''demo'', ep_service = ''up'', ep_server = ''b:c''\<rparr>] [(''demo:up:1'', ''1'')] = None)"
proof -
  obtain p where p: "plan (\<lambda>_. replicate 32 7) colliding_config = Some (Inr p)" "\<not> has_endpoint p ''a'' ''b:c''"
    by (rule colliding_config_plan)
  have "find (\<lambda>e. ep_service e = ''a'' \<and> ep_server e = ''b:c'') (bt_values (np_endpoints p)) = None"
    using p(2) by (auto simp: has_endpoint_def find_None_iff)
  moreover have "network_mode_dependency (plain_service ''service:up'' [''b:c''] []) = Some ''up''"
    "svc_servers (plain_service ''service:up'' [''b:c''] []) = [''b:c'']"
    by (simp_all add: plain_service_def network_mode_dependency_def)
  moreover have "cfg_services colliding_config = [(''a'', plain_service ''service:up'' [''b:c''] []), (''a:b'', plain_service ''bridge'' [''c''] []),
        (''up'', plain_service ''bridge'' [''b:c''] [])]"
    by (simp add: colliding_config_def)
  ultimately have "add_cascaded_dependents (\<lambda>_. replicate 32 7) colliding_config p
        [\<lparr>ep_identity = ''demo:up:1'', ep_project = ''demo'', ep_service = ''up'', ep_server = ''b:c''\<rparr>] [(''demo:up:1'', ''1'')] = None"
    by (simp add: add_cascaded_dependents_def upstream_servers_def)
  then show ?thesis using p(1) colliding_config_valid by blast
qed

section \<open>The order of the waves\<close>

lemma dependents_loop_total:
  assumes "set names \<subseteq> fst ` set (cfg_services c)"
  shows "\<exists>deps. dependents_loop c by_service names acc = Some deps \<and>
    (\<forall>u. map_of deps u \<noteq> None \<longleftrightarrow> map_of acc u \<noteq> None \<or>
      map_of by_service u \<noteq> None \<and>
      (\<exists>n \<in> set names. \<exists>s. map_of (cfg_services c) n = Some s \<and> network_mode_dependency s = Some u))"
  using assms
proof (induction names arbitrary: acc)
  case (Cons n names)
  obtain s where s: "map_of (cfg_services c) n = Some s"
    using Cons.prems by (metis insert_subset list.simps(15) map_of_eq_None_iff not_None_eq)
  define acc' where "acc' = (case network_mode_dependency s of
      Some u \<Rightarrow> if map_of by_service u \<noteq> None then bt_push u n acc else acc | None \<Rightarrow> acc)"
  have step: "dependents_loop c by_service (n # names) acc = dependents_loop c by_service names acc'"
    using s by (simp add: acc'_def split: option.splits)
  have acc': "map_of acc' u \<noteq> None \<longleftrightarrow> map_of acc u \<noteq> None \<or>
      map_of by_service u \<noteq> None \<and> network_mode_dependency s = Some u" for u
    by (auto simp: acc'_def split: option.splits)
  obtain deps where "dependents_loop c by_service names acc' = Some deps"
    and deps: "\<And>u. map_of deps u \<noteq> None \<longleftrightarrow> map_of acc' u \<noteq> None \<or>
      map_of by_service u \<noteq> None \<and>
      (\<exists>n \<in> set names. \<exists>s. map_of (cfg_services c) n = Some s \<and> network_mode_dependency s = Some u)"
    using Cons.IH [of acc'] Cons.prems by auto
  moreover have "map_of deps u \<noteq> None \<longleftrightarrow> map_of acc u \<noteq> None \<or> map_of by_service u \<noteq> None \<and>
      (\<exists>n \<in> set (n # names). \<exists>s. map_of (cfg_services c) n = Some s \<and> network_mode_dependency s = Some u)" for u
    unfolding deps acc' using s by auto
  ultimately show ?case unfolding step by blast
qed simp

text \<open>
  A running task has given an outcome to each endpoint before the ones left over, in order, and has
  skipped them all when its upstream failed.
\<close>

fun task_inv :: "running_task \<Rightarrow> bool" where
  "task_inv (task, (sibling_failed, outcomes), endpoints) \<longleftrightarrow>
     (\<exists>before. tk_endpoints task = before @ endpoints \<and> map fst outcomes = map ep_identity before) \<and>
     (tk_presumed_failed task \<longrightarrow> sibling_failed \<and> list_all (\<lambda>(_, outcome). outcome = SkippedAfterSiblingFailure) outcomes)"

text \<open>Every lookup for the endpoints of a task succeeds, and a predicate on the state that deploying any of them keeps.\<close>

definition task_ready :: "DeployRun \<Rightarrow> ServiceTask \<Rightarrow> bool" where
  "task_ready run task \<longleftrightarrow> (\<forall>e \<in> set (tk_endpoints task). endpoint_context run task e \<noteq> None)"

definition keeps :: "'w deployer \<Rightarrow> ('w \<Rightarrow> bool) \<Rightarrow> ServiceEndpointPlan set \<Rightarrow> bool" where
  "keeps deploy Q E \<longleftrightarrow> (\<forall>ctx w. ctx_endpoint ctx \<in> E \<longrightarrow> Q w \<longrightarrow> Q (snd (deploy ctx w)))"

lemma endpoint_context_endpoint: "endpoint_context run task e = Some ctx \<Longrightarrow> ctx_endpoint ctx = e"
  by (auto simp: endpoint_context_def split: if_splits option.splits)

lemma deploy_next_facts:
  assumes inv: "task_inv (task, progress, e # es)" and ready: "task_ready run task"
    and keeps: "keeps deploy Q (set (tk_endpoints task))" "Q w"
  shows "\<exists>progress' w'. deploy_next deploy run task e progress w = Some (progress', w') \<and> task_inv (task, progress', es) \<and> Q w'"
proof -
  obtain failed outs where pr: "progress = (failed, outs)" by (cases progress)
  obtain before where before: "tk_endpoints task = before @ e # es" "map fst outs = map ep_identity before"
    using inv pr by auto
  then have more: "\<exists>b. tk_endpoints task = b @ es \<and> map fst (outs @ [(ep_identity e, out)]) = map ep_identity b" for out :: EndpointOutcome
    by (intro exI [of _ "before @ [e]"]) simp
  have e: "e \<in> set (tk_endpoints task)" using before by simp
  show ?thesis
  proof (cases failed)
    case True
    then show ?thesis using inv pr more keeps(2) by (auto simp del: map_append)
  next
    case False
    obtain ctx where ctx: "endpoint_context run task e = Some ctx" using ready e by (auto simp: task_ready_def)
    have "Q (snd (deploy ctx w))"
      using keeps e endpoint_context_endpoint [OF ctx] by (auto simp: keeps_def)
    then show ?thesis using False ctx inv pr more by (auto simp: case_prod_beta simp del: map_append)
  qed
qed

lemma deploy_service_facts:
  assumes "task_inv (task, progress, es)" "task_ready run task" "keeps deploy Q (set (tk_endpoints task))" "Q w"
  shows "\<exists>outs failed w'. deploy_service_endpoints deploy run task es progress w = Some ((tk_service_name task, outs), w') \<and>
    task_inv (task, (failed, outs), []) \<and> Q w'"
  using assms(1,4)
proof (induction es arbitrary: progress w)
  case Nil
  then show ?case by (cases progress) auto
next
  case (Cons e es)
  obtain progress' w' where "deploy_next deploy run task e progress w = Some (progress', w')" "task_inv (task, progress', es)" "Q w'"
    using deploy_next_facts [OF Cons.prems(1) assms(2,3) Cons.prems(2)] by blast
  then show ?case using Cons.IH [of progress' w'] by simp
qed

lemma interleave_facts:
  assumes "list_all task_inv ts" "\<forall>t \<in> set ts. task_ready run (fst t) \<and> keeps deploy Q (set (tk_endpoints (fst t)))" "Q w"
  shows "\<exists>ts' w'. interleave deploy run schedule ts w = Some (ts', w') \<and> list_all task_inv ts' \<and> map fst ts' = map fst ts \<and> Q w'"
  using assms
proof (induction schedule arbitrary: ts w)
  case (Cons i schedule)
  show ?case
  proof (cases "i < length ts \<and> snd (snd (ts ! i)) \<noteq> []")
    case True
    then obtain task progress e es where i: "i < length ts" "ts ! i = (task, progress, e # es)"
      by (metis neq_Nil_conv prod.collapse)
    then have t: "task_inv (task, progress, e # es)" "task_ready run task" "keeps deploy Q (set (tk_endpoints task))"
      using Cons.prems(1,2) nth_mem [OF i(1)] by (auto simp: list_all_iff)
    obtain progress' w' where step: "deploy_next deploy run task e progress w = Some (progress', w')" "task_inv (task, progress', es)" "Q w'"
      using deploy_next_facts [OF t Cons.prems(3)] by blast
    let ?ts = "ts[i := (task, progress', es)]"
    have same: "map fst ?ts = map fst ts" using i by (simp add: map_update) (metis fst_conv length_map list_update_id nth_map)
    have "list_all task_inv ?ts" using Cons.prems(1) step(2) by (auto simp: list_all_iff dest!: set_update_subset_insert [THEN subsetD])
    moreover have "task_ready run (fst t) \<and> keeps deploy Q (set (tk_endpoints (fst t)))" if "t \<in> set ?ts" for t
    proof -
      have "fst t \<in> set (map fst ts)" using that same by (metis image_eqI set_map)
      then show ?thesis using Cons.prems(2) by auto
    qed
    ultimately obtain ts' w'' where "interleave deploy run schedule ?ts w' = Some (ts', w'')" "list_all task_inv ts'"
      "map fst ts' = map fst ?ts" "Q w''"
      using Cons.IH [of ?ts w'] step(3) by blast
    then show ?thesis using i step(1) same by simp
  next
    case False
    then have "interleave deploy run (i # schedule) ts w = interleave deploy run schedule ts w"
      by (auto split: list.split prod.split)
    then show ?thesis using Cons.IH [OF Cons.prems] by simp
  qed
qed simp

lemma finish_facts:
  assumes "list_all task_inv ts" "\<forall>t \<in> set ts. task_ready run (fst t) \<and> keeps deploy Q (set (tk_endpoints (fst t)))" "Q w"
  shows "\<exists>results w'. finish_tasks deploy run ts w = Some (results, w') \<and> Q w' \<and>
    list_all2 (\<lambda>task (name, outs). name = tk_service_name task \<and> (\<exists>failed. task_inv (task, (failed, outs), []))) (map fst ts) results"
  using assms
proof (induction ts arbitrary: w)
  case (Cons t ts)
  obtain task progress es where t: "t = (task, progress, es)" by (cases t)
  obtain outs failed w1 where "deploy_service_endpoints deploy run task es progress w = Some ((tk_service_name task, outs), w1)"
    "task_inv (task, (failed, outs), [])" "Q w1"
    using deploy_service_facts [of task progress es run deploy Q w] Cons.prems t by auto
  moreover obtain results w2 where "finish_tasks deploy run ts w1 = Some (results, w2)" "Q w2"
    "list_all2 (\<lambda>task (name, outs). name = tk_service_name task \<and> (\<exists>failed. task_inv (task, (failed, outs), []))) (map fst ts) results"
    using Cons.IH [of w1] Cons.prems \<open>Q w1\<close> by auto
  ultimately show ?case using t by auto
qed simp

text \<open>A wave whose lookups succeed: the outcomes of each task, in the order of its endpoints.\<close>

definition task_result :: "ServiceTask \<Rightarrow> string \<times> (string \<times> EndpointOutcome) list \<Rightarrow> bool" where
  "task_result task = (\<lambda>(name, outs). name = tk_service_name task \<and> map fst outs = map ep_identity (tk_endpoints task) \<and>
     (tk_presumed_failed task \<longrightarrow> list_all (\<lambda>(_, outcome). outcome = SkippedAfterSiblingFailure) outs))"

lemma run_wave_facts:
  assumes "\<forall>t \<in> set tasks. task_ready run t" "keeps deploy Q (\<Union>t \<in> set tasks. set (tk_endpoints t))" "Q w"
  shows "\<exists>results w'. run_wave deploy run schedule tasks w = Some (results, w') \<and> Q w' \<and> list_all2 task_result tasks results"
proof -
  let ?ts = "map (\<lambda>task. (task, (tk_presumed_failed task, []), tk_endpoints task)) tasks"
  have ok: "\<forall>t \<in> set tasks. task_ready run t \<and> keeps deploy Q (set (tk_endpoints t))"
    using assms(1,2) unfolding keeps_def by blast
  have "list_all task_inv ?ts" by (simp add: list_all_iff)
  then obtain ts' w1 where run: "interleave deploy run schedule ?ts w = Some (ts', w1)" "list_all task_inv ts'" "map fst ts' = map fst ?ts" "Q w1"
    using interleave_facts [of ?ts run deploy Q w schedule] ok assms(3) by auto
  have ts: "map fst ts' = tasks" using run(3) by (simp add: comp_def)
  have "\<forall>t \<in> set ts'. task_ready run (fst t) \<and> keeps deploy Q (set (tk_endpoints (fst t)))"
    using ok unfolding ts [symmetric] by simp
  from finish_facts [OF run(2) this run(4)] obtain results w' where "finish_tasks deploy run ts' w1 = Some (results, w')" "Q w'"
    "list_all2 (\<lambda>task (name, outs). name = tk_service_name task \<and> (\<exists>failed. task_inv (task, (failed, outs), []))) tasks results"
    unfolding ts by blast
  moreover from this(3) have "list_all2 task_result tasks results"
    by (rule list_all2_mono) (auto simp: task_result_def)
  ultimately show ?thesis using run(1) by (auto simp: run_wave_def)
qed

lemma bt_insert_flat:
  "bt_wf m \<Longrightarrow> mset (concat (map snd (bt_insert k v m))) + mset (case map_of m k of None \<Rightarrow> [] | Some xs \<Rightarrow> xs) =
     mset v + mset (concat (map snd m))"
proof (induction m)
  case (Cons e m)
  have "k < fst e \<Longrightarrow> map_of m k = None"
    using Cons.prems by (force simp: map_of_eq_None_iff)
  then show ?case using Cons by (cases e) (auto simp: ac_simps)
qed simp

lemma bt_group_flat: "mset (concat (map snd (bt_group f id xs))) = mset xs"
proof (induction xs rule: rev_induct)
  case (snoc x xs)
  define old where "old = (case map_of (bt_group f id xs) (f x) of None \<Rightarrow> [] | Some ys \<Rightarrow> ys)"
  have step: "bt_group f id (xs @ [x]) = bt_insert (f x) (old @ [x]) (bt_group f id xs)"
    by (simp add: bt_group_def bt_push_def old_def)
  have "mset (concat (map snd (bt_group f id (xs @ [x])))) + mset old = mset (old @ [x]) + mset (concat (map snd (bt_group f id xs)))"
    unfolding step old_def by (rule bt_insert_flat [OF bt_wf_group])
  then have "mset (concat (map snd (bt_group f id (xs @ [x])))) = add_mset x (mset xs)"
    unfolding snoc.IH by simp
  moreover have "mset (xs @ [x]) = add_mset x (mset xs)" by simp
  ultimately show ?case by argo
qed (simp add: bt_group_def)

lemma mset_filter_split:
  "mset (concat (map snd (filter (\<lambda>(n, _). \<not> P n) xs))) + mset (concat (map snd (filter (\<lambda>(n, _). P n) xs))) =
   mset (concat (map snd xs))"
  by (induction xs) auto

lemma accepted_upstream:
  assumes ok: "accepts sched tz c"
    and s: "map_of (cfg_services c) name = Some s" "network_mode_dependency s = Some u"
  obtains up where "map_of (cfg_services c) u = Some up" "network_mode_dependency up = None"
  using valid_service [OF ok map_of_SomeD [OF s(1)]] s(2)
  by (auto simp: service_errors_silent upstream_errors_silent)

lemma waves_partition:
  assumes ok: "accepts sched tz c"
    and sel: "ep_service ` set selected \<subseteq> fst ` set (cfg_services c)"
  obtains deps P where "compute_service_waves c (bt_group ep_service id selected) =
      Some (deps, filter (\<lambda>(n, _). \<not> P n) (bt_group ep_service id selected),
        filter (\<lambda>(n, _). P n) (bt_group ep_service id selected))"
    "\<forall>name s u. name \<in> ep_service ` set selected \<and> map_of (cfg_services c) name = Some s \<and>
       network_mode_dependency s = Some u \<and> u \<in> ep_service ` set selected \<longrightarrow> P name \<and> \<not> P u"
proof -
  let ?grp = "bt_group ep_service id selected"
  have keys: "fst ` set ?grp = ep_service ` set selected" by (rule bt_group_keys)
  have "set (bt_keys ?grp) \<subseteq> fst ` set (cfg_services c)" using sel keys by (simp add: bt_keys_def)
  then obtain deps where run: "dependents_loop c ?grp (bt_keys ?grp) [] = Some deps"
    and deps: "\<And>u. map_of deps u \<noteq> None \<longleftrightarrow> map_of ?grp u \<noteq> None \<and>
      (\<exists>n \<in> set (bt_keys ?grp). \<exists>s. map_of (cfg_services c) n = Some s \<and> network_mode_dependency s = Some u)"
    using dependents_loop_total [of "bt_keys ?grp" c ?grp "[]"] by auto
  have "in_wave_two c deps name \<and> \<not> in_wave_two c deps u"
    if n: "name \<in> ep_service ` set selected" and s: "map_of (cfg_services c) name = Some s" "network_mode_dependency s = Some u"
      and u: "u \<in> ep_service ` set selected" for name s u
  proof -
    obtain up where "map_of (cfg_services c) u = Some up" "network_mode_dependency up = None"
      by (rule accepted_upstream [OF ok s])
    moreover have "map_of deps u \<noteq> None"
      unfolding deps using n s u keys by (auto simp: bt_keys_def map_of_eq_None_iff)
    ultimately show ?thesis using s by (simp add: in_wave_two_def)
  qed
  then show thesis
    using that [of deps "in_wave_two c deps"] by (simp add: compute_service_waves_def run) blast
qed

text \<open>The tasks of a wave that can be built.\<close>

definition deploy_ready :: "DeployRun \<Rightarrow> ServiceEndpointPlan list \<Rightarrow> bool" where
  "deploy_ready run selected \<longleftrightarrow>
     (\<forall>e \<in> set selected. ep_server e \<in> set (dr_sessions run) \<and> map_of (np_servers (dr_plan run)) (ep_server e) \<noteq> None \<and>
        map_of (dr_replica_ids run) (ep_identity e) \<noteq> None \<and>
        map_of (dr_images run) (ep_service e) \<noteq> None \<and> map_of (dr_resolved_envs run) (ep_service e) \<noteq> None)"

definition task_of :: "Config \<Rightarrow> wave_result \<Rightarrow> string \<times> ServiceEndpointPlan list \<Rightarrow> ServiceTask \<Rightarrow> bool" where
  "task_of c results = (\<lambda>(name, es) task. tk_service_name task = name \<and> tk_endpoints task = es \<and>
     tk_presumed_failed task = presumed_failed c results name)"

lemma build_wave_facts:
  assumes ready: "deploy_ready run selected" and sel: "ep_service ` set selected \<subseteq> fst ` set (cfg_services c)"
    and grp: "set by_service \<subseteq> set (bt_group ep_service id selected)"
  obtains tasks where "build_wave c run deps results by_service = Some tasks" "list_all2 (task_of c results) by_service tasks"
    "\<forall>t \<in> set tasks. task_ready run t"
proof -
  have mem: "es \<noteq> [] \<and> (\<forall>e \<in> set es. e \<in> set selected \<and> ep_service e = name)" if "(name, es) \<in> set by_service" for name es
  proof -
    have "map_of (bt_group ep_service id selected) name = Some es"
      using that grp bt_get_mem [OF bt_wf_group, of ep_service id selected name es] by auto
    then show ?thesis by (auto simp: bt_get_group filter_empty_conv split: if_splits)
  qed
  have build: "\<exists>task. build_task c run deps results (name, es) = Some task \<and> task_of c results (name, es) task \<and> task_ready run task"
    if x: "(name, es) \<in> set by_service" for name es
  proof -
    obtain e where e: "e \<in> set selected" "ep_service e = name" using mem [OF x] by (cases es) auto
    obtain s where s: "map_of (cfg_services c) name = Some s"
      using sel e by (metis image_eqI map_of_eq_None_iff not_None_eq subsetD)
    obtain im env where im: "map_of (dr_images run) name = Some im" "map_of (dr_resolved_envs run) name = Some env"
      using ready e by (auto simp: deploy_ready_def)
    have "map_of (map (\<lambda>e. (ep_identity e, im)) es) (ep_identity e) \<noteq> None" if "e \<in> set es" for e
      using that by (simp add: map_of_eq_None_iff image_image)
    then show ?thesis
      using s im ready mem [OF x]
      by (fastforce simp: build_task_def task_of_def task_ready_def endpoint_context_def deploy_ready_def split: option.splits)
  qed
  then have "\<forall>x \<in> set by_service. build_task c run deps results x \<noteq> None" by fastforce
  then obtain tasks where tasks: "build_wave c run deps results by_service = Some tasks"
    unfolding build_wave_def using collect_options_total by blast
  then have "list_all2 (\<lambda>x t. build_task c run deps results x = Some t) by_service tasks"
    unfolding build_wave_def by (rule collect_options_Some)
  then have both: "list_all2 (\<lambda>x t. task_of c results x t \<and> task_ready run t) by_service tasks"
    by (rule list.rel_mono_strong) (use build in fastforce)
  show thesis
    by (rule that [OF tasks]) (use both in \<open>auto simp: list_all2_conv_all_nth in_set_conv_nth\<close>)
qed

definition logged :: "'w deployer \<Rightarrow> (ServiceEndpointPlan list \<times> 'w) deployer" where
  "logged deploy ctx = (\<lambda>(log, w). let (outcome, w') = deploy ctx w in (outcome, log @ [ctx_endpoint ctx], w'))"

lemma keeps_logged:
  "keeps (logged deploy) (\<lambda>(log, w). set log \<subseteq> E) E"
  "keeps (logged deploy) (\<lambda>(log, w). \<exists>l1 l2. log = l1 @ l2 \<and> set l1 \<subseteq> F \<and> set l2 \<subseteq> E) E"
proof -
  show "keeps (logged deploy) (\<lambda>(log, w). set log \<subseteq> E) E"
    by (simp add: keeps_def logged_def case_prod_beta)
  have "\<exists>k1 k2. (l1 @ l2) @ [e] = k1 @ k2 \<and> set k1 \<subseteq> F \<and> set k2 \<subseteq> E" if "set l1 \<subseteq> F" "set l2 \<subseteq> E" "e \<in> E"
    for l1 l2 and e :: ServiceEndpointPlan
    using that by (intro exI [of _ l1] exI [of _ "l2 @ [e]"]) simp
  then show "keeps (logged deploy) (\<lambda>(log, w). \<exists>l1 l2. log = l1 @ l2 \<and> set l1 \<subseteq> F \<and> set l2 \<subseteq> E) E"
    by (fastforce simp: keeps_def logged_def case_prod_beta)
qed

text \<open>The outcomes of a service, in the order of its endpoints.\<close>

definition result_of :: "Config \<Rightarrow> wave_result \<Rightarrow> string \<times> ServiceEndpointPlan list \<Rightarrow> string \<times> (string \<times> EndpointOutcome) list \<Rightarrow> bool" where
  "result_of c results = (\<lambda>(name, es) (name', outs). name' = name \<and> map fst outs = map ep_identity es \<and>
     (presumed_failed c results name \<longrightarrow> list_all (\<lambda>(_, outcome). outcome = SkippedAfterSiblingFailure) outs))"

lemma wave_facts:
  assumes "deploy_ready run selected" "ep_service ` set selected \<subseteq> fst ` set (cfg_services c)"
    and wave: "wave = filter (\<lambda>(n, _). P n) (bt_group ep_service id selected)"
    and Q: "keeps deploy Q {e \<in> set selected. P (ep_service e)}" "Q w"
  obtains tasks r w' where "build_wave c run deps results wave = Some tasks" "run_wave deploy run schedule tasks w = Some (r, w')" "Q w'"
    "list_all2 (result_of c results) wave r"
proof -
  have "set wave \<subseteq> set (bt_group ep_service id selected)" by (auto simp: wave)
  from build_wave_facts [OF assms(1,2) this] obtain tasks where tasks: "build_wave c run deps results wave = Some tasks"
    "list_all2 (task_of c results) wave tasks" "\<forall>t \<in> set tasks. task_ready run t" by blast
  have sub: "set es \<subseteq> {e \<in> set selected. P (ep_service e)}" if "(name, es) \<in> set wave" for name es
    using that bt_get_mem [OF bt_wf_group, of ep_service id selected name es] by (auto simp: wave bt_get_group split: if_splits)
  have "(\<Union>t \<in> set tasks. set (tk_endpoints t)) \<subseteq> {e \<in> set selected. P (ep_service e)}"
  proof (rule UN_least)
    fix t assume "t \<in> set tasks"
    then obtain x where "x \<in> set wave" "task_of c results x t" using tasks(2) by (metis in_set_conv_nth list_all2_conv_all_nth)
    then show "set (tk_endpoints t) \<subseteq> {e \<in> set selected. P (ep_service e)}" using sub by (cases x) (auto simp: task_of_def)
  qed
  then have "keeps deploy Q (\<Union>t \<in> set tasks. set (tk_endpoints t))" using Q(1) unfolding keeps_def by blast
  from run_wave_facts [OF tasks(3) this Q(2)] obtain r w' where run: "run_wave deploy run schedule tasks w = Some (r, w')" "Q w'"
    "list_all2 task_result tasks r" by blast
  have "list_all2 (result_of c results) wave r"
    by (rule list_all2_trans [OF _ tasks(2) run(3)]) (auto simp: task_of_def task_result_def result_of_def)
  with tasks(1) run(1,2) show thesis by (rule that)
qed

lemma deploy_waves_facts:
  assumes sel: "ep_service ` set selected \<subseteq> fst ` set (cfg_services c)" and ready: "deploy_ready run selected"
    and waves: "compute_service_waves c (bt_group ep_service id selected) =
      Some (deps, filter (\<lambda>(n, _). \<not> P n) (bt_group ep_service id selected), filter (\<lambda>(n, _). P n) (bt_group ep_service id selected))"
    and Q: "keeps deploy Q {e \<in> set selected. \<not> P (ep_service e)}" "Q w"
    and R: "keeps deploy R {e \<in> set selected. P (ep_service e)}" "\<And>w. Q w \<Longrightarrow> R w"
  obtains r1 r2 w' where "deploy_waves c deploy run schedules selected w = Some (r1 @ r2, w')" "R w'"
    "list_all2 (result_of c []) (filter (\<lambda>(n, _). \<not> P n) (bt_group ep_service id selected)) r1"
    "list_all2 (result_of c r1) (filter (\<lambda>(n, _). P n) (bt_group ep_service id selected)) r2"
proof -
  obtain tasks1 r1 w1 where one: "build_wave c run deps [] (filter (\<lambda>(n, _). \<not> P n) (bt_group ep_service id selected)) = Some tasks1"
    "run_wave deploy run (fst schedules) tasks1 w = Some (r1, w1)" "Q w1"
    "list_all2 (result_of c []) (filter (\<lambda>(n, _). \<not> P n) (bt_group ep_service id selected)) r1"
    by (rule wave_facts [OF ready sel refl Q])
  obtain tasks2 r2 w2 where two: "build_wave c run deps r1 (filter (\<lambda>(n, _). P n) (bt_group ep_service id selected)) = Some tasks2"
    "run_wave deploy run (snd schedules) tasks2 w1 = Some (r2, w2)" "R w2"
    "list_all2 (result_of c r1) (filter (\<lambda>(n, _). P n) (bt_group ep_service id selected)) r2"
    by (rule wave_facts [OF ready sel refl R(1) R(2) [OF one(3)]])
  show thesis
    by (rule that [OF _ two(3) one(4) two(4)]) (simp add: deploy_waves_def waves one(1,2) two(1,2))
qed

lemma results_facts:
  assumes "list_all2 (result_of c results) wave r"
  shows "map fst r = map fst wave" "concat (map (map fst \<circ> snd) r) = map ep_identity (concat (map snd wave))"
    "\<lbrakk>(name, outs) \<in> set r; presumed_failed c results name\<rbrakk> \<Longrightarrow> list_all (\<lambda>(_, outcome). outcome = SkippedAfterSiblingFailure) outs"
  using assms by (induction rule: list_all2_induct) (auto simp: result_of_def)

definition depends_on :: "Config \<Rightarrow> string \<Rightarrow> string \<Rightarrow> bool" where
  "depends_on c name u = (case map_of (cfg_services c) name of None \<Rightarrow> False | Some s \<Rightarrow> network_mode_dependency s = Some u)"

lemma upstream_result:
  assumes r: "list_all2 (result_of c []) (filter (\<lambda>(n, _). \<not> P n) (bt_group ep_service id selected)) r1"
      "list_all2 (result_of c r1) (filter (\<lambda>(n, _). P n) (bt_group ep_service id selected)) r2"
    and P: "\<forall>name s u. name \<in> ep_service ` set selected \<and> map_of (cfg_services c) name = Some s \<and>
       network_mode_dependency s = Some u \<and> u \<in> ep_service ` set selected \<longrightarrow> P name \<and> \<not> P u"
    and o: "(name, outs) \<in> set (r1 @ r2)" and s: "map_of (cfg_services c) name = Some s" "network_mode_dependency s = Some u"
    and u: "u \<in> ep_service ` set selected"
  shows "\<exists>before after outs_u. r1 @ r2 = before @ (name, outs) # after \<and> (u, outs_u) \<in> set before \<and>
      (fully_deployed outs_u \<or> list_all (\<lambda>(_, outcome). outcome = SkippedAfterSiblingFailure) outs)"
proof -
  let ?grp = "bt_group ep_service id selected"
  have keys: "fst ` set ?grp = ep_service ` set selected" by (rule bt_group_keys)
  have names: "fst ` set r1 = fst ` set (filter (\<lambda>(n, _). \<not> P n) ?grp)" "fst ` set r2 = fst ` set (filter (\<lambda>(n, _). P n) ?grp)"
    "distinct (map fst r1)"
    using results_facts(1) [OF r(1)] results_facts(1) [OF r(2)]
    by (metis set_map, metis set_map, metis bt_wf_distinct bt_wf_filter bt_wf_group)
  have "name \<in> fst ` set (r1 @ r2)" using o by force
  then have "name \<in> fst ` set ?grp" using names by auto
  then have Pn: "P name" "\<not> P u" using P s u keys by auto
  then have r2o: "(name, outs) \<in> set r2" using o names(1) by force
  then obtain a b where ab: "r2 = a @ (name, outs) # b" by (meson split_list)
  have "u \<in> fst ` set r1" using u keys names(1) Pn(2) by force
  then obtain outs_u where ou: "(u, outs_u) \<in> set r1" by force
  then have "map_of r1 u = Some outs_u" using names(3) by simp
  then have "presumed_failed c r1 name" if "\<not> fully_deployed outs_u"
    using that s by (simp add: presumed_failed_def upstream_failed_def)
  then have "fully_deployed outs_u \<or> list_all (\<lambda>(_, outcome). outcome = SkippedAfterSiblingFailure) outs"
    using results_facts(3) [OF r(2) r2o] by blast
  then show ?thesis using ab ou by (intro exI [of _ "r1 @ a"] exI [of _ b] exI [of _ outs_u]) simp
qed

lemma log_sorted:
  assumes P: "\<forall>name s u. name \<in> ep_service ` set selected \<and> map_of (cfg_services c) name = Some s \<and>
       network_mode_dependency s = Some u \<and> u \<in> ep_service ` set selected \<longrightarrow> P name \<and> \<not> P u"
    and log: "\<exists>l1 l2. log = l1 @ l2 \<and> set l1 \<subseteq> {e \<in> set selected. \<not> P (ep_service e)} \<and> set l2 \<subseteq> {e \<in> set selected. P (ep_service e)}"
  shows "sorted_wrt (\<lambda>earlier later. \<not> depends_on c (ep_service earlier) (ep_service later)) log"
proof -
  obtain l1 l2 where l: "log = l1 @ l2" "set l1 \<subseteq> {e \<in> set selected. \<not> P (ep_service e)}" "set l2 \<subseteq> {e \<in> set selected. P (ep_service e)}"
    using log by blast
  have dep: "P (ep_service a) \<and> \<not> P (ep_service b)"
    if "a \<in> set selected" "b \<in> set selected" "depends_on c (ep_service a) (ep_service b)" for a b
    using that P by (auto simp: depends_on_def split: option.splits)
  have "sorted_wrt (\<lambda>a b. \<not> depends_on c (ep_service a) (ep_service b)) k"
    if "\<And>a b. \<lbrakk>a \<in> set k; b \<in> set k\<rbrakk> \<Longrightarrow> \<not> depends_on c (ep_service a) (ep_service b)" for k
    using that by (induction k) auto
  then have "sorted_wrt (\<lambda>a b. \<not> depends_on c (ep_service a) (ep_service b)) l1"
    "sorted_wrt (\<lambda>a b. \<not> depends_on c (ep_service a) (ep_service b)) l2"
    using l dep by blast+
  moreover have "\<not> depends_on c (ep_service a) (ep_service b)" if "a \<in> set l1" "b \<in> set l2" for a b
    using that l dep by blast
  ultimately show ?thesis by (simp add: l(1) sorted_wrt_append)
qed

text \<open>
  C18.  In an accepted configuration a deployment never reaches a service that shares another
  selected service's network before that service, however the services of a wave are interleaved:
  no endpoint of it is attempted before an endpoint of its upstream, and its endpoints are all
  skipped unless every endpoint of the upstream was deployed.  Once the sessions, replica ids, images
  and environments of a selection of configured services are there, the dispatch cannot fail, and
  each selected endpoint gets exactly one outcome.
\<close>

theorem upstream_deployed_first:
  assumes ok: "accepts sched tz c"
    and sel: "ep_service ` set selected \<subseteq> fst ` set (cfg_services c)" and ready: "deploy_ready run selected"
  shows "(\<exists>results w'. deploy_waves c deploy run schedules selected w = Some (results, w') \<and>
      mset (concat (map (map fst \<circ> snd) results)) = mset (map ep_identity selected) \<and>
      (\<forall>name s u outs. (name, outs) \<in> set results \<and> map_of (cfg_services c) name = Some s \<and>
         network_mode_dependency s = Some u \<and> u \<in> ep_service ` set selected \<longrightarrow>
         (\<exists>before after outs_u. results = before @ (name, outs) # after \<and> (u, outs_u) \<in> set before \<and>
            (fully_deployed outs_u \<or> list_all (\<lambda>(_, outcome). outcome = SkippedAfterSiblingFailure) outs)))) \<and>
    (\<exists>results log w'. deploy_waves c (logged deploy) run schedules selected ([], w) = Some (results, log, w') \<and>
      sorted_wrt (\<lambda>earlier later. \<not> depends_on c (ep_service earlier) (ep_service later)) log)"
proof -
  let ?grp = "bt_group ep_service id selected"
  obtain deps P where waves: "compute_service_waves c ?grp =
      Some (deps, filter (\<lambda>(n, _). \<not> P n) ?grp, filter (\<lambda>(n, _). P n) ?grp)"
    and P: "\<forall>name s u. name \<in> ep_service ` set selected \<and> map_of (cfg_services c) name = Some s \<and>
       network_mode_dependency s = Some u \<and> u \<in> ep_service ` set selected \<longrightarrow> P name \<and> \<not> P u"
    by (rule waves_partition [OF ok sel])
  have any: "keeps deploy (\<lambda>_. True) E" for E by (simp add: keeps_def)
  obtain r1 r2 w' where out: "deploy_waves c deploy run schedules selected w = Some (r1 @ r2, w')"
    and r: "list_all2 (result_of c []) (filter (\<lambda>(n, _). \<not> P n) ?grp) r1" "list_all2 (result_of c r1) (filter (\<lambda>(n, _). P n) ?grp) r2"
    by (rule deploy_waves_facts [OF sel ready waves any TrueI any TrueI])
  have "mset (concat (map (map fst \<circ> snd) (r1 @ r2))) = image_mset ep_identity (mset (concat (map snd ?grp)))"
    using mset_filter_split [of P ?grp] by (simp add: results_facts(2) [OF r(1)] results_facts(2) [OF r(2)] flip: image_mset_union)
  then have ids: "mset (concat (map (map fst \<circ> snd) (r1 @ r2))) = mset (map ep_identity selected)"
    by (simp only: bt_group_flat mset_map)
  have order: "\<exists>before after outs_u. r1 @ r2 = before @ (name, outs) # after \<and> (u, outs_u) \<in> set before \<and>
      (fully_deployed outs_u \<or> list_all (\<lambda>(_, outcome). outcome = SkippedAfterSiblingFailure) outs)"
    if "(name, outs) \<in> set (r1 @ r2)" "map_of (cfg_services c) name = Some s" "network_mode_dependency s = Some u"
      "u \<in> ep_service ` set selected" for name s u outs
    using upstream_result [OF r P that] .
  let ?one = "{e \<in> set selected. \<not> P (ep_service e)}" and ?two = "{e \<in> set selected. P (ep_service e)}"
  obtain rs log w'' where run: "deploy_waves c (logged deploy) run schedules selected ([], w) = Some (rs, log, w'')"
    and log: "\<exists>l1 l2. log = l1 @ l2 \<and> set l1 \<subseteq> ?one \<and> set l2 \<subseteq> ?two"
  proof (rule deploy_waves_facts [OF sel ready waves keeps_logged(1) [of deploy] _ keeps_logged(2) [of deploy, where F = ?one],
        of "([], w)" schedules])
    show "case v of (log, w) \<Rightarrow> \<exists>l1 l2. log = l1 @ l2 \<and> set l1 \<subseteq> ?one \<and> set l2 \<subseteq> ?two"
      if "case v of (log, w) \<Rightarrow> set log \<subseteq> ?one" for v :: "ServiceEndpointPlan list \<times> 'a"
      using that by (cases v) (simp only: prod.case, intro exI [of _ "fst v"] exI [of _ "[]"], simp)
  qed auto
  have "sorted_wrt (\<lambda>earlier later. \<not> depends_on c (ep_service earlier) (ep_service later)) log"
    by (rule log_sorted [OF P]) (use log in blast)
  then show ?thesis using out ids order run by blast
qed

definition demo_selected :: "ServiceEndpointPlan list" where
  "demo_selected =
     [\<lparr>ep_identity = ''demo:client:1'', ep_project = ''demo'', ep_service = ''client'', ep_server = ''b''\<rparr>,
      \<lparr>ep_identity = ''demo:vpn:2'', ep_project = ''demo'', ep_service = ''vpn'', ep_server = ''b''\<rparr>]"

text \<open>A run that has everything the two endpoints need.\<close>

definition demo_run :: "NetworkPlan \<Rightarrow> DeployRun" where
  "demo_run p =
     \<lparr>dr_sessions = [''b''], dr_plan = p, dr_replica_ids = [(''demo:client:1'', ''1''), (''demo:vpn:2'', ''2'')],
      dr_images = [(''client'', ''c:1''), (''vpn'', ''v:1'')],
      dr_resolved_envs = map (\<lambda>n. (n, \<lparr>re_values = [], re_secret_keys = [], re_control_keys = []\<rparr>)) [''client'', ''vpn''],
      dr_skip_proxy = False\<rparr>"

theorem upstream_deployed_first_witness:
  "\<exists>p results w'. deploy_waves accepted_config (\<lambda>e n. (Deployed (show_nat n), Suc n)) (demo_run p) ([0, 1], []) demo_selected (0 :: nat)
       = Some (results, w') \<and>
     mset (concat (map (map fst \<circ> snd) results)) = mset [''demo:client:1'', ''demo:vpn:2'']"
proof -
  obtain p where p: "plan (\<lambda>_. replicate 32 7) accepted_config = Some (Inr p)" "map_of (np_servers p) ''b'' \<noteq> None"
    by (rule accepted_config_plan)
  have sel: "ep_service ` set demo_selected \<subseteq> fst ` set (cfg_services accepted_config)"
    by (simp add: demo_selected_def accepted_config_def)
  have "deploy_ready (demo_run p) demo_selected"
    using p(2) by (simp add: deploy_ready_def demo_selected_def demo_run_def)
  from upstream_deployed_first [OF accepted_config_valid sel this, of "\<lambda>e n. (Deployed (show_nat n), Suc n)" "([0, 1], [])" 0]
  obtain results w' where
    "deploy_waves accepted_config (\<lambda>e n. (Deployed (show_nat n), Suc n)) (demo_run p) ([0, 1], []) demo_selected (0 :: nat) = Some (results, w')"
    "mset (concat (map (map fst \<circ> snd) results)) = mset (map ep_identity demo_selected)"
    by blast
  then show ?thesis by (intro exI conjI) (assumption, simp add: demo_selected_def)
qed

end
