(* ===== verification/Agent_Api.thy ===== *)
theory Agent_Api
  imports Cron_Exec
begin

text \<open>
  The agent's request handler, \<^verbatim>\<open>crates/jiji-agent/src/api.rs\<close>: every request and response, the
  dispatch onto the store, and the replay of answers by idempotency key.

  \<open>api_env\<close> collects what the handler takes from outside the sources: the content hashes and the
  text of errors, the size of the database, the clock and the process.  A result \<open>None\<close> is a panic
  of the address allocator.  The mutex around the store is never poisoned here, and the framing of
  the socket and the JSON encoding are third-party code: encoding and decoding an answer are the
  fields \<open>ae_encode\<close> and \<open>ae_decode\<close>.

  The results: an idempotency key is answered the same way for ever and a repeated request does not
  touch the store; a catalog commit that is answered with success carries a revision above every
  record of the replica, and its deployment then holds the newer of this record and the one it had;
  every other deployment is left alone.
\<close>

section \<open>Requests and responses\<close>

record CronSpecRequest =
  cq_service :: string
  cq_cron_name :: string
  cq_revision :: u64
  cq_canonical_hash :: string
  cq_source_deployment_id :: string
  cq_source_replica_id :: string
  cq_image :: string
  cq_schedule :: string
  cq_timezone :: string
  cq_timeout_seconds :: u64
  cq_overlap :: JobOverlap
  cq_missed_runs :: JobMissedRuns
  cq_command :: "string list"
  cq_env_file_path :: string
  cq_mount_args :: "string list"
  cq_resource_args :: "string list"
  cq_bridge_network :: string
  cq_dns_address :: string

record CommitRequest =
  cm_service :: string
  cm_replica_id :: string
  cm_deployment_id :: string
  cm_address :: string
  cm_ports :: "u16 list"
  cm_image :: string
  cm_state :: DeploymentState
  cm_health :: HealthState

datatype RequestBody =
    ReqHealth
  | ReqIdentity
  | ReqDiagnostics
  | ReqCompact
  | ReqReconciliationStatus
  | ReqCatalogRead (rq_key: string)
  | ReqLocalTransaction string string
  | ReqCatalogList
  | ReqAllocateAddress (rq_deployment: string) (rq_replica: string) (rq_subnet: string) (rq_reserved: "string list") (rq_timestamp: u64)
  | ReqReleaseAddress string u64
  | ReqDesiredCommit string "u32 option"
  | ReqDesiredRead string
  | ReqCatalogCommit CommitRequest
  | ReqCronSpecApply CronSpecRequest
  | ReqCronSpecRemove string string
  | ReqCronSpecList
  | ReqCronStatus "string option" "string option"
  | ReqCronRun string string u64
  | ReqCronRuns CronRunFilter
  | ReqImageRetentionApply string string u32
  | ReqImageRetentionRemove string
  | ReqImageRetentionList

record Request =
  req_idempotency_key :: "string option"
  req_body :: RequestBody

record CronJobStatus =
  jst_service :: string
  jst_cron_name :: string
  jst_last_scheduled_at :: "u64 option"
  jst_last_started_at :: "u64 option"
  jst_last_finished_at :: "u64 option"
  jst_last_state :: "CronRunState option"
  jst_last_exit_code :: "int option"
  jst_next_due_at :: "u64 option"
  jst_active_run_id :: "string option"
  jst_skipped_overlap_count :: u64

record DiagnosticsResponse =
  dg_schema_version :: int
  dg_observation_count :: nat
  dg_socket_path :: string
  dg_uptime_seconds :: u64
  dg_database_usage_bytes :: u64
  dg_database_soft_quota_bytes :: "u64 option"
  dg_operation_counts :: OperationCounts
  dg_peer_reachability_timeout_secs :: u64
  dg_peer_sync :: "PeerSyncStatus list"
  dg_components :: "ComponentStatus list"

datatype ResponseBody =
    ResHealth int nat string
  | ResIdentity string string nat
  | ResDiagnostics DiagnosticsResponse
  | ResCompacted nat nat nat
  | ResReconciliationStatus "string option" nat "PeerSyncStatus list" "ComponentStatus list"
  | ResCatalogRead "string option" "int option"
  | ResLocalTransaction int
  | ResCatalogList "CatalogRecord list"
  | ResAddressLease (rs_deployment: string) (rs_replica: string) (rs_address: string) (rs_state: string)
  | ResAddressReleased bool
  | ResDesiredState "DesiredStateRecord option"
  | ResCatalogCommitted CatalogRecord
  | ResCronSpecApplied CronJobSpec CronSpecApplyOutcomeKind
  | ResCronSpecRemoved bool
  | ResCronSpecs "CronJobSpec list"
  | ResCronStatuses "CronJobStatus list"
  | ResCronRunAccepted string
  | ResCronRunConflict string
  | ResCronRuns "CronRun list"
  | ResImageRetentionApplied ImageRetentionSpec
  | ResImageRetentionRemoved bool
  | ResImageRetentionSpecs "ImageRetentionSpec list"

datatype ErrorCode = Unauthorized | RequestTooLarge | Busy | NotFound | Invalid | Internal

record ApiError =
  er_code :: ErrorCode
  er_message :: string

type_synonym ApiResult = "(ApiError, ResponseBody) result"

definition api_error :: "ErrorCode \<Rightarrow> string \<Rightarrow> ApiError" where
  "api_error code message = \<lparr>er_code = code, er_message = message\<rparr>"

section \<open>The handler\<close>

record api_env =
  ae_membership_hash :: "MembershipRecord \<Rightarrow> string"
  ae_catalog_hash :: "CatalogRecord \<Rightarrow> string"
  ae_desired_hash :: "DesiredStateRecord \<Rightarrow> string"
  ae_pages :: u64
  ae_page_size :: u64
  ae_deployment_label :: "string \<Rightarrow> string option"
  ae_newest_first :: run_order
  ae_show_store :: "StoreError \<Rightarrow> string"
  ae_show_lease :: "LeaseError \<Rightarrow> string"
  ae_show_membership :: "MembershipError \<Rightarrow> string"
  ae_show_plan :: "NetworkPlanError \<Rightarrow> string"
  ae_show_addr :: string
  ae_encode :: "ApiResult \<Rightarrow> string option"
  ae_decode :: "string \<Rightarrow> (string, ApiResult) result"
  ae_schema_version :: int
  ae_version :: string
  ae_pid :: nat
  ae_uptime :: u64
  ae_run_id :: string

record AgentApi =
  api_project :: string
  api_engine_name :: string
  api_socket_path :: string
  api_peer_reachability_timeout_secs :: u64
  api_catalog_identity :: "NodeIdentity option"
  api_engine :: "Engine option"
  api_mesh_config :: "MeshConfig option"

definition api_new :: "string \<Rightarrow> string \<Rightarrow> string \<Rightarrow> AgentApi" where
  "api_new project engine socket_path =
     \<lparr>api_project = project, api_engine_name = engine, api_socket_path = socket_path,
      api_peer_reachability_timeout_secs = 30, api_catalog_identity = None, api_engine = None,
      api_mesh_config = None\<rparr>"

definition internal :: "api_env \<Rightarrow> StoreError \<Rightarrow> ApiError" where
  "internal env e = api_error Internal (ae_show_store env e)"

type_synonym handled = "ApiResult \<times> AgentStore"

text \<open>
  The membership view and the record of this node, which \<^verbatim>\<open>DesiredCommit\<close>, \<^verbatim>\<open>CatalogCommit\<close> and
  \<^verbatim>\<open>CronSpecApply\<close> start from.
\<close>

definition own_membership ::
  "api_env \<Rightarrow> NodeIdentity \<Rightarrow> AgentStore \<Rightarrow> (ApiError, MembershipView \<times> MembershipRecord) result" where
  "own_membership env ident st =
     (case membership_from_records (ae_membership_hash env) (scope ident) (membership_operations st) of
        Inl e \<Rightarrow> Inl (api_error Internal (ae_show_membership env e))
      | Inr membership \<Rightarrow>
          (case membership_get membership (ni_node_id ident) of
             None \<Rightarrow> Inl (api_error Invalid ''local node has no active membership record'')
           | Some owner \<Rightarrow> Inr (membership, owner)))"

definition handle_desired_commit :: "api_env \<Rightarrow> AgentApi \<Rightarrow> string \<Rightarrow> u32 option \<Rightarrow> AgentStore \<Rightarrow> handled" where
  "handle_desired_commit env api service scale_override st =
     (case api_catalog_identity api of
        None \<Rightarrow> (Inl (api_error Invalid ''desired-state identity is not configured''), st)
      | Some ident \<Rightarrow>
          (case own_membership env ident st of
             Inl e \<Rightarrow> (Inl e, st)
           | Inr (membership, author) \<Rightarrow>
               (let revision = (case desired_state service st of None \<Rightarrow> 1 | Some current \<Rightarrow> dr_revision current + 1);
                    record =
                      \<lparr>dr_project_id = ni_project_id ident, dr_recovery_epoch = ni_recovery_epoch ident,
                       dr_protocol_version = DESIRED_PROTOCOL_VERSION, dr_schema_version = DESIRED_SCHEMA_VERSION,
                       dr_service = service, dr_scale_override = scale_override, dr_revision = revision,
                       dr_author_node_id = ni_node_id ident, dr_author_epoch = mr_owner_epoch author\<rparr>
                in case apply_desired (ae_desired_hash env) (ae_pages env) (ae_page_size env) (ni_project_id ident)
                          (ni_recovery_epoch ident) membership record Local st of
                     Inl e \<Rightarrow> (Inl (internal env e), st)
                   | Inr (_, st') \<Rightarrow> (Inr (ResDesiredState (Some record)), st'))))"

text \<open>The highest revision the catalog knows for a replica, plus one; the sum saturates.\<close>

definition next_revision :: "string \<Rightarrow> CatalogRecord list \<Rightarrow> u64" where
  "next_revision replica_id catalog =
     u64_saturating_add
       (case max_epoch (map cr_revision (filter (\<lambda>r. cr_replica_id r = replica_id) catalog)) of None \<Rightarrow> 0 | Some m \<Rightarrow> m) 1"

definition replica_fenced :: "NodeIdentity \<Rightarrow> u64 \<Rightarrow> string \<Rightarrow> CatalogRecord list \<Rightarrow> bool" where
  "replica_fenced ident epoch replica_id catalog =
     list_ex (\<lambda>r. cr_replica_id r = replica_id \<and> cr_owner_node_id r \<noteq> ni_node_id ident \<and> epoch \<le> cr_owner_epoch r) catalog"

definition commit_record :: "NodeIdentity \<Rightarrow> u64 \<Rightarrow> u64 \<Rightarrow> Ipv4Addr \<Rightarrow> CommitRequest \<Rightarrow> CatalogRecord" where
  "commit_record ident epoch revision addr c =
     \<lparr>cr_project_id = ni_project_id ident, cr_recovery_epoch = ni_recovery_epoch ident,
      cr_protocol_version = CATALOG_PROTOCOL_VERSION, cr_schema_version = CATALOG_SCHEMA_VERSION,
      cr_service = cm_service c, cr_replica_id = cm_replica_id c, cr_owner_node_id = ni_node_id ident,
      cr_owner_epoch = epoch, cr_revision = revision, cr_deployment_id = cm_deployment_id c,
      cr_address = addr, cr_ports = cm_ports c, cr_image = cm_image c, cr_state = cm_state c,
      cr_health = cm_health c\<rparr>"

definition handle_catalog_commit :: "api_env \<Rightarrow> AgentApi \<Rightarrow> CommitRequest \<Rightarrow> AgentStore \<Rightarrow> handled" where
  "handle_catalog_commit env api c st =
     (case api_catalog_identity api of
        None \<Rightarrow> (Inl (api_error Invalid ''catalog identity is not configured''), st)
      | Some ident \<Rightarrow>
          (case parse_ipv4 (cm_address c) of
             None \<Rightarrow> (Inl (api_error Invalid (ae_show_addr env)), st)
           | Some addr \<Rightarrow>
               (case own_membership env ident st of
                  Inl e \<Rightarrow> (Inl e, st)
                | Inr (membership, owner) \<Rightarrow>
                    (let catalog = latest_catalog st in
                     if replica_fenced ident (mr_owner_epoch owner) (cm_replica_id c) catalog
                     then (Inl (api_error Invalid ''replica is fenced to a different owner''), st)
                     else
                       (let record = commit_record ident (mr_owner_epoch owner) (next_revision (cm_replica_id c) catalog) addr c
                        in case apply_catalog (ae_catalog_hash env) (ae_pages env) (ae_page_size env) (ni_project_id ident)
                                  (ni_recovery_epoch ident) membership record Local st of
                             Inl e \<Rightarrow> (Inl (internal env e), st)
                           | Inr (_, st') \<Rightarrow> (Inr (ResCatalogCommitted record), st'))))))"

definition handle_cron_spec_apply :: "api_env \<Rightarrow> AgentApi \<Rightarrow> CronSpecRequest \<Rightarrow> AgentStore \<Rightarrow> handled" where
  "handle_cron_spec_apply env api q st =
     (case api_catalog_identity api of
        None \<Rightarrow> (Inl (api_error Invalid ''cron identity is not configured''), st)
      | Some ident \<Rightarrow>
          (case own_membership env ident st of
             Inl e \<Rightarrow> (Inl e, st)
           | Inr (membership, owner) \<Rightarrow>
               (let spec =
                  \<lparr>cj_project = ni_project_id ident, cj_service = cq_service q, cj_cron_name = cq_cron_name q,
                   cj_revision = cq_revision q, cj_canonical_hash = cq_canonical_hash q,
                   cj_owner_node_id = ni_node_id ident, cj_owner_epoch = mr_owner_epoch owner,
                   cj_server = mr_server_name owner, cj_source_deployment_id = cq_source_deployment_id q,
                   cj_source_replica_id = cq_source_replica_id q, cj_image = cq_image q,
                   cj_schedule = cq_schedule q, cj_timezone = cq_timezone q,
                   cj_timeout_seconds = cq_timeout_seconds q, cj_overlap = cq_overlap q,
                   cj_missed_runs = cq_missed_runs q, cj_command = cq_command q,
                   cj_env_file_path = cq_env_file_path q, cj_mount_args = cq_mount_args q,
                   cj_resource_args = cq_resource_args q, cj_bridge_network = cq_bridge_network q,
                   cj_dns_address = cq_dns_address q\<rparr>;
                   (outcome, st') = apply_cron_spec spec st
                in (Inr (ResCronSpecApplied (outcome_spec outcome) (outcome_kind outcome)), st'))))"

definition cron_job_status :: "api_env \<Rightarrow> AgentStore \<Rightarrow> CronJobSpec \<Rightarrow> CronJobStatus" where
  "cron_job_status env st spec =
     (let state = cron_scheduler_state (cj_service spec) (cj_cron_name spec) st;
          runs = cron_runs (ae_newest_first env)
                   \<lparr>cf_service = Some (cj_service spec), cf_cron_name = Some (cj_cron_name spec), cf_run_id = None,
                    cf_since = None, cf_limit = Some 1\<rparr> st;
          last_run = (case runs of [] \<Rightarrow> None | run # _ \<Rightarrow> Some run);
          active_run = active_cron_run (cj_service spec) (cj_cron_name spec) st
      in \<lparr>jst_service = cj_service spec, jst_cron_name = cj_cron_name spec,
          jst_last_scheduled_at = Option.bind last_run cx_scheduled_at,
          jst_last_started_at = Option.bind last_run cx_started_at,
          jst_last_finished_at = Option.bind last_run cx_finished_at,
          jst_last_state = map_option cx_state last_run,
          jst_last_exit_code = Option.bind last_run cx_exit_code,
          jst_next_due_at = Option.bind state cs_next_due_at,
          jst_active_run_id = map_option cx_run_id active_run,
          jst_skipped_overlap_count = (case state of None \<Rightarrow> 0 | Some s \<Rightarrow> cs_skipped_overlap_count s)\<rparr>)"

definition handle_cron_status :: "api_env \<Rightarrow> string option \<Rightarrow> string option \<Rightarrow> AgentStore \<Rightarrow> ResponseBody" where
  "handle_cron_status env service cron_name st =
     ResCronStatuses
       (map (cron_job_status env st)
         (filter (\<lambda>spec. (case service of None \<Rightarrow> True | Some s \<Rightarrow> s = cj_service spec) \<and>
                         (case cron_name of None \<Rightarrow> True | Some n \<Rightarrow> n = cj_cron_name spec)) (cron_specs st)))"

definition no_runtime_message :: string where
  "no_runtime_message = ''agent has no engine/mesh runtime configured; cannot execute cron containers''"

text \<open>
  A manual run: the job is claimed, leased an address and handed to a background task.  The task
  is not part of the answer.
\<close>

definition handle_cron_run :: "api_env \<Rightarrow> AgentApi \<Rightarrow> string \<Rightarrow> string \<Rightarrow> u64 \<Rightarrow> AgentStore \<Rightarrow> handled option" where
  "handle_cron_run env api service cron_name timestamp st =
     (case cron_spec service cron_name st of
        None \<Rightarrow>
          Some (Inl (api_error NotFound (''service '' @ [CHR 0x27] @ service @ [CHR 0x27]
            @ '' has no installed cron job named '' @ [CHR 0x27] @ cron_name @ [CHR 0x27])), st)
      | Some spec \<Rightarrow>
          (case claim_cron_run (api_project api) service cron_name Manual None (ae_run_id env) timestamp st of
             Inl e \<Rightarrow> Some (Inl (internal env e), st)
           | Inr (OverlapForbidden active, st') \<Rightarrow> Some (Inr (ResCronRunConflict active), st')
           | Inr (DuplicateScheduledClaim _, st') \<Rightarrow>
               Some (Inl (api_error Internal ''a manual run unexpectedly produced a scheduled-claim outcome''), st')
           | Inr (ClaimedRun run, st') \<Rightarrow>
               (case (api_engine api, api_mesh_config api) of
                  (Some engine, Some mesh_config) \<Rightarrow>
                    (case lease_and_spawn (ae_deployment_label env) (ae_show_lease env) mesh_config spec run timestamp st' of
                       None \<Rightarrow> None
                     | Some (Inl error, st'') \<Rightarrow> Some (Inl (api_error Internal error), st'')
                     | Some (Inr _, st'') \<Rightarrow> Some (Inr (ResCronRunAccepted (cx_run_id run)), st''))
                | _ \<Rightarrow>
                    Some (Inl (api_error Internal no_runtime_message),
                      snd (finish_cron_run (cx_run_id run) Failed timestamp None (Some no_runtime_message) st')))))"

fun parse_addresses :: "string list \<Rightarrow> Ipv4Addr list option" where
  "parse_addresses [] = Some []"
| "parse_addresses (value # rest) =
     (case parse_ipv4 value of
        None \<Rightarrow> None
      | Some a \<Rightarrow> map_option (\<lambda>as. a # as) (parse_addresses rest))"

definition handle_allocate ::
  "api_env \<Rightarrow> string \<Rightarrow> string \<Rightarrow> string \<Rightarrow> string list \<Rightarrow> u64 \<Rightarrow> AgentStore \<Rightarrow> handled option" where
  "handle_allocate env deployment_id replica_id sub reserved timestamp st =
     (case parse_cidr sub of
        Inl e \<Rightarrow> Some (Inl (api_error Invalid (ae_show_plan env e)), st)
      | Inr cidr \<Rightarrow>
          (case parse_addresses reserved of
             None \<Rightarrow> Some (Inl (api_error Invalid (ae_show_addr env)), st)
           | Some addresses \<Rightarrow>
               (case allocate (ae_deployment_label env) (allocator_new cidr addresses) deployment_id replica_id timestamp st of
                  None \<Rightarrow> None
                | Some (Inl e, st') \<Rightarrow> Some (Inl (api_error Invalid (ae_show_lease env e)), st')
                | Some (Inr lease, st') \<Rightarrow>
                    Some (Inr (ResAddressLease (al_deployment_id lease) (al_replica_id lease)
                                 (show_ipv4 (al_address lease)) (al_state lease)), st'))))"

definition handle_release :: "api_env \<Rightarrow> string \<Rightarrow> u64 \<Rightarrow> AgentStore \<Rightarrow> handled" where
  "handle_release env deployment_id timestamp st =
     (case quarantine_address_lease deployment_id (u64_saturating_add timestamp DEFAULT_QUARANTINE_SECONDS) st of
        Inl e \<Rightarrow> (Inl (internal env e), st)
      | Inr (released, st') \<Rightarrow> (Inr (ResAddressReleased released), st'))"

definition diagnostics :: "api_env \<Rightarrow> AgentApi \<Rightarrow> AgentStore \<Rightarrow> DiagnosticsResponse" where
  "diagnostics env api st =
     \<lparr>dg_schema_version = ae_schema_version env, dg_observation_count = observation_count st,
      dg_socket_path = api_socket_path api, dg_uptime_seconds = ae_uptime env,
      dg_database_usage_bytes = database_usage_bytes (ae_pages env) (ae_page_size env),
      dg_database_soft_quota_bytes = as_soft_quota_bytes st, dg_operation_counts = operation_counts st,
      dg_peer_reachability_timeout_secs = api_peer_reachability_timeout_secs api,
      dg_peer_sync = peer_sync_statuses st, dg_components = component_statuses st\<rparr>"

fun handle :: "api_env \<Rightarrow> AgentApi \<Rightarrow> RequestBody \<Rightarrow> AgentStore \<Rightarrow> handled option" where
  "handle env api ReqHealth st = Some (Inr (ResHealth (ae_schema_version env) (observation_count st) (ae_version env)), st)"
| "handle env api ReqIdentity st = Some (Inr (ResIdentity (api_project api) (api_engine_name api) (ae_pid env)), st)"
| "handle env api ReqDiagnostics st = Some (Inr (ResDiagnostics (diagnostics env api st)), st)"
| "handle env api ReqCompact st =
     (let (r, st') = compact_operations st
      in Some (Inr (ResCompacted (comp_membership_removed r) (comp_catalog_removed r) (comp_desired_removed r)), st'))"
| "handle env api ReqReconciliationStatus st =
     Some (Inr (ResReconciliationStatus (get_checkpoint ''last_discovery_at'' st) (observation_count st)
                  (peer_sync_statuses st) (component_statuses st)), st)"
| "handle env api (ReqCatalogRead key) st =
     (let entry = read_local_state key st
      in Some (Inr (ResCatalogRead (map_option fst entry) (map_option snd entry)), st))"
| "handle env api (ReqLocalTransaction key value) st =
     (let (revision, st') = commit_local_transaction key value st
      in Some (Inr (ResLocalTransaction revision), st'))"
| "handle env api ReqCatalogList st = Some (Inr (ResCatalogList (latest_catalog st)), st)"
| "handle env api (ReqAllocateAddress deployment_id replica_id sub reserved timestamp) st =
     handle_allocate env deployment_id replica_id sub reserved timestamp st"
| "handle env api (ReqReleaseAddress deployment_id timestamp) st = Some (handle_release env deployment_id timestamp st)"
| "handle env api (ReqDesiredCommit service scale_override) st = Some (handle_desired_commit env api service scale_override st)"
| "handle env api (ReqDesiredRead service) st = Some (Inr (ResDesiredState (desired_state service st)), st)"
| "handle env api (ReqCatalogCommit c) st = Some (handle_catalog_commit env api c st)"
| "handle env api (ReqCronSpecApply q) st = Some (handle_cron_spec_apply env api q st)"
| "handle env api (ReqCronSpecRemove service cron_name) st =
     (let (removed, st') = remove_cron_spec service cron_name st in Some (Inr (ResCronSpecRemoved removed), st'))"
| "handle env api ReqCronSpecList st = Some (Inr (ResCronSpecs (cron_specs st)), st)"
| "handle env api (ReqCronStatus service cron_name) st = Some (Inr (handle_cron_status env service cron_name st), st)"
| "handle env api (ReqCronRun service cron_name timestamp) st = handle_cron_run env api service cron_name timestamp st"
| "handle env api (ReqCronRuns f) st = Some (Inr (ResCronRuns (cron_runs (ae_newest_first env) f st)), st)"
| "handle env api (ReqImageRetentionApply service repo retain) st =
     (let (stored, st') = apply_image_retention_spec \<lparr>ir_service = service, ir_repo = repo, ir_retain = retain\<rparr> st
      in Some (Inr (ResImageRetentionApplied stored), st'))"
| "handle env api (ReqImageRetentionRemove service) st =
     (let (removed, st') = remove_image_retention_spec service st in Some (Inr (ResImageRetentionRemoved removed), st'))"
| "handle env api ReqImageRetentionList st = Some (Inr (ResImageRetentionSpecs (image_retention_specs st)), st)"

text \<open>
  The store lock is taken three times for a request with a key: for the look-up, for the request
  itself and for remembering the answer.  In between, other connections run sections of their own.
\<close>

datatype locked =
    Handling api_env RequestBody
  | Remembering string string

fun run_section :: "AgentApi \<Rightarrow> locked \<Rightarrow> AgentStore \<Rightarrow> AgentStore option" where
  "run_section api (Handling env body) st = map_option snd (handle env api body st)"
| "run_section api (Remembering key answer) st = Some (idempotent_put key answer st)"

fun run_sections :: "AgentApi \<Rightarrow> locked list \<Rightarrow> AgentStore \<Rightarrow> AgentStore option" where
  "run_sections api [] st = Some st"
| "run_sections api (x # xs) st = Option.bind (run_section api x st) (run_sections api xs)"

definition cached_answer :: "api_env \<Rightarrow> string \<Rightarrow> AgentStore \<Rightarrow> ApiResult option" where
  "cached_answer env key st =
     map_option (\<lambda>stored. case ae_decode env stored of Inr res \<Rightarrow> res | Inl e \<Rightarrow> Inl (api_error Internal e))
       (idempotent_get key st)"

definition remember :: "api_env \<Rightarrow> string \<Rightarrow> ApiResult \<Rightarrow> AgentStore \<Rightarrow> AgentStore" where
  "remember env key res st =
     (case ae_encode env res of Some serialized \<Rightarrow> idempotent_put key serialized st | None \<Rightarrow> st)"

text \<open>\<open>before\<close> and \<open>after\<close> are the sections of others before and after the request itself is handled.\<close>

definition handle_idempotent ::
  "api_env \<Rightarrow> AgentApi \<Rightarrow> Request \<Rightarrow> locked list \<Rightarrow> locked list \<Rightarrow> AgentStore \<Rightarrow> handled option" where
  "handle_idempotent env api request before after st =
     (case req_idempotency_key request of
        None \<Rightarrow> handle env api (req_body request) st
      | Some key \<Rightarrow>
          (case cached_answer env key st of
             Some res \<Rightarrow> Some (res, st)
           | None \<Rightarrow>
               Option.bind (run_sections api before st) (\<lambda>st1.
               Option.bind (handle env api (req_body request) st1) (\<lambda>(res, st2).
               Option.bind (run_sections api after st2) (\<lambda>st3.
               Some (res, remember env key res st3))))))"

section \<open>Idempotency keys\<close>

text \<open>No request changes the table of idempotency keys.\<close>

named_theorems keeps_keys \<open>operations that leave the idempotency keys alone\<close>

lemma apply_desired_keys [keeps_keys]:
  "apply_desired h pg ps pid ep mem r prov st = Inr (o', st') \<Longrightarrow> as_idempotency_keys st' = as_idempotency_keys st"
  by (auto simp: apply_desired_def Let_def split: if_splits sum.splits prod.splits)

lemma apply_catalog_keys [keeps_keys]:
  "apply_catalog h pg ps pid ep mem r prov st = Inr (o', st') \<Longrightarrow> as_idempotency_keys st' = as_idempotency_keys st"
  by (auto simp: apply_catalog_def Let_def split: if_splits sum.splits prod.splits)

lemma claim_cron_run_keys [keeps_keys]:
  "claim_cron_run p s n c d i t st = Inr (o', st') \<Longrightarrow> as_idempotency_keys st' = as_idempotency_keys st"
  by (auto simp: claim_cron_run_def bump_skipped_overlap_def Let_def split: if_splits option.splits prod.splits)

lemma finish_cron_run_keys [simp]:
  "as_idempotency_keys (snd (finish_cron_run i s t e er st)) = as_idempotency_keys st"
  by (auto simp: finish_cron_run_def update_run_def split: option.splits)

lemma allocate_keys [keeps_keys]:
  "allocate lab al d r t st = Some (res, st') \<Longrightarrow> as_idempotency_keys st' = as_idempotency_keys st"
  using allocate_leases_only [of lab al d r t st res st'] by (metis leases_only_def AgentStore.select_convs(2) AgentStore.surjective AgentStore.update_convs(12))

lemma quarantine_keys [keeps_keys]:
  "quarantine_address_lease d u st = Inr (b, st') \<Longrightarrow> as_idempotency_keys st' = as_idempotency_keys st"
  by (auto simp: quarantine_address_lease_def split: option.splits sum.splits if_splits)

lemma lease_and_spawn_keys [keeps_keys]:
  "lease_and_spawn lab sh mc spec run t st = Some (res, st') \<Longrightarrow> as_idempotency_keys st' = as_idempotency_keys st"
  by (auto simp: lease_and_spawn_def Let_def split: option.splits sum.splits prod.splits dest: allocate_keys)

lemma handle_commit_keys:
  "handle_desired_commit env api s o' st = (r, st') \<Longrightarrow> as_idempotency_keys st' = as_idempotency_keys st"
  "handle_catalog_commit env api c st = (r, st') \<Longrightarrow> as_idempotency_keys st' = as_idempotency_keys st"
  by (auto simp: handle_desired_commit_def handle_catalog_commit_def Let_def
      split: option.splits sum.splits prod.splits if_splits dest: keeps_keys)

lemma handle_cron_keys:
  "handle_cron_spec_apply env api q st = (r, st') \<Longrightarrow> as_idempotency_keys st' = as_idempotency_keys st"
  "handle_cron_run env api s n t st = Some (r, st') \<Longrightarrow> as_idempotency_keys st' = as_idempotency_keys st"
proof -
  show "handle_cron_spec_apply env api q st = (r, st') \<Longrightarrow> as_idempotency_keys st' = as_idempotency_keys st"
    by (auto simp: handle_cron_spec_apply_def apply_cron_spec_def Let_def
        split: option.splits sum.splits prod.splits if_splits)
  assume run: "handle_cron_run env api s n t st = Some (r, st')"
  show "as_idempotency_keys st' = as_idempotency_keys st"
  proof (cases "cron_spec s n st")
    case None
    then show ?thesis using run by (simp add: handle_cron_run_def)
  next
    case (Some spec)
    note run' = run [unfolded handle_cron_run_def, simplified Some option.case]
    show ?thesis
    proof (cases "claim_cron_run (api_project api) s n Manual None (ae_run_id env) t st")
      case (Inl e)
      then show ?thesis using run' by simp
    next
      case (Inr x)
      obtain out st1 where x: "x = (out, st1)" by (cases x)
      have "as_idempotency_keys st1 = as_idempotency_keys st" using Inr x by (simp add: keeps_keys)
      then show ?thesis using run' Inr x
        by (cases out) (auto split: option.splits sum.splits prod.splits dest: lease_and_spawn_keys)
    qed
  qed
qed

lemma handle_lease_keys:
  "handle_allocate env d rp sub res t st = Some (r, st') \<Longrightarrow> as_idempotency_keys st' = as_idempotency_keys st"
  "handle_release env d t st = (r, st') \<Longrightarrow> as_idempotency_keys st' = as_idempotency_keys st"
  by (auto simp: handle_allocate_def handle_release_def split: option.splits sum.splits prod.splits dest: keeps_keys)

lemma handle_keys:
  "handle env api b st = Some (r, st') \<Longrightarrow> as_idempotency_keys st' = as_idempotency_keys st"
  by (cases b)
    (auto simp: compact_operations_def commit_local_transaction_def remove_cron_spec_def apply_image_retention_spec_def
      remove_image_retention_spec_def Let_def split: prod.splits
      dest: handle_commit_keys handle_cron_keys handle_lease_keys)

lemma idempotent_put_get: "idempotent_get key (idempotent_put key v st) = Some (case idempotent_get key st of None \<Rightarrow> v | Some w \<Rightarrow> w)"
  by (simp add: idempotent_get_def idempotent_put_def split: option.splits)

lemma idempotent_put_keeps: "idempotent_get k st = Some s \<Longrightarrow> idempotent_get k (idempotent_put key v st) = Some s"
  by (auto simp: idempotent_get_def idempotent_put_def split: option.splits)

lemma run_section_get:
  assumes "run_section api x st = Some st'"
  shows "idempotent_get k st' = (case idempotent_get k st of
    Some s \<Rightarrow> Some s | None \<Rightarrow> (case x of Remembering k' s \<Rightarrow> if k' = k then Some s else None | _ \<Rightarrow> None))"
proof (cases x)
  case (Handling env b)
  then show ?thesis using assms by (auto simp: idempotent_get_def handle_keys split: option.splits)
next
  case (Remembering k' s)
  then show ?thesis using assms by (auto simp: idempotent_get_def idempotent_put_def split: option.splits)
qed

lemma run_sections_keep:
  "\<lbrakk>run_sections api xs st = Some st'; idempotent_get k st = Some s\<rbrakk> \<Longrightarrow> idempotent_get k st' = Some s"
proof (induction xs arbitrary: st)
  case (Cons x xs)
  then obtain st1 where "run_section api x st = Some st1" "run_sections api xs st1 = Some st'"
    by (auto split: bind_splits)
  then show ?case using Cons.IH Cons.prems(2) by (simp add: run_section_get)
qed simp

definition remembers :: "string \<Rightarrow> locked \<Rightarrow> bool" where
  "remembers key x = (case x of Remembering k _ \<Rightarrow> k = key | _ \<Rightarrow> False)"

lemma run_sections_absent:
  "\<lbrakk>run_sections api xs st = Some st'; idempotent_get k st = None; \<not> list_ex (remembers k) xs\<rbrakk> \<Longrightarrow> idempotent_get k st' = None"
proof (induction xs arbitrary: st)
  case (Cons x xs)
  then obtain st1 where step: "run_section api x st = Some st1" "run_sections api xs st1 = Some st'"
    by (auto split: bind_splits)
  have "idempotent_get k st1 = None"
    using run_section_get [OF step(1), of k] Cons.prems(2,3) by (auto simp: remembers_def split: locked.splits)
  then show ?case using Cons.IH [OF step(2)] Cons.prems(3) by simp
qed simp

definition codec_ok :: "api_env \<Rightarrow> ApiResult \<Rightarrow> bool" where
  "codec_ok env r \<longleftrightarrow> (case ae_encode env r of None \<Rightarrow> False | Some s \<Rightarrow> ae_decode env s = Inr r)"

text \<open>
  C13.  A request with an idempotency key is answered once and for all: unless another request with
  the same key is being answered at the same time, whatever the agent does afterwards, every later
  request with that key gets the same answer and leaves the store as it is.  Failures are answers
  too, so a failed request is never tried again under its key.
\<close>

theorem idempotent_requests:
  assumes first: "handle_idempotent env api q before after st = Some (r, st1)" "req_idempotency_key q = Some key"
    and alone: "\<not> list_ex (remembers key) (before @ after)"
    and codec: "codec_ok env r" "ae_decode env' = ae_decode env"
    and later: "run_sections api others st1 = Some st2"
    and again: "req_idempotency_key q' = Some key"
  shows "handle_idempotent env' api q' before' after' st2 = Some (r, st2)"
proof -
  have "cached_answer env key st1 = Some r"
  proof (cases "idempotent_get key st")
    case (Some s)
    then show ?thesis using first by (auto simp: handle_idempotent_def cached_answer_def)
  next
    case None
    then obtain sa sb sc where steps: "run_sections api before st = Some sa" "handle env api (req_body q) sa = Some (r, sb)"
        "run_sections api after sb = Some sc" "st1 = remember env key r sc"
      using first by (auto simp: handle_idempotent_def cached_answer_def split: bind_splits)
    obtain s where s: "ae_encode env r = Some s" "ae_decode env s = Inr r"
      using codec(1) by (auto simp: codec_ok_def split: option.splits)
    have "idempotent_get key sa = None" using run_sections_absent [OF steps(1) None] alone by simp
    then have "idempotent_get key sb = None" using handle_keys [OF steps(2)] by (simp add: idempotent_get_def)
    then have "idempotent_get key sc = None" using run_sections_absent [OF steps(3)] alone by simp
    then show ?thesis using s by (simp add: steps(4) remember_def cached_answer_def idempotent_put_get)
  qed
  then obtain s where "idempotent_get key st1 = Some s"
    and r: "(case ae_decode env s of Inr res \<Rightarrow> res | Inl e \<Rightarrow> Inl (api_error Internal e)) = r"
    by (auto simp: cached_answer_def)
  then have "idempotent_get key st2 = Some s" using run_sections_keep [OF later] by blast
  then show ?thesis using again codec(2) r by (simp add: handle_idempotent_def cached_answer_def)
qed

definition demo_env :: api_env where
  "demo_env =
     \<lparr>ae_membership_hash = demo_hash, ae_catalog_hash = demo_catalog_hash, ae_desired_hash = (\<lambda>_. []),
      ae_pages = 0, ae_page_size = 0, ae_deployment_label = (\<lambda>_. None), ae_newest_first = (\<lambda>xs. xs),
      ae_show_store = (\<lambda>_. ''store''), ae_show_lease = (\<lambda>_. ''lease''), ae_show_membership = (\<lambda>_. ''membership''),
      ae_show_plan = (\<lambda>_. ''plan''), ae_show_addr = ''invalid IPv4 address syntax'',
      ae_encode = (\<lambda>_. Some ''one''), ae_decode = (\<lambda>_. Inr (Inr (ResLocalTransaction 1))),
      ae_schema_version = 1, ae_version = ''0'', ae_pid = 7, ae_uptime = 0, ae_run_id = ''run''\<rparr>"

definition demo_agent :: AgentApi where
  "demo_agent = (api_new ''p'' ''podman'' ''agent.sock'')\<lparr>
     api_catalog_identity := Some \<lparr>ni_project_id = ''p'', ni_recovery_epoch = 1, ni_node_id = ''a''\<rparr>\<rparr>"

abbreviation write_k :: "string option \<Rightarrow> string \<Rightarrow> Request" where
  "write_k key v \<equiv> \<lparr>req_idempotency_key = key, req_body = ReqLocalTransaction ''k'' v\<rparr>"

lemmas demo_write = handle_idempotent_def commit_local_transaction_def cached_answer_def remember_def idempotent_get_def
  idempotent_put_def store_empty_def demo_env_def Let_def

theorem idempotent_requests_witness:
  "\<exists>st1 st2. handle_idempotent demo_env demo_agent (write_k (Some ''i'') ''v'') [] [] store_empty = Some (Inr (ResLocalTransaction 1), st1) \<and>
     run_sections demo_agent [Handling demo_env (ReqLocalTransaction ''k'' ''w'')] st1 = Some st2 \<and>
     read_local_state ''k'' st2 = Some (''w'', 2) \<and>
     handle_idempotent demo_env demo_agent (write_k (Some ''i'') ''other'') [] [] st2 = Some (Inr (ResLocalTransaction 1), st2)"
proof -
  let ?q = "write_k (Some ''i'') ''v''"
  obtain st1 where first: "handle_idempotent demo_env demo_agent ?q [] [] store_empty = Some (Inr (ResLocalTransaction 1), st1)"
    and k: "as_local_state st1 = [(''k'', (''v'', 1))]"
    by (simp add: demo_write)
  obtain st2 where later: "run_sections demo_agent [Handling demo_env (ReqLocalTransaction ''k'' ''w'')] st1 = Some st2"
    "read_local_state ''k'' st2 = Some (''w'', 2)"
    by (simp add: commit_local_transaction_def read_local_state_def k Let_def)
  have "codec_ok demo_env (Inr (ResLocalTransaction 1))" by (simp add: codec_ok_def demo_env_def)
  from idempotent_requests [OF first _ _ this refl later(1), of "''i''" "write_k (Some ''i'') ''other''" "[]" "[]"]
  show ?thesis using first later by simp
qed

text \<open>
  Two requests with the same key that are served at the same time are both carried out, and get
  different answers: the second looks the key up before the first remembers its answer.
\<close>

lemma concurrent_duplicates_both_run:
  "\<exists>st'. handle_idempotent demo_env demo_agent (write_k (Some ''i'') ''v'') [Handling demo_env (ReqLocalTransaction ''k'' ''v'')]
      [Remembering ''i'' ''one''] store_empty = Some (Inr (ResLocalTransaction 2), st') \<and>
     cached_answer demo_env ''i'' st' = Some (Inr (ResLocalTransaction 1))"
  by (simp add: demo_write)

section \<open>Catalog commits\<close>

definition catalog_at :: "string \<Rightarrow> AgentStore \<Rightarrow> CatalogRecord option" where
  "catalog_at deployment_id st = map_option cw_record (map_of (as_catalog_records st) deployment_id)"

lemma next_revision_above:
  assumes "\<forall>x \<in> set (latest_catalog st). unat (cr_revision x) < 2 ^ 63"
    "x \<in> set (latest_catalog st)" "cr_replica_id x = replica_id"
  shows "cr_revision x < next_revision replica_id (latest_catalog st)"
proof -
  let ?revs = "map cr_revision (filter (\<lambda>r. cr_replica_id r = replica_id) (latest_catalog st))"
  have x: "cr_revision x \<in> set ?revs" using assms by auto
  then obtain m where m: "max_epoch ?revs = Some m" by (metis empty_iff list.set(1) max_epoch_None not_None_eq)
  have le: "cr_revision x \<le> m" and mem: "m \<in> set ?revs" using max_epoch_Some [OF m] x by auto
  have bound: "unat m < 2 ^ 63" using mem assms(1) by auto
  have next': "next_revision replica_id (latest_catalog st) = m + 1"
    using bound by (simp add: next_revision_def m u64_saturating_add_def)
  have succ: "unat (m + 1) = unat m + 1" using bound by (simp add: unat_word_ariths)
  show ?thesis using le succ by (simp add: next' word_less_nat_alt word_le_nat_alt)
qed

lemma catalog_store_recs:
  assumes "catalog_store_inv hash pid ep mem st"
  obtains v where "catalog_from_records hash pid ep mem (verified (catalog_operations st)) = Inr v"
    "replay (catalog_step hash pid ep mem) catalog_empty (map snd (as_catalog_operations st)) = Inr v"
    "set (latest_catalog st) = set (bt_values (cv_records v))"
    "map hash (map snd (as_catalog_operations st)) = map fst (as_catalog_operations st)"
    "\<And>d. catalog_at d st = map_of (cv_records v) d"
proof -
  note ok = assms [unfolded catalog_store_inv_def]
  obtain v where v: "replay (catalog_step hash pid ep mem) catalog_empty (map snd (as_catalog_operations st)) = Inr v"
    "as_catalog_records st = bt_map (crow hash) (cv_records v)"
    using ok unfolding log_ok_def by blast
  have "set (latest_catalog st) = set (bt_values (cv_records v))"
    using latest_catalog_mset [OF v(2)] by (rule mset_eq_setD)
  moreover have "catalog_at d st = map_of (cv_records v) d" for d
    by (simp add: catalog_at_def v(2) option.map_comp comp_def catalog_row_of_def option.map_ident)
  ultimately show thesis using that [of v] v(1) log_ok_ids [OF ok] by (simp add: catalog_stored)
qed

text \<open>Of a record and the one its deployment has, the one that comes later in the order of the catalog.\<close>

definition newer_record :: "(CatalogRecord \<Rightarrow> string) \<Rightarrow> CatalogRecord \<Rightarrow> CatalogRecord option \<Rightarrow> CatalogRecord" where
  "newer_record hash r old =
     (case old of None \<Rightarrow> r | Some x \<Rightarrow> if catalog_order r (hash r) \<le> catalog_order x (hash x) then x else r)"

lemma apply_catalog_newer:
  assumes inv: "catalog_store_inv hash pid ep mem st" and inj: "inj_on hash (insert r (snd ` set (as_catalog_operations st)))"
    and ap: "apply_catalog hash pages page_size pid ep mem r p st = Inr (out, st')"
  shows "catalog_at (cr_deployment_id r) st' = Some (newer_record hash r (catalog_at (cr_deployment_id r) st))"
proof -
  obtain v where v: "catalog_from_records hash pid ep mem (verified (catalog_operations st)) = Inr v"
    "replay (catalog_step hash pid ep mem) catalog_empty (map snd (as_catalog_operations st)) = Inr v"
    "map hash (map snd (as_catalog_operations st)) = map fst (as_catalog_operations st)"
    "\<And>d. catalog_at d st = map_of (cv_records v) d"
    using catalog_store_recs [OF inv] by metis
  have ids: "cv_record_ids v = hash ` set (map snd (as_catalog_operations st))"
    using cview.replay_facts [OF v(2)] by auto
  have logged: "fst ` set (as_catalog_operations st) = hash ` snd ` set (as_catalog_operations st)"
    using arg_cong [OF v(3), of set] by (simp add: image_image)
  show ?thesis
  proof (cases "hash r \<in> fst ` set (as_catalog_operations st)")
    case True
    then have same: "st' = st" using ap by (simp add: apply_catalog_def)
    have "r \<in> set (map snd (as_catalog_operations st))" using True inj unfolding logged by (auto dest: inj_onD)
    moreover have "inj_on hash (set (map snd (as_catalog_operations st)))" using inj by (rule inj_on_subset) auto
    ultimately obtain c where "map_of (cv_records v) (cr_deployment_id r) = Some c" "cord hash r \<le> cord hash c"
      using cview.replay_winner_max [OF v(2)] by blast
    then show ?thesis by (simp add: same v(4) newer_record_def)
  next
    case new: False
    have cap: "ensure_replication_capacity pages page_size st = Inr ()"
      using ap new by (auto simp: apply_catalog_def split: sum.splits)
    obtain v' where v': "catalog_apply hash pid ep mem v r p = Inr (out, v')"
      and st': "as_catalog_records st' = (if out = Applied then bt_insert (cr_deployment_id r) (crow hash r) (as_catalog_records st)
                                          else as_catalog_records st)"
      using ap unfolding apply_catalog_new [OF new cap v(1)] by (auto split: sum.splits if_splits)
    have "hash r \<notin> cv_record_ids v" using new by (simp add: ids logged)
    then have out: "out = (case map_of (cv_records v) (cr_deployment_id r) of
        None \<Rightarrow> Applied | Some c \<Rightarrow> if cord hash r \<le> cord hash c then Superseded else Applied)"
      using v' unfolding catalog_apply_Inr by (auto simp: catalog_insert_def not_le split: option.splits if_splits)
    have at: "catalog_at (cr_deployment_id r) st' = (if out = Applied then Some r else catalog_at (cr_deployment_id r) st)"
      by (simp add: catalog_at_def st' catalog_row_of_def)
    show ?thesis unfolding at out by (auto simp: newer_record_def v(4) split: option.splits)
  qed
qed

lemma commit_answered:
  assumes inv: "catalog_store_inv (ae_catalog_hash env) (ni_project_id ident) (ni_recovery_epoch ident) mem st"
    and collision_free: "inj_on (ae_catalog_hash env) (insert r (snd ` set (as_catalog_operations st)))"
    and ident: "api_catalog_identity api = Some ident"
    and owner: "own_membership env ident st = Inr (membership, owner)"
    and ok: "handle_catalog_commit env api c st = (Inr (ResCatalogCommitted r), st')"
  shows "\<exists>addr. parse_ipv4 (cm_address c) = Some addr \<and>
    r = commit_record ident (mr_owner_epoch owner) (next_revision (cm_replica_id c) (latest_catalog st)) addr c"
    "catalog_at (cm_deployment_id c) st' = Some (newer_record (ae_catalog_hash env) r (catalog_at (cm_deployment_id c) st))"
proof -
  let ?rec = "\<lambda>addr. commit_record ident (mr_owner_epoch owner) (next_revision (cm_replica_id c) (latest_catalog st)) addr c"
  obtain addr out where addr: "parse_ipv4 (cm_address c) = Some addr" "r = ?rec addr"
    and ap: "apply_catalog (ae_catalog_hash env) (ae_pages env) (ae_page_size env) (ni_project_id ident)
       (ni_recovery_epoch ident) membership r Local st = Inr (out, st')"
    using ok ident owner
    by (auto simp: handle_catalog_commit_def Let_def split: option.splits sum.splits prod.splits if_splits)
  then show "\<exists>addr. parse_ipv4 (cm_address c) = Some addr \<and> r = ?rec addr" by blast
  have inv': "catalog_store_inv (ae_catalog_hash env) (ni_project_id ident) (ni_recovery_epoch ident) membership st"
    using inv catalog_store_inv_membership by blast
  have "cr_deployment_id r = cm_deployment_id c" by (simp add: addr(2) commit_record_def)
  then show "catalog_at (cm_deployment_id c) st' = Some (newer_record (ae_catalog_hash env) r (catalog_at (cm_deployment_id c) st))"
    using apply_catalog_newer [OF inv' collision_free ap] by simp
qed

lemma commit_frame:
  assumes "handle_catalog_commit env api c st = (res, st')"
  shows "as_membership_operations st' = as_membership_operations st"
    "d \<noteq> cm_deployment_id c \<Longrightarrow> catalog_at d st' = catalog_at d st"
    "set (map fst (as_catalog_records st')) \<subseteq> insert (cm_deployment_id c) (set (map fst (as_catalog_records st)))"
    "\<lbrakk>api_catalog_identity api = Some ident;
      catalog_store_inv (ae_catalog_hash env) (ni_project_id ident) (ni_recovery_epoch ident) mem st\<rbrakk> \<Longrightarrow>
     catalog_store_inv (ae_catalog_hash env) (ni_project_id ident) (ni_recovery_epoch ident) mem st'"
proof -
  have "st' = st \<or> (\<exists>ident membership rec out. api_catalog_identity api = Some ident \<and> cr_deployment_id rec = cm_deployment_id c \<and>
      apply_catalog (ae_catalog_hash env) (ae_pages env) (ae_page_size env) (ni_project_id ident)
        (ni_recovery_epoch ident) membership rec Local st = Inr (out, st'))"
    using assms
    by (auto simp: handle_catalog_commit_def commit_record_def Let_def split: option.splits sum.splits prod.splits if_splits)
  then consider "st' = st" | ident' membership rec out where "api_catalog_identity api = Some ident'"
    "cr_deployment_id rec = cm_deployment_id c"
    "apply_catalog (ae_catalog_hash env) (ae_pages env) (ae_page_size env) (ni_project_id ident')
        (ni_recovery_epoch ident') membership rec Local st = Inr (out, st')"
    by blast
  then have "as_membership_operations st' = as_membership_operations st \<and>
    (d \<noteq> cm_deployment_id c \<longrightarrow> catalog_at d st' = catalog_at d st) \<and>
    set (map fst (as_catalog_records st')) \<subseteq> insert (cm_deployment_id c) (set (map fst (as_catalog_records st))) \<and>
    (api_catalog_identity api = Some ident \<and>
      catalog_store_inv (ae_catalog_hash env) (ni_project_id ident) (ni_recovery_epoch ident) mem st \<longrightarrow>
     catalog_store_inv (ae_catalog_hash env) (ni_project_id ident) (ni_recovery_epoch ident) mem st')"
  proof cases
    case 1
    then show ?thesis by auto
  next
    case (2 ident' membership rec out)
    have "catalog_store_inv (ae_catalog_hash env) (ni_project_id ident') (ni_recovery_epoch ident') mem st'"
      if "catalog_store_inv (ae_catalog_hash env) (ni_project_id ident') (ni_recovery_epoch ident') mem st"
      using catalog_store_inv_apply [OF _ 2(3)] that catalog_store_inv_membership by blast
    moreover have "as_membership_operations st' = as_membership_operations st \<and>
        (as_catalog_records st' = as_catalog_records st \<or>
         (\<exists>row. as_catalog_records st' = bt_insert (cm_deployment_id c) row (as_catalog_records st)))"
      using 2(2,3)
      by (auto simp: apply_catalog_def upsert_catalog_record_def Let_def split: if_splits sum.splits prod.splits)
    ultimately show ?thesis using 2(1)
      by (elim conjE disjE exE) (simp_all add: catalog_at_def bt_keys_insert subset_insertI, blast+)
  qed
  then show "as_membership_operations st' = as_membership_operations st"
    "d \<noteq> cm_deployment_id c \<Longrightarrow> catalog_at d st' = catalog_at d st"
    "set (map fst (as_catalog_records st')) \<subseteq> insert (cm_deployment_id c) (set (map fst (as_catalog_records st)))"
    "\<lbrakk>api_catalog_identity api = Some ident;
      catalog_store_inv (ae_catalog_hash env) (ni_project_id ident) (ni_recovery_epoch ident) mem st\<rbrakk> \<Longrightarrow>
     catalog_store_inv (ae_catalog_hash env) (ni_project_id ident) (ni_recovery_epoch ident) mem st'"
    by blast+
qed

text \<open>
  C10.  What a catalog commit that the agent answers with success leaves behind.  The answer carries the
  requested fields, owned by this node, with a revision above every record of its replica; the
  deployment ends with the later of this record and the one it had, in the order of the catalog, and all other
  deployments stay as they are.  So the record is stored when the deployment was unknown, or known as one of the same
  replica and of no later owner epoch.  Otherwise a success may have stored nothing: the handler does not look at
  the outcome.  The store is consistent, hashes do not collide, and the revisions in the table fit the 63 bits of SQLite.
\<close>

theorem catalog_commit_stored:
  assumes inv: "catalog_store_inv (ae_catalog_hash env) (ni_project_id ident) (ni_recovery_epoch ident) mem st"
    and collision_free: "inj_on (ae_catalog_hash env) (insert r (snd ` set (as_catalog_operations st)))"
    and revisions: "\<forall>x \<in> set (latest_catalog st). unat (cr_revision x) < 2 ^ 63"
    and ident: "api_catalog_identity api = Some ident"
    and owner: "own_membership env ident st = Inr (membership, owner)"
    and ok: "handle env api (ReqCatalogCommit c) st = Some (Inr (ResCatalogCommitted r), st')"
  shows "catalog_store_inv (ae_catalog_hash env) (ni_project_id ident) (ni_recovery_epoch ident) mem st' \<and>
    (\<exists>addr. parse_ipv4 (cm_address c) = Some addr \<and>
       r = commit_record ident (mr_owner_epoch owner) (next_revision (cm_replica_id c) (latest_catalog st)) addr c) \<and>
    (\<forall>x \<in> set (latest_catalog st). cr_replica_id x = cm_replica_id c \<longrightarrow> cr_revision x < cr_revision r) \<and>
    (\<forall>d. d \<noteq> cm_deployment_id c \<longrightarrow> catalog_at d st' = catalog_at d st) \<and>
    catalog_at (cm_deployment_id c) st' = Some (newer_record (ae_catalog_hash env) r (catalog_at (cm_deployment_id c) st)) \<and>
    ((\<forall>old. catalog_at (cm_deployment_id c) st = Some old \<longrightarrow>
        cr_replica_id old = cm_replica_id c \<and> cr_owner_epoch old \<le> mr_owner_epoch owner) \<longrightarrow>
     catalog_at (cm_deployment_id c) st' = Some r)"
proof -
  have ok': "handle_catalog_commit env api c st = (Inr (ResCatalogCommitted r), st')" using ok by simp
  note stored = commit_answered [OF inv collision_free ident owner ok']
  have fields: "cr_revision r = next_revision (cm_replica_id c) (latest_catalog st)" "cr_owner_epoch r = mr_owner_epoch owner"
    using stored(1) by (auto simp: commit_record_def)
  have above: "\<forall>x \<in> set (latest_catalog st). cr_replica_id x = cm_replica_id c \<longrightarrow> cr_revision x < cr_revision r"
    using next_revision_above [OF revisions] by (simp add: fields(1))
  have "newer_record (ae_catalog_hash env) r (catalog_at (cm_deployment_id c) st) = r"
    if "\<forall>old. catalog_at (cm_deployment_id c) st = Some old \<longrightarrow>
        cr_replica_id old = cm_replica_id c \<and> cr_owner_epoch old \<le> mr_owner_epoch owner"
  proof (cases "catalog_at (cm_deployment_id c) st")
    case (Some old)
    then have "old \<in> set (latest_catalog st)" by (force simp: catalog_at_def latest_catalog_def dest: map_of_SomeD)
    then have "cr_revision old < cr_revision r" "cr_owner_epoch old \<le> cr_owner_epoch r"
      using that Some above by (auto simp: fields(2))
    then have "\<not> catalog_order r (ae_catalog_hash env r) \<le> catalog_order old (ae_catalog_hash env old)"
      by (auto simp: catalog_order_def)
    then show ?thesis by (simp add: newer_record_def Some)
  qed (simp add: newer_record_def)
  then show ?thesis using stored above commit_frame(2,4) [OF ok'] ident inv by metis
qed

definition enrolled_store :: AgentStore where
  "enrolled_store = store_empty\<lparr>
     as_membership_operations := [(''a1'', node_a), (''b1'', node_b)],
     as_membership_records := [(''a'', membership_row_of ''a1'' node_a), (''b'', membership_row_of ''b1'' node_b)]\<rparr>"

text \<open>A store with one deployment, active at the given revision, and commits to it by its replica and by another.\<close>

abbreviation web_at :: "u64 \<Rightarrow> CatalogRecord" where "web_at revision \<equiv> demo_deployment ''r'' ''d1'' 1 revision Active Healthy"

definition serving_store :: "u64 \<Rightarrow> AgentStore" where
  "serving_store revision = enrolled_store\<lparr>
     as_catalog_operations := [(demo_catalog_hash (web_at revision), web_at revision)],
     as_catalog_records := [(''d1'', catalog_row_of (demo_catalog_hash (web_at revision)) (web_at revision))]\<rparr>"

definition commit_web :: "string \<Rightarrow> CommitRequest" where
  "commit_web replica = \<lparr>cm_service = ''web'', cm_replica_id = replica, cm_deployment_id = ''d1'', cm_address = show_ipv4 42,
     cm_ports = [80], cm_image = ''img'', cm_state = Draining, cm_health = Unknown\<rparr>"

abbreviation demo_node :: NodeIdentity where
  "demo_node \<equiv> \<lparr>ni_project_id = ''p'', ni_recovery_epoch = 1, ni_node_id = ''a''\<rparr>"

lemma serving_owner: "own_membership demo_env demo_node (serving_store revision) = Inr (demo_view, node_a)"
proof -
  have "membership_from_records demo_hash demo_scope [node_a, node_b] = Inr demo_view"
    by (simp add: membership_from_records_def demo_steps)
  then show ?thesis
    by (simp add: own_membership_def demo_env_def scope_def demo_scope_def membership_operations_def serving_store_def
        enrolled_store_def membership_get_def demo_view_def)
qed

lemma serving_view:
  assumes "revision \<noteq> 0"
  shows "catalog_step demo_catalog_hash ''p'' 1 mem catalog_empty (web_at revision) =
     Inr (Applied, \<lparr>cv_records = [(''d1'', web_at revision)], cv_record_ids = {demo_catalog_hash (web_at revision)}\<rparr>)"
  "catalog_store_inv demo_catalog_hash ''p'' 1 mem (serving_store revision)"
  "latest_catalog (serving_store revision) = [web_at revision]"
proof -
  show step: "catalog_step demo_catalog_hash ''p'' 1 mem catalog_empty (web_at revision) =
     Inr (Applied, \<lparr>cv_records = [(''d1'', web_at revision)], cv_record_ids = {demo_catalog_hash (web_at revision)}\<rparr>)"
    unfolding catalog_step_def catalog_apply_Inr
    using assms by (simp add: catalog_empty_def fenced_def catalog_all_def bt_values_def catalog_insert_def)
      (simp add: demo_deployment_def catalog_verify_def catalog_validate_def CATALOG_PROTOCOL_VERSION_def CATALOG_SCHEMA_VERSION_def)
  show "catalog_store_inv demo_catalog_hash ''p'' 1 mem (serving_store revision)"
    by (simp add: catalog_store_inv_def log_ok_def serving_store_def step bt_map_def)
  show "latest_catalog (serving_store revision) = [web_at revision]"
    by (simp add: latest_catalog_def serving_store_def catalog_row_of_def)
qed

lemma serving_commit:
  fixes revision replica
  defines "v \<equiv> \<lparr>cv_records = [(''d1'', web_at revision)], cv_record_ids = {demo_catalog_hash (web_at revision)}\<rparr>"
    and "rec \<equiv> demo_deployment replica ''d1'' 1 (next_revision replica [web_at revision]) Draining Unknown"
  assumes "revision \<noteq> 0" "demo_catalog_hash rec \<noteq> demo_catalog_hash (web_at revision)" "unat (cr_revision rec) < 2 ^ 63"
    and ap: "catalog_apply demo_catalog_hash ''p'' 1 demo_view v rec Local = Inr (out, v')"
  shows "\<exists>st'. handle demo_env demo_agent (ReqCatalogCommit (commit_web replica)) (serving_store revision) =
    Some (Inr (ResCatalogCommitted rec), st')"
proof -
  have "catalog_from_records demo_catalog_hash ''p'' 1 demo_view (verified (catalog_operations (serving_store revision))) = Inr v"
    unfolding catalog_stored by (simp add: serving_store_def serving_view(1) [OF assms(3)] v_def)
  moreover have "demo_catalog_hash rec \<notin> fst ` set (as_catalog_operations (serving_store revision))"
    using assms(4) by (simp add: serving_store_def)
  moreover have "ensure_replication_capacity 0 0 (serving_store revision) = Inr ()"
    by (simp add: ensure_replication_capacity_def serving_store_def enrolled_store_def store_empty_def)
  moreover have "cr_owner_epoch rec = 1" by (simp add: rec_def demo_deployment_def)
  ultimately obtain st' where st': "apply_catalog demo_catalog_hash 0 0 ''p'' 1 demo_view rec Local (serving_store revision) = Inr (out, st')"
    using ap assms(5) by (simp add: apply_catalog_new)
  have addr: "parse_ipv4 (show_ipv4 42) = Some 42" by (rule parse_show_ipv4)
  have rec: "commit_record demo_node (mr_owner_epoch node_a) (next_revision replica [web_at revision]) 42 (commit_web replica) = rec"
    by (simp add: rec_def commit_record_def commit_web_def demo_member_def demo_deployment_def
        CATALOG_PROTOCOL_VERSION_def CATALOG_SCHEMA_VERSION_def)
  have free: "\<not> replica_fenced demo_node (mr_owner_epoch node_a) replica [web_at revision]"
    by (simp add: replica_fenced_def demo_deployment_def)
  have fields: "cm_replica_id (commit_web replica) = replica" "cm_address (commit_web replica) = show_ipv4 42" by (simp_all add: commit_web_def)
  have env: "ae_catalog_hash demo_env = demo_catalog_hash" "ae_pages demo_env = 0" "ae_page_size demo_env = 0" by (simp_all add: demo_env_def)
  show ?thesis
    using st' by (simp add: handle_catalog_commit_def demo_agent_def serving_owner serving_view(3) [OF assms(3)] free fields addr rec env Let_def)
qed

lemma serving_next:
  "next_revision ''r'' [web_at 1] = 2" "next_revision ''q'' [web_at 2] = 1"
  by (simp_all add: next_revision_def demo_deployment_def u64_saturating_add_def)

text \<open>The replica of a deployment commits to it.\<close>

theorem catalog_commit_stored_witness:
  "\<exists>st'. handle demo_env demo_agent (ReqCatalogCommit (commit_web ''r'')) (serving_store 1) =
       Some (Inr (ResCatalogCommitted (demo_deployment ''r'' ''d1'' 1 2 Draining Unknown)), st') \<and>
     catalog_at ''d1'' (serving_store 1) = Some (web_at 1) \<and>
     catalog_at ''d1'' st' = Some (demo_deployment ''r'' ''d1'' 1 2 Draining Unknown)"
proof -
  let ?rec = "demo_deployment ''r'' ''d1'' 1 2 Draining Unknown"
  have "catalog_apply demo_catalog_hash ''p'' 1 demo_view \<lparr>cv_records = [(''d1'', web_at 1)], cv_record_ids = {demo_catalog_hash (web_at 1)}\<rparr> ?rec Local =
      Inr (Applied, \<lparr>cv_records = [(''d1'', ?rec)], cv_record_ids = {demo_catalog_hash ?rec, demo_catalog_hash (web_at 1)}\<rparr>)"
    unfolding catalog_apply_Inr
    by (simp add: fenced_def catalog_all_def bt_values_def catalog_insert_def)
      (simp add: demo_deployment_def demo_catalog_hash_def catalog_verify_def catalog_validate_def catalog_order_def
        CATALOG_PROTOCOL_VERSION_def CATALOG_SCHEMA_VERSION_def)
  then obtain st' where ok: "handle demo_env demo_agent (ReqCatalogCommit (commit_web ''r'')) (serving_store 1) = Some (Inr (ResCatalogCommitted ?rec), st')"
    using serving_commit [of 1 "''r''"] by (auto simp: serving_next) (auto simp: demo_deployment_def demo_catalog_hash_def)
  have inv: "catalog_store_inv (ae_catalog_hash demo_env) (ni_project_id demo_node) (ni_recovery_epoch demo_node) demo_view (serving_store 1)"
    using serving_view(2) [of 1] by (simp add: demo_env_def)
  have inj: "inj_on (ae_catalog_hash demo_env) (insert ?rec (snd ` set (as_catalog_operations (serving_store 1))))"
    by (simp add: serving_store_def demo_env_def demo_catalog_hash_def demo_deployment_def)
  have at: "catalog_at ''d1'' (serving_store 1) = Some (web_at 1)" by (simp add: catalog_at_def serving_store_def catalog_row_of_def)
  have "\<forall>x \<in> set (latest_catalog (serving_store 1)). unat (cr_revision x) < 2 ^ 63"
    using serving_view(3) [of 1] by (simp add: demo_deployment_def)
  from catalog_commit_stored [OF inv inj this _ serving_owner ok] at ok show ?thesis
    by (auto simp: demo_agent_def commit_web_def demo_deployment_def demo_member_def)
qed

text \<open>Another replica commits to the deployment: the commit is answered with success and lost.\<close>

lemma superseded_commit_answered:
  "\<exists>st'. handle demo_env demo_agent (ReqCatalogCommit (commit_web ''q'')) (serving_store 2) =
       Some (Inr (ResCatalogCommitted (demo_deployment ''q'' ''d1'' 1 1 Draining Unknown)), st') \<and>
     catalog_at ''d1'' st' = Some (web_at 2)"
proof -
  let ?rec = "demo_deployment ''q'' ''d1'' 1 1 Draining Unknown"
  have "catalog_apply demo_catalog_hash ''p'' 1 demo_view \<lparr>cv_records = [(''d1'', web_at 2)], cv_record_ids = {demo_catalog_hash (web_at 2)}\<rparr> ?rec Local =
      Inr (Superseded, \<lparr>cv_records = [(''d1'', web_at 2)], cv_record_ids = {demo_catalog_hash ?rec, demo_catalog_hash (web_at 2)}\<rparr>)"
    unfolding catalog_apply_Inr
    by (simp add: fenced_def catalog_all_def bt_values_def catalog_insert_def)
      (simp add: demo_deployment_def demo_catalog_hash_def catalog_verify_def catalog_validate_def catalog_order_def
        CATALOG_PROTOCOL_VERSION_def CATALOG_SCHEMA_VERSION_def)
  then obtain st' where ok: "handle demo_env demo_agent (ReqCatalogCommit (commit_web ''q'')) (serving_store 2) = Some (Inr (ResCatalogCommitted ?rec), st')"
    using serving_commit [of 2 "''q''"] by (auto simp: serving_next) (auto simp: demo_deployment_def demo_catalog_hash_def)
  have inv: "catalog_store_inv (ae_catalog_hash demo_env) (ni_project_id demo_node) (ni_recovery_epoch demo_node) demo_view (serving_store 2)"
    using serving_view(2) [of 2] by (simp add: demo_env_def)
  have inj: "inj_on (ae_catalog_hash demo_env) (insert ?rec (snd ` set (as_catalog_operations (serving_store 2))))"
    by (simp add: serving_store_def demo_env_def demo_catalog_hash_def demo_deployment_def)
  have at: "catalog_at ''d1'' (serving_store 2) = Some (web_at 2)" by (simp add: catalog_at_def serving_store_def catalog_row_of_def)
  have ok': "handle_catalog_commit demo_env demo_agent (commit_web ''q'') (serving_store 2) = (Inr (ResCatalogCommitted ?rec), st')"
    using ok by simp
  have "newer_record demo_catalog_hash ?rec (Some (web_at 2)) = web_at 2"
    by (simp add: newer_record_def catalog_order_def demo_deployment_def)
  then show ?thesis
    using commit_answered(2) [OF inv inj _ serving_owner ok'] at ok by (simp add: demo_agent_def demo_env_def commit_web_def)
qed

end
