(* ===== verification/Spec2Isabelle.thy ===== *)
theory Spec2Isabelle
  imports Plan_Properties Scheduler Replication Dns Deploy_Lock Enrollment Cascade Agent_Api
begin

text \<open>
  A verification development for jiji, a deployment tool. Its command line (\<^verbatim>\<open>crates/jiji-cli\<close>) checks a configuration
  (\<^verbatim>\<open>crates/jiji-config\<close>), plans a private network for the servers of a project (\<^verbatim>\<open>crates/jiji-network\<close>), enrolls the servers and
  deploys services under locks on the hosts. An agent on each server (\<^verbatim>\<open>crates/jiji-agent\<close>) replicates membership,
  service catalog and desired state, keeps them in a SQLite store, repairs the WireGuard peers, leases container
  addresses, answers names, runs scheduled commands and serves the requests of the command line.

  \<^bold>\<open>Theories.\<close> File names are those of the four crates.
  \<^item> Prelude, Text_Format: sorted association lists for \<^verbatim>\<open>BTreeMap\<close>, results, numbers, and text as bytes of UTF-8.
  \<^item> Cidr, Pattern, Naming, Schema: \<^verbatim>\<open>cidr.rs\<close>, \<^verbatim>\<open>pattern.rs\<close>, \<^verbatim>\<open>naming.rs\<close>, \<^verbatim>\<open>schema.rs\<close>.
  \<^item> Remote_Builder, Validation: \<^verbatim>\<open>remote_builder.rs\<close> and every rule of \<^verbatim>\<open>validation.rs\<close>.
  \<^item> Planner, Plan_Properties, Service_Runtime: \<^verbatim>\<open>planner.rs\<close>, from the configuration to the network plan, and
    \<^verbatim>\<open>service_runtime.rs\<close>, the run command of a container as a line for the shell.
  \<^item> Replay: the locale of last-writer-wins views built by replaying records, and the locale of a stored log
    with its table of winners; interpreted for each of the three kinds of record.
  \<^item> Membership, Catalog, Desired: \<^verbatim>\<open>membership.rs\<close>, \<^verbatim>\<open>catalog.rs\<close>, \<^verbatim>\<open>desired.rs\<close>.
  \<^item> Store, Store_Log, Leases, Cron, Cron_Runs: \<^verbatim>\<open>store.rs\<close> with \<^verbatim>\<open>leases.rs\<close> and \<^verbatim>\<open>cron.rs\<close>. The record
    \<open>AgentStore\<close> has one field per table; an operation maps a store to a result and a store.
  \<^item> Wireguard, Runtime, Replication: \<^verbatim>\<open>wireguard.rs\<close>, \<^verbatim>\<open>runtime.rs\<close>, \<^verbatim>\<open>engine.rs\<close>, \<^verbatim>\<open>catalog_replication.rs\<close>, \<^verbatim>\<open>backup.rs\<close>.
  \<^item> Cron_Exec, Scheduler: \<^verbatim>\<open>cron_exec.rs\<close> with the agent's background tasks as a step relation, and \<^verbatim>\<open>scheduler.rs\<close>.
  \<^item> Dns, Agent_Api: \<^verbatim>\<open>dns.rs\<close> down to the bytes of an answer, and \<^verbatim>\<open>api.rs\<close>, every request and the idempotency keys.
  \<^item> Env_Resolution, Health_Check, Proxy_Routes: \<^verbatim>\<open>env_resolution.rs\<close>, \<^verbatim>\<open>health_check.rs\<close>, \<^verbatim>\<open>proxy_routes.rs\<close>.
  \<^item> Deploy_Lock: \<^verbatim>\<open>lock.rs\<close>, the shell scripts command by command; interleaved invocations are a step relation.
  \<^item> Enrollment: \<^verbatim>\<open>commands/network/membership.rs\<close> and \<^verbatim>\<open>enroll_agent_targets\<close> of \<^verbatim>\<open>commands/server/setup.rs\<close>.
  \<^item> Cascade: \<^verbatim>\<open>placement.rs\<close>, \<^verbatim>\<open>cascade.rs\<close> and the waves of \<^verbatim>\<open>commands/deploy.rs\<close>.

  \<^bold>\<open>Conventions.\<close> Errors are the left summand of a result; an outer option is a panic. Machine integers are
  words. A \<^verbatim>\<open>u64\<close> above the range of a SQLite integer is refused where the code binds it and wraps where the code
  casts it. Hash functions, JSON rendering, external commands, name resolution, cron expressions, time zones and the
  order of database rows with equal keys are parameters. No definition uses fuel: every recursion is structural or proved
  to end. A loop that waits for the outside world runs over the list of what it is told there: the answers of a probe
  or of the proxy with the time of each, what other invocations do to the locks between two passes.

  \<^bold>\<open>Interleaving.\<close> The lock scripts interleave by single commands, keyed requests of the agent by critical sections,
  scheduled runs by sections under one lock, and the services of a deployment wave by whole endpoints. The requests of
  one rank in \<^verbatim>\<open>OwnedDeploymentLocks::acquire\<close> are run in order; in the code they run concurrently, on different paths
  unless a lock is requested twice.

  \<^bold>\<open>Results.\<close> An accepted configuration has no dangling reference and no port claimed twice. Planning gives disjoint subnets
  and addresses within their blocks, and is deterministic. Views do not depend on the order of the records accepted; owner
  epochs fence out stale writers; claims of active members are unique. The stored logs refine the views exactly and
  compaction preserves them. WireGuard repair is idempotent and reaches a fixed point. Leased addresses are unique and
  usable, and are freed only on evidence. A client of the name server reads the live replicas. Runs of a scheduled command
  do not overlap where that is forbidden. A catalog commit gets a fresh revision; a keyed request is answered once.
  A lock has one owner as long as nobody deletes the lock of an owner: recovery of a complete lock, forced removal and teardown do.
  Locks are acquired all or none. Enrollment converges. A deployment reaches a service that shares a network after its upstream.

  \<^bold>\<open>Not modelled.\<close> Files, sockets, timers, SSH, the container engine, the proxy process, bringing up a host, database
  migrations, the JSON frames of the agent's socket, and the commands of the command line that run remote
  scripts: they are input and output around the modelled operations, or third-party code.
\<close>

end
